(* ===== verification/Prelude.thy ===== *)
theory Prelude
  imports Main "HOL-Library.Word"
begin

text \<open>
  What every component of the model shares: the C integer types as words, the error
  codes, C strings as byte lists, big-endian values, and generic list lemmas.
\<close>

unbundle bit_operations_syntax

section \<open>Types\<close>

type_synonym byte = "8 word"
type_synonym u16 = "16 word"
type_synonym u32 = "32 word"
type_synonym bytes = "byte list"

text \<open>
  The error numbers the sources name. Their values differ between C libraries and no code
  here depends on them, so they are a datatype; \<open>EOther\<close> is any other code that comes back
  from a library call. A C function that returns 0 or a negative errno returns \<open>rc\<close>.
\<close>

datatype errno =
    E2BIG | EACCES | EAGAIN | EBADMSG | ECONNREFUSED | EFAULT | EINVAL | EIO | ENETUNREACH | ENODATA
  | ENODEV | ENOENT | ENOMEM | ENOSPC | ENOTCONN | ENOTSUP | EPROTO | ETIMEDOUT | EOther int

datatype rc = OK | Err errno

named_theorems frame_simps "a step leaves a field it does not write unchanged"

section \<open>C strings and big-endian values\<close>

text \<open>The bytes of a C string literal, without the terminating NUL.\<close>

definition ascii :: "string \<Rightarrow> bytes" where
  "ascii s = map of_char s"

lemma length_ascii [simp]: "length (ascii s) = length s"
  by (simp add: ascii_def)

text \<open>The characters of a byte buffer.\<close>

definition chars :: "bytes \<Rightarrow> string" where
  "chars bs = map (\<lambda>b. char_of (unat b)) bs"

lemma chars_ascii: "chars (ascii x) = x"
proof -
  have "unat (of_nat (of_char c) :: byte) = of_char c" for c
    unfolding unat_of_nat using nat_of_char_less_256 [of c] by (simp add: take_bit_eq_mod)
  then have "unat (of_char c :: byte) = of_char c" for c
    by (simp only: of_nat_of_char)
  then show ?thesis by (simp add: chars_def ascii_def comp_def)
qed

text \<open>What a GATT write handler returns: bytes taken, or an ATT error.\<close>

datatype att = Took nat | INVALID_OFFSET | INVALID_ATTRIBUTE_LEN

text \<open>\<open>%u\<close>.\<close>

fun dec :: "nat \<Rightarrow> string" where
  "dec n = (if n < 10 then [char_of (48 + n)] else dec (n div 10) @ [char_of (48 + n mod 10)])"

declare dec.simps [simp del]

lemma length_dec: "0 < k \<Longrightarrow> n < 10 ^ k \<Longrightarrow> length (dec n) \<le> k"
proof (induction n arbitrary: k rule: dec.induct)
  case (1 n)
  show ?case
  proof (cases "n < 10")
    case False
    obtain j where k: "k = Suc j" using 1(2) by (cases k) auto
    moreover have "0 < j" using False 1(3) k by (cases j) simp_all
    ultimately have j: "k = Suc j" "0 < j" by simp_all
    then have "n div 10 < 10 ^ j" using 1(3) by (simp add: div_less_iff_less_mult)
    then show ?thesis using 1(1) [OF False j(2)] False j(1) by (subst dec.simps) simp
  qed (use 1(2) in \<open>subst dec.simps, simp\<close>)
qed

text \<open>\<open>%d\<close>.\<close>

definition dec_int :: "int \<Rightarrow> string" where
  "dec_int i = (if i < 0 then CHR ''-'' # dec (nat (- i)) else dec (nat i))"

definition be_nat :: "bytes \<Rightarrow> nat" where
  "be_nat bs = foldl (\<lambda>a b. a * 256 + unat b) 0 bs"

lemma be_nat_foldl:
  "foldl (\<lambda>a b. a * 256 + unat b) n (bs :: bytes) = n * 256 ^ length bs + be_nat bs"
proof (induction bs arbitrary: n)
  case Nil
  then show ?case by (simp add: be_nat_def)
next
  case (Cons b bs)
  have head: "be_nat (b # bs) = unat b * 256 ^ length bs + be_nat bs"
    using Cons.IH [of "unat b"] by (simp add: be_nat_def)
  have "foldl (\<lambda>a b. a * 256 + unat b) n (b # bs)
      = (n * 256 + unat b) * 256 ^ length bs + be_nat bs"
    using Cons.IH [of "n * 256 + unat b"] by simp
  with head show ?case by (simp add: algebra_simps)
qed

lemma be_nat_Nil [simp]: "be_nat [] = 0"
  by (simp add: be_nat_def)

lemma be_nat_Cons [simp]: "be_nat (b # bs) = unat b * 256 ^ length bs + be_nat bs"
  using be_nat_foldl [of "unat b" bs] by (simp add: be_nat_def)

lemma be_nat_append: "be_nat (xs @ ys) = be_nat xs * 256 ^ length ys + be_nat ys"
  by (induction xs) (simp_all add: algebra_simps power_add)

lemma unat_byte_less: "unat (b :: byte) < 256"
  using unsigned_less [of b] by simp

lemma be_nat_less: "be_nat bs < 256 ^ length bs"
proof (induction bs)
  case (Cons b bs)
  have "unat b * 256 ^ length bs + be_nat bs < (unat b + 1) * 256 ^ length bs"
    using Cons.IH by simp
  also have "\<dots> \<le> 256 * 256 ^ length bs"
    using unat_byte_less [of b] by (intro mult_right_mono) simp_all
  finally show ?case by simp
qed simp

section \<open>Shifts\<close>

lemma unat_drop_less:
  assumes "0 < k" "v \<noteq> 0"
  shows "unat (drop_bit k v) < unat (v :: 'a :: len word)"
proof -
  have "1 < (2 :: nat) ^ k" using assms(1) by (rule one_less_power [rotated]) simp
  moreover have "0 < unat v" using assms(2) by (simp add: unat_gt_0)
  ultimately show ?thesis unfolding unat_drop_bit_eq by (simp add: drop_bit_eq_div)
qed

lemma ucast_byte_eq: "(ucast a :: u32) = ucast b \<longleftrightarrow> a = (b :: byte)"
proof -
  have "unat (ucast x :: u32) = unat x" for x :: byte
    using unat_byte_less [of x] by (simp add: unsigned_ucast_eq take_bit_nat_eq_self_iff)
  then show ?thesis by (metis word_unat_eq_iff)
qed

lemma and_0xFF: "(u :: 'a :: len word) AND 0xFF = take_bit 8 u"
  by (simp add: take_bit_eq_mask mask_eq_exp_minus_1)

lemma and_0x7F: "(u :: 'a :: len word) AND 0x7F = take_bit 7 u"
  by (simp add: take_bit_eq_mask mask_eq_exp_minus_1)

section \<open>Generic list lemmas\<close>

lemma take_take_drop: "take n xs @ take m (drop n xs) @ drop (m + n) xs = xs"
  by (metis append_take_drop_id drop_drop)

lemma drop_list_update_before:
  "i < length xs \<Longrightarrow> drop i (xs[i := x]) = x # drop (Suc i) xs"
  by (simp add: Cons_nth_drop_Suc [symmetric])

lemma foldl_rev: "foldl f a (rev xs) = foldr (\<lambda>x a. f a x) xs a"
  by (simp add: foldl_conv_foldr)

section \<open>Linear search\<close>

text \<open>The index at which a C scan over an array stops: the first entry that satisfies \<open>P\<close>.\<close>

primrec first_index :: "('a \<Rightarrow> bool) \<Rightarrow> 'a list \<Rightarrow> nat option" where
  "first_index P [] = None"
| "first_index P (x # xs) = (if P x then Some 0 else map_option Suc (first_index P xs))"

lemma first_index_Some:
  "first_index P xs = Some i \<longleftrightarrow> i < length xs \<and> P (xs ! i) \<and> (\<forall>j < i. \<not> P (xs ! j))"
proof (induction xs arbitrary: i)
  case (Cons x xs)
  then show ?case by (cases i) (auto simp: less_Suc_eq_0_disj)
qed simp

lemma first_index_None: "first_index P xs = None \<longleftrightarrow> (\<forall>x \<in> set xs. \<not> P x)"
  by (induction xs) auto

lemma first_index_less: "first_index P xs = Some i \<Longrightarrow> i < length xs"
  by (simp add: first_index_Some)

section \<open>Runs of an event-driven component\<close>

text \<open>
  A component that reacts to events one at a time (a handler, a work item, a callback). An
  invariant that the events of a kind \<open>ok\<close> keep holds after any sequence of them.
\<close>

locale guarded_system =
  fixes react :: "'e \<Rightarrow> 's \<Rightarrow> 's" and ok :: "'e \<Rightarrow> bool" and inv :: "'s \<Rightarrow> bool"
  assumes react_keeps_ok: "ok e \<Longrightarrow> inv s \<Longrightarrow> inv (react e s)"
begin

definition run :: "'e list \<Rightarrow> 's \<Rightarrow> 's" where
  "run es s = fold react es s"

lemma run_keeps_ok: "list_all ok es \<Longrightarrow> inv s \<Longrightarrow> inv (run es s)"
  by (induction es arbitrary: s) (simp_all add: run_def react_keeps_ok)

lemma run_append: "run (es @ fs) s = run fs (run es s)"
  by (simp add: run_def)

end

text \<open>A system in which no event is excluded.\<close>

locale event_system =
  fixes react :: "'e \<Rightarrow> 's \<Rightarrow> 's" and inv :: "'s \<Rightarrow> bool"
  assumes react_keeps: "inv s \<Longrightarrow> inv (react e s)"

sublocale event_system \<subseteq> guarded_system react "\<lambda>_. True" inv
  by unfold_locales (rule react_keeps)

context event_system
begin

lemma run_keeps: "inv s \<Longrightarrow> inv (run es s)"
  by (rule run_keeps_ok) (simp add: list_all_iff)

end

end
