(* ===== verification/Ber.thy ===== *)
theory Ber
  imports Prelude
begin

text \<open>
  The BER codec of \<^verbatim>\<open>src/lib/snmp/snmp_ber.c\<close>: the backward encoder over a fixed buffer, the
  bounds-checked forward decoder, and the order on object identifiers. The encoder is
  shown to prepend the bytes of a pure TLV specification, or to set its overflow flag; the
  decoder is shown to undo that specification.
\<close>

abbreviation BER_TAG_INTEGER :: byte where "BER_TAG_INTEGER \<equiv> 0x02"
abbreviation BER_TAG_OCTET_STR :: byte where "BER_TAG_OCTET_STR \<equiv> 0x04"
abbreviation BER_TAG_NULL :: byte where "BER_TAG_NULL \<equiv> 0x05"
abbreviation BER_TAG_OID :: byte where "BER_TAG_OID \<equiv> 0x06"
abbreviation BER_TAG_SEQUENCE :: byte where "BER_TAG_SEQUENCE \<equiv> 0x30"
abbreviation BER_TAG_IPADDRESS :: byte where "BER_TAG_IPADDRESS \<equiv> 0x40"
abbreviation BER_TAG_COUNTER32 :: byte where "BER_TAG_COUNTER32 \<equiv> 0x41"
abbreviation BER_TAG_GAUGE32 :: byte where "BER_TAG_GAUGE32 \<equiv> 0x42"
abbreviation BER_TAG_TIMETICKS :: byte where "BER_TAG_TIMETICKS \<equiv> 0x43"

text \<open>Longest object identifier the decoder stores.\<close>

definition BER_MAX_OID_LEN :: nat where
  "BER_MAX_OID_LEN = 32"

type_synonym oid = "u32 list"

section \<open>Backward encoder\<close>

text \<open>
  \<open>size_t\<close> values are \<open>nat\<close>: every one is bounded by the buffer size. Signed 32-bit values
  are \<open>u32\<close> words, read with \<open>sint\<close> where the sign matters.
\<close>

record ber_enc =
  be_base :: bytes
  be_cap :: nat
  be_pos :: nat
  be_overflow :: bool

definition ber_enc_init :: "bytes \<Rightarrow> nat \<Rightarrow> ber_enc" where
  "ber_enc_init buf n = \<lparr>be_base = buf, be_cap = n, be_pos = n, be_overflow = False\<rparr>"

definition ber_enc_data :: "ber_enc \<Rightarrow> bytes" where
  "ber_enc_data e = drop (be_pos e) (be_base e)"

definition ber_enc_length :: "ber_enc \<Rightarrow> nat" where
  "ber_enc_length e = (if be_overflow e then 0 else be_cap e - be_pos e)"

definition ber_mark :: "ber_enc \<Rightarrow> nat" where
  "ber_mark e = be_pos e"

definition put_byte :: "ber_enc \<Rightarrow> byte \<Rightarrow> ber_enc" where
  "put_byte e b =
     (if be_overflow e \<or> be_pos e = 0 then e\<lparr>be_overflow := True\<rparr>
      else e\<lparr>be_pos := be_pos e - 1, be_base := (be_base e)[be_pos e - 1 := b]\<rparr>)"

primrec put_bytes :: "ber_enc \<Rightarrow> bytes \<Rightarrow> nat \<Rightarrow> ber_enc" where
  "put_bytes e src 0 = e"
| "put_bytes e src (Suc i) = put_bytes (put_byte e (src ! i)) src i"

text \<open>The little-endian scratch array \<open>tmp\<close> of \<open>put_len\<close>.\<close>

fun len_le :: "nat \<Rightarrow> bytes" where
  "len_le n = (if n = 0 then [] else of_nat (n mod 256) # len_le (n div 256))"

declare len_le.simps [simp del]

definition put_len :: "ber_enc \<Rightarrow> nat \<Rightarrow> ber_enc" where
  "put_len e n =
     (if n < 0x80 then put_byte e (of_nat n)
      else let tmp = len_le n
           in put_byte (foldl put_byte e tmp) (0x80 OR of_nat (length tmp)))"

definition ber_wrap :: "ber_enc \<Rightarrow> nat \<Rightarrow> byte \<Rightarrow> ber_enc" where
  "ber_wrap e mark tag = put_byte (put_len e (mark - be_pos e)) tag"

lemma sint_shift8: "sint (signed_drop_bit 8 (u :: u32)) = sint u div 256"
  by (simp add: sint_signed_drop_bit_eq drop_bit_eq_div)

lemma int_le_measure:
  fixes a :: int
  assumes "a \<noteq> 0" "a \<noteq> -1"
  shows "\<bar>2 * (a div 256) + 1\<bar> < \<bar>2 * a + 1\<bar>"
proof (cases "0 < a")
  case True
  then have "0 \<le> a div 256" "a div 256 < a" by auto
  then show ?thesis by linarith
next
  case False
  with assms have "a \<le> -2" by simp
  then have "a < a div 256" "a div 256 < 0" by auto
  then show ?thesis by linarith
qed

lemma signed_drop_fix: "signed_drop_bit 8 (0 :: u32) = 0" "signed_drop_bit 8 (-1 :: u32) = -1"
  by simp_all

text \<open>The scratch array of \<open>ber_put_int\<close>: the do-while loop with its arithmetic shift.\<close>

function int_le :: "u32 \<Rightarrow> bytes" where
  "int_le u =
     (let b = ucast (u AND 0xFF) :: byte; u' = signed_drop_bit 8 u
      in if (u' = 0 \<and> b AND 0x80 = 0) \<or> (u' = 0xFFFFFFFF \<and> b AND 0x80 \<noteq> 0) then [b]
         else b # int_le u')"
  by pat_completeness auto
termination
proof (relation "measure (\<lambda>u. nat \<bar>2 * sint u + 1\<bar>)")
  fix u b u'
  assume b: "b = (ucast (u AND 0xFF) :: byte)" and u': "u' = signed_drop_bit 8 (u :: u32)"
    and go: "\<not> (u' = 0 \<and> b AND 0x80 = 0 \<or> u' = 0xFFFFFFFF \<and> b AND 0x80 \<noteq> 0)"
  have "u \<noteq> 0" using go by (auto simp: b u')
  moreover have "u \<noteq> -1" using go by (auto simp: b u')
  ultimately have "sint u \<noteq> 0" "sint u \<noteq> -1"
    using signed_word_eqI [of u 0] signed_word_eqI [of u "-1"] by auto
  then show "(u', u) \<in> measure (\<lambda>u. nat \<bar>2 * sint u + 1\<bar>)"
    using int_le_measure [of "sint u"] by (simp add: u' sint_shift8)
qed simp

declare int_le.simps [simp del]

definition ber_put_int :: "ber_enc \<Rightarrow> u32 \<Rightarrow> ber_enc" where
  "ber_put_int e v =
     (let tmp = int_le v
      in put_byte (put_len (foldl put_byte e tmp) (length tmp)) BER_TAG_INTEGER)"

text \<open>The scratch array of \<open>ber_put_uint_tagged\<close>, before and after the sign byte.\<close>

function uint_le :: "u32 \<Rightarrow> bytes" where
  "uint_le v =
     (let b = ucast (v AND 0xFF) :: byte; v' = drop_bit 8 v
      in if v' > 0 then b # uint_le v' else [b])"
  by pat_completeness auto
termination
proof (relation "measure unat")
  fix v b v' assume "v' = drop_bit 8 (v :: u32)" "v' > 0"
  then show "(v', v) \<in> measure unat"
    using unat_drop_less [of 8 v] by (cases "v = 0") simp_all
qed simp

declare uint_le.simps [simp del]

definition uint_tmp :: "u32 \<Rightarrow> bytes" where
  "uint_tmp v =
     (let tmp = uint_le v in if last tmp AND 0x80 \<noteq> 0 then tmp @ [0x00] else tmp)"

definition ber_put_uint_tagged :: "ber_enc \<Rightarrow> u32 \<Rightarrow> byte \<Rightarrow> ber_enc" where
  "ber_put_uint_tagged e v tag =
     (let tmp = uint_tmp v
      in put_byte (put_len (foldl put_byte e tmp) (length tmp)) tag)"

definition ber_put_octet_str :: "ber_enc \<Rightarrow> bytes \<Rightarrow> nat \<Rightarrow> ber_enc" where
  "ber_put_octet_str e s n = put_byte (put_len (put_bytes e s n) n) BER_TAG_OCTET_STR"

text \<open>The base-128 groups of a sub-identifier, low group first (\<open>tmp\<close> of \<open>ber_put_oid\<close>).\<close>

function sub_more :: "u32 \<Rightarrow> bytes" where
  "sub_more v =
     (if v > 0 then (ucast (v AND 0x7F) OR 0x80) # sub_more (drop_bit 7 v) else [])"
  by pat_completeness auto
termination
proof (relation "measure unat")
  fix v :: u32 assume "v > 0"
  then show "(drop_bit 7 v, v) \<in> measure unat"
    using unat_drop_less [of 7 v] by (simp add: word_gt_0)
qed simp

declare sub_more.simps [simp del]

definition sub_le :: "u32 \<Rightarrow> bytes" where
  "sub_le v = ucast (v AND 0x7F) # sub_more (drop_bit 7 v)"

definition ber_put_oid :: "ber_enc \<Rightarrow> oid \<Rightarrow> nat \<Rightarrow> ber_enc" where
  "ber_put_oid e subids n =
     (if n < 2 then put_byte (put_len e 0) BER_TAG_OID
      else
        let start = be_pos e;
            e1 = foldl (\<lambda>e v. foldl put_byte e (sub_le v)) e (rev (drop 2 (take n subids)));
            first = subids ! 0 * 40 + subids ! 1;
            e2 = foldl put_byte e1 (sub_le first)
        in put_byte (put_len e2 (start - be_pos e2)) BER_TAG_OID)"

definition ber_put_null :: "ber_enc \<Rightarrow> ber_enc" where
  "ber_put_null e = put_byte (put_byte e 0x00) BER_TAG_NULL"

definition ber_put_exception :: "ber_enc \<Rightarrow> byte \<Rightarrow> ber_enc" where
  "ber_put_exception e exc_tag = put_byte (put_byte e 0x00) exc_tag"

text \<open>
  \<open>memcpy\<close> of a \<open>uint32_t\<close> takes its bytes in memory order; every target of this firmware
  is little-endian.
\<close>

definition ber_put_ipaddress :: "ber_enc \<Rightarrow> u32 \<Rightarrow> ber_enc" where
  "ber_put_ipaddress e addr =
     (let b = [ucast addr, ucast (drop_bit 8 addr), ucast (drop_bit 16 addr),
               ucast (drop_bit 24 addr)]
      in put_byte (put_len (put_bytes e b 4) 4) BER_TAG_IPADDRESS)"

section \<open>Forward decoder\<close>

text \<open>
  A decoder is the list of the bytes from \<open>p\<close> up to \<open>end\<close>. \<open>None\<close> is the C result
  \<open>false\<close>; no caller reads a decoder again after that.
\<close>

type_synonym ber_dec = bytes

definition ber_dec_done :: "ber_dec \<Rightarrow> bool" where
  "ber_dec_done d \<longleftrightarrow> d = []"

definition ber_get_tlv :: "ber_dec \<Rightarrow> ((byte \<times> bytes) \<times> ber_dec) option" where
  "ber_get_tlv d =
     (case d of
        t # l0 # d2 \<Rightarrow>
          if l0 < 0x80 then
            (if length d2 < unat l0 then None
             else Some ((t, take (unat l0) d2), drop (unat l0) d2))
          else
            (let nbytes = unat (l0 AND 0x7F)
             in if nbytes = 0 \<or> nbytes > 4 \<or> nbytes > length d2 then None
                else
                  let len = be_nat (take nbytes d2); d3 = drop nbytes d2
                  in if length d3 < len then None
                     else Some ((t, take len d3), drop len d3))
      | _ \<Rightarrow> None)"

definition ber_enter :: "ber_dec \<Rightarrow> byte \<Rightarrow> (ber_dec \<times> ber_dec) option" where
  "ber_enter d tag =
     (case ber_get_tlv d of
        Some ((t, c), d') \<Rightarrow> if t \<noteq> tag then None else Some (c, d')
      | None \<Rightarrow> None)"

text \<open>The 64-bit accumulator cannot overflow (at most five bytes), so it is an \<open>int\<close>.\<close>

definition ber_get_int :: "ber_dec \<Rightarrow> (u32 \<times> ber_dec) option" where
  "ber_get_int d =
     (case ber_get_tlv d of
        Some ((t, c), d') \<Rightarrow>
          if t \<noteq> BER_TAG_INTEGER \<or> length c = 0 \<or> length c > 5 then None
          else
            let start = (if hd c AND 0x80 \<noteq> 0 then -1 else 0 :: int)
            in Some (word_of_int (foldl (\<lambda>val b. val * 256 + uint b) start c), d')
      | None \<Rightarrow> None)"

definition ber_get_octet :: "ber_dec \<Rightarrow> (bytes \<times> ber_dec) option" where
  "ber_get_octet d =
     (case ber_get_tlv d of
        Some ((t, c), d') \<Rightarrow> if t \<noteq> BER_TAG_OCTET_STR then None else Some (c, d')
      | None \<Rightarrow> None)"

text \<open>
  The inner do-while of \<open>ber_get_oid\<close>: one sub-identifier, with the 32-bit shift that drops
  high bits. \<open>None\<close> is a dangling continuation.
\<close>

fun get_sub :: "u32 \<Rightarrow> bytes \<Rightarrow> (u32 \<times> bytes) option" where
  "get_sub v [] = None"
| "get_sub v (c # cs) =
     (let v' = push_bit 7 v OR ucast (c AND 0x7F)
      in if c AND 0x80 \<noteq> 0 then get_sub v' cs else Some (v', cs))"

lemma get_sub_shorter: "get_sub v cs = Some (w, cs') \<Longrightarrow> length cs' < length cs"
  by (induction v cs rule: get_sub.induct) (auto simp: Let_def split: if_splits)

text \<open>The outer loop, with \<open>cnt\<close> sub-identifiers already stored.\<close>

function get_subs :: "nat \<Rightarrow> nat \<Rightarrow> bytes \<Rightarrow> oid option" where
  "get_subs mx cnt cs =
     (if cs = [] then Some []
      else case get_sub 0 cs of
        None \<Rightarrow> None
      | Some (v, cs') \<Rightarrow>
          if cnt \<ge> mx then None else map_option ((#) v) (get_subs mx (Suc cnt) cs'))"
  by pat_completeness auto
termination
  by (relation "measure (\<lambda>(mx, cnt, cs). length cs)") (auto dest: get_sub_shorter)

declare get_subs.simps [simp del]

definition ber_get_oid :: "ber_dec \<Rightarrow> nat \<Rightarrow> (oid \<times> ber_dec) option" where
  "ber_get_oid d mx =
     (case ber_get_tlv d of
        Some ((t, c), d') \<Rightarrow>
          if t \<noteq> BER_TAG_OID \<or> length c = 0 then None
          else if mx < 2 then None
          else
            let first = ucast (hd c) :: u32
            in map_option (\<lambda>subs. (first div 40 # first mod 40 # subs, d'))
                 (get_subs mx 2 (tl c))
      | None \<Rightarrow> None)"

definition ber_skip :: "ber_dec \<Rightarrow> ber_dec option" where
  "ber_skip d = map_option snd (ber_get_tlv d)"

section \<open>Comparison of object identifiers\<close>

fun oid_cmp :: "oid \<Rightarrow> oid \<Rightarrow> int" where
  "oid_cmp (x # xs) (y # ys) =
     (if x \<noteq> y then (if x < y then -1 else 1) else oid_cmp xs ys)"
| "oid_cmp [] [] = 0"
| "oid_cmp [] (y # ys) = -1"
| "oid_cmp (x # xs) [] = 1"

section \<open>The encoder prepends\<close>

text \<open>
  \<open>prepend e bs\<close> writes \<open>bs\<close> in front of what the encoder holds. Every writer is shown equal
  to \<open>prepend\<close> of a pure byte string; these equations are the collection \<open>put_prepend\<close>.
\<close>

named_theorems put_prepend "writers of the encoder as prepended bytes"

definition prepend :: "ber_enc \<Rightarrow> bytes \<Rightarrow> ber_enc" where
  "prepend e bs = foldl put_byte e (rev bs)"

definition enc_inv :: "ber_enc \<Rightarrow> bool" where
  "enc_inv e \<longleftrightarrow> length (be_base e) = be_cap e \<and> be_pos e \<le> be_cap e"

lemma prepend_Nil [simp]: "prepend e [] = e"
  by (simp add: prepend_def)

lemma prepend_Cons: "prepend e (b # bs) = put_byte (prepend e bs) b"
  by (simp add: prepend_def)

lemma prepend_append: "prepend e (xs @ ys) = prepend (prepend e ys) xs"
  by (simp add: prepend_def)

lemma foldl_put_prepend: "foldl put_byte e bs = prepend e (rev bs)"
  by (simp add: prepend_def)

lemma put_byte_prepend: "put_byte e b = prepend e [b]"
  by (simp add: prepend_def)

lemma put_bytes_prepend: "n \<le> length src \<Longrightarrow> put_bytes e src n = prepend e (take n src)"
  by (induction n arbitrary: e)
    (simp_all add: take_Suc_conv_app_nth prepend_append put_byte_prepend)

lemma put_byte_overflowed: "be_overflow e \<Longrightarrow> put_byte e b = e"
  by (simp add: put_byte_def)

lemma prepend_overflowed: "be_overflow e \<Longrightarrow> prepend e bs = e"
  by (induction bs) (simp_all add: prepend_Cons put_byte_overflowed)

lemma prepend_fits:
  "\<not> be_overflow e \<Longrightarrow> length bs \<le> be_pos e \<Longrightarrow>
    \<not> be_overflow (prepend e bs) \<and> be_pos (prepend e bs) = be_pos e - length bs"
  by (induction bs) (auto simp: prepend_Cons put_byte_def)

lemma prepend_overflow_iff [simp]:
  "be_overflow (prepend e bs) \<longleftrightarrow> be_overflow e \<or> be_pos e < length bs"
proof (induction bs)
  case (Cons b bs)
  show ?case
  proof (cases "be_overflow e \<or> be_pos e < length bs")
    case True
    then have "be_overflow (prepend e bs)" using Cons.IH by simp
    with True show ?thesis by (auto simp: prepend_Cons put_byte_overflowed)
  next
    case False
    then show ?thesis using prepend_fits [of e bs] by (auto simp: prepend_Cons put_byte_def)
  qed
qed simp

lemma prepend_pos [simp]:
  "\<not> be_overflow e \<Longrightarrow> length bs \<le> be_pos e \<Longrightarrow> be_pos (prepend e bs) = be_pos e - length bs"
  using prepend_fits by blast

lemma put_byte_inv: "enc_inv e \<Longrightarrow> enc_inv (put_byte e b)"
  by (auto simp: enc_inv_def put_byte_def)

lemma prepend_inv: "enc_inv e \<Longrightarrow> enc_inv (prepend e bs)"
  by (induction bs) (simp_all add: prepend_Cons put_byte_inv)

lemma put_byte_cap [simp]: "be_cap (put_byte e b) = be_cap e"
  by (simp add: put_byte_def)

lemma prepend_cap [simp]: "be_cap (prepend e bs) = be_cap e"
  by (induction bs) (simp_all add: prepend_Cons)

lemma prepend_data:
  "enc_inv e \<Longrightarrow> \<not> be_overflow e \<Longrightarrow> length bs \<le> be_pos e \<Longrightarrow>
    ber_enc_data (prepend e bs) = bs @ ber_enc_data e"
proof (induction bs)
  case (Cons b bs)
  let ?e = "prepend e bs"
  have fits: "\<not> be_overflow ?e" "be_pos ?e = be_pos e - length bs" using Cons.prems by simp_all
  have inv: "enc_inv ?e" using Cons.prems(1) by (rule prepend_inv)
  have pos: "be_pos ?e \<noteq> 0" using fits(2) Cons.prems(3) by simp
  with inv have "be_pos ?e - 1 < length (be_base ?e)" by (auto simp: enc_inv_def)
  from drop_list_update_before [OF this] have "ber_enc_data (put_byte ?e b) = b # ber_enc_data ?e"
    using fits(1) pos by (simp only: put_byte_def ber_enc_data_def) simp
  then show ?case using Cons by (simp add: prepend_Cons)
qed simp

section \<open>The pure encoding\<close>

definition len_bytes :: "nat \<Rightarrow> bytes" where
  "len_bytes n =
     (if n < 0x80 then [of_nat n]
      else (0x80 OR of_nat (length (len_le n))) # rev (len_le n))"

definition tlv :: "byte \<Rightarrow> bytes \<Rightarrow> bytes" where
  "tlv tag c = tag # len_bytes (length c) @ c"

definition oid_content :: "oid \<Rightarrow> bytes" where
  "oid_content os =
     (if length os < 2 then []
      else rev (sub_le (os ! 0 * 40 + os ! 1)) @ concat (map (rev \<circ> sub_le) (drop 2 os)))"

lemma put_len_prepend [put_prepend]: "put_len e n = prepend e (len_bytes n)"
  by (simp add: put_len_def len_bytes_def Let_def put_byte_prepend foldl_put_prepend
      flip: prepend_append)

lemma put_tlv_prepend: "put_byte (put_len (prepend e c) (length c)) tag = prepend e (tlv tag c)"
  by (simp add: tlv_def put_len_prepend put_byte_prepend flip: prepend_append)

lemma ber_put_int_prepend [put_prepend]:
  "ber_put_int e v = prepend e (tlv BER_TAG_INTEGER (rev (int_le v)))"
  using put_tlv_prepend [of e "rev (int_le v)"]
  by (simp add: ber_put_int_def Let_def foldl_put_prepend)

lemma ber_put_uint_prepend [put_prepend]:
  "ber_put_uint_tagged e v tag = prepend e (tlv tag (rev (uint_tmp v)))"
  using put_tlv_prepend [of e "rev (uint_tmp v)"]
  by (simp add: ber_put_uint_tagged_def Let_def foldl_put_prepend)

lemma ber_put_octet_prepend [put_prepend]:
  "n = length s \<Longrightarrow> ber_put_octet_str e s n = prepend e (tlv BER_TAG_OCTET_STR s)"
  using put_tlv_prepend [of e s] by (simp add: ber_put_octet_str_def put_bytes_prepend)

lemma ber_put_null_prepend [put_prepend]: "ber_put_null e = prepend e (tlv BER_TAG_NULL [])"
  by (simp add: ber_put_null_def tlv_def len_bytes_def prepend_Cons)

lemma ber_put_exception_prepend [put_prepend]: "ber_put_exception e t = prepend e (tlv t [])"
  by (simp add: ber_put_exception_def tlv_def len_bytes_def prepend_Cons)

lemma foldl_subs_prepend:
  "foldl (\<lambda>e v. prepend e (rev (sub_le v))) e vs = prepend e (concat (map (rev \<circ> sub_le) (rev vs)))"
  by (induction vs arbitrary: e) (simp_all flip: prepend_append)

text \<open>
  A header over children that were written after the mark. When the children did not fit,
  the encoder is already in its overflow state and stays in it.
\<close>

lemma put_header_prepend:
  "put_byte (put_len (prepend e c) (be_pos e - be_pos (prepend e c))) tag = prepend e (tlv tag c)"
proof (cases "be_overflow (prepend e c)")
  case True
  have "prepend e (tlv tag c) = prepend (prepend e c) (tag # len_bytes (length c))"
    by (simp add: tlv_def flip: prepend_append)
  with True show ?thesis
    by (simp only: put_len_prepend put_byte_prepend prepend_overflowed)
next
  case False
  then show ?thesis using put_tlv_prepend [of e c tag] by simp
qed

lemma ber_wrap_prepend [put_prepend]:
  "ber_wrap (prepend e c) (be_pos e) tag = prepend e (tlv tag c)"
  by (simp add: ber_wrap_def put_header_prepend)

lemma ber_put_oid_prepend [put_prepend]:
  "n = length os \<Longrightarrow> ber_put_oid e os n = prepend e (tlv BER_TAG_OID (oid_content os))"
proof (cases "length os < 2")
  case True
  moreover assume "n = length os"
  ultimately show ?thesis
    by (simp add: ber_put_oid_def oid_content_def tlv_def put_len_prepend len_bytes_def
        put_byte_prepend flip: prepend_append)
next
  case False
  moreover assume "n = length os"
  ultimately show ?thesis
    using put_header_prepend [of e "oid_content os" BER_TAG_OID]
    by (simp add: ber_put_oid_def oid_content_def Let_def foldl_subs_prepend foldl_put_prepend
        flip: prepend_append)
qed

section \<open>The decoder undoes the encoding\<close>

lemma byte_msb: "(b :: byte) AND 0x80 \<noteq> 0 \<longleftrightarrow> 128 \<le> unat b"
proof -
  have "(b AND 2 ^ 7 = 0) = (\<not> bit b 7)" by (rule and_exp_eq_0_iff_not_bit)
  moreover have "bit b 7 \<longleftrightarrow> bit (unat b) 7" by (simp add: bit_unsigned_iff)
  moreover have "bit (unat b) 7 \<longleftrightarrow> odd (unat b div 128)" by (simp add: bit_iff_odd)
  moreover have "unat b div 128 = (if 128 \<le> unat b then 1 else 0)"
    using unat_byte_less [of b] by (auto intro: div_nat_eqI)
  ultimately show ?thesis by simp
qed

lemma byte_less_80: "(b :: byte) < 0x80 \<longleftrightarrow> unat b < 128"
  by (simp add: word_less_nat_alt)

lemma unat_of_nat_byte [simp]: "n < 256 \<Longrightarrow> unat (of_nat n :: byte) = n"
  by (simp add: unat_of_nat)

lemma be_nat_len_le: "be_nat (rev (len_le n)) = n"
  by (induction n rule: len_le.induct) (subst len_le.simps, simp add: be_nat_append)

lemma len_le_bound: "n < 256 ^ k \<Longrightarrow> length (len_le n) \<le> k"
proof (induction n arbitrary: k rule: len_le.induct)
  case (1 n)
  show ?case
  proof (cases "n = 0")
    case True
    then show ?thesis by (simp add: len_le.simps)
  next
    case False
    with "1.prems" obtain j where k: "k = Suc j" by (cases k) auto
    with "1.prems" have "n div 256 < 256 ^ j" by (simp add: less_mult_imp_div_less mult.commute)
    with "1.IH" False k show ?thesis by (simp add: len_le.simps [of n])
  qed
qed

lemma long_form_byte:
  assumes "0 < k" "k \<le> 4"
  shows "\<not> (0x80 OR of_nat k :: byte) < 0x80" "unat ((0x80 OR of_nat k :: byte) AND 0x7F) = k"
proof -
  have "k \<in> {1, 2, 3, 4}" using assms by auto
  then show "\<not> (0x80 OR of_nat k :: byte) < 0x80" "unat ((0x80 OR of_nat k :: byte) AND 0x7F) = k"
    by auto
qed

lemma get_tlv_tlv:
  assumes "length c < 2 ^ 32"
  shows "ber_get_tlv (tlv t c @ rest) = Some ((t, c), rest)"
proof (cases "length c < 128")
  case True
  then show ?thesis by (simp add: ber_get_tlv_def tlv_def len_bytes_def byte_less_80)
next
  case False
  let ?l = "len_le (length c)"
  have "length ?l \<le> 4" using assms len_le_bound [of "length c" 4] by simp
  moreover have "0 < length ?l" using False by (subst len_le.simps) auto
  ultimately show ?thesis
    using False long_form_byte [of "length ?l"]
    by (simp add: ber_get_tlv_def tlv_def len_bytes_def be_nat_len_le)
qed

text \<open>What the decoder returns lies inside its input, after a header of two to six bytes.\<close>

lemma get_tlv_split:
  assumes "ber_get_tlv d = Some ((t, c), d')"
  shows "\<exists>hdr. d = t # hdr @ c @ d' \<and> 1 \<le> length hdr \<and> length hdr \<le> 5"
proof -
  from assms obtain l0 d2 where d: "d = t # l0 # d2"
    by (auto simp: ber_get_tlv_def Let_def split: list.splits if_splits)
  show ?thesis
  proof (cases "l0 < 0x80")
    case True
    with assms d have "d = t # [l0] @ c @ d'"
      by (auto simp: ber_get_tlv_def split: if_splits)
    then show ?thesis by (intro exI [of _ "[l0]"]) simp
  next
    case False
    let ?n = "unat (l0 AND 0x7F)"
    from assms d False have "?n \<le> 4" "d = t # (l0 # take ?n d2) @ c @ d'"
      by (auto simp: ber_get_tlv_def Let_def take_take_drop split: if_splits)
    then show ?thesis by (intro exI [of _ "l0 # take ?n d2"]) simp
  qed
qed

lemma get_tlv_shorter: "ber_get_tlv d = Some ((t, c), d') \<Longrightarrow> length d' < length d"
  using get_tlv_split [of d t c d'] by auto

lemma enter_tlv:
  "length c < 2 ^ 32 \<Longrightarrow> ber_enter (tlv t c @ rest) t = Some (c, rest)"
  by (simp add: ber_enter_def get_tlv_tlv)

lemma enter_shorter: "ber_enter d tag = Some (c, d') \<Longrightarrow> length d' < length d"
  by (auto simp: ber_enter_def dest: get_tlv_shorter split: option.splits if_splits)

lemma get_octet_tlv:
  "length c < 2 ^ 32 \<Longrightarrow> ber_get_octet (tlv BER_TAG_OCTET_STR c @ rest) = Some (c, rest)"
  by (simp add: ber_get_octet_def get_tlv_tlv)

subsection \<open>INTEGER\<close>

lemma low_byte_int: "int (unat (ucast ((u :: u32) AND 0xFF) :: byte)) = sint u mod 256"
proof -
  have "uint (ucast (u AND 0xFF) :: byte) = uint u mod 256"
    unfolding and_0xFF unsigned_ucast_eq unsigned_take_bit_eq by (simp add: take_bit_eq_mod)
  also have "\<dots> = sint u mod 256"
    using take_bit_signed_take_bit [of 8 31 "uint u"]
    by (simp add: sint_uint take_bit_eq_mod)
  finally show ?thesis by simp
qed

lemma int_le_stop:
  fixes u :: u32
  defines "b \<equiv> ucast (u AND 0xFF) :: byte" and "u' \<equiv> signed_drop_bit 8 u"
  shows "(u' = 0 \<and> b AND 0x80 = 0) \<or> (u' = 0xFFFFFFFF \<and> b AND 0x80 \<noteq> 0)
      \<longleftrightarrow> -128 \<le> sint u \<and> sint u < 128"
proof -
  have b: "int (unat b) = sint u mod 256" unfolding b_def by (rule low_byte_int)
  have ones: "(0xFFFFFFFF :: u32) = -1" by simp
  have z: "u' = 0 \<longleftrightarrow> sint u div 256 = 0"
    using signed_word_eqI [of u' 0] by (auto simp: u'_def simp flip: sint_shift8)
  have m: "u' = 0xFFFFFFFF \<longleftrightarrow> sint u div 256 = -1"
    unfolding ones using signed_word_eqI [of u' "-1"]
    by (auto simp: u'_def simp flip: sint_shift8)
  have top: "b AND 0x80 \<noteq> 0 \<longleftrightarrow> 128 \<le> sint u mod 256" unfolding byte_msb using b by linarith
  have "(a div 256 = 0 \<and> \<not> 128 \<le> a mod 256) \<or> (a div 256 = -1 \<and> 128 \<le> a mod 256)
      \<longleftrightarrow> -128 \<le> a \<and> a < 128" for a :: int
    by presburger
  then show ?thesis using z m top by blast
qed

lemma int_le_unfold:
  "int_le u =
     (let b = ucast (u AND 0xFF) :: byte
      in if -128 \<le> sint u \<and> sint u < 128 then [b] else b # int_le (signed_drop_bit 8 u))"
  by (subst int_le.simps) (simp only: Let_def int_le_stop)

lemma int_le_nonempty [simp]: "int_le u \<noteq> []"
  by (subst int_le.simps) (simp add: Let_def)

lemma int_le_bound:
  "-(2 ^ (8 * k + 7)) \<le> sint u \<Longrightarrow> sint u < 2 ^ (8 * k + 7) \<Longrightarrow> length (int_le u) \<le> Suc k"
proof (induction k arbitrary: u)
  case 0
  then show ?case by (subst int_le_unfold) (simp add: Let_def)
next
  case (Suc k)
  have "(2 :: int) ^ (8 * Suc k + 7) = 256 * 2 ^ (8 * k + 7)" by (simp add: power_add)
  then have "-(2 ^ (8 * k + 7)) \<le> sint u div 256" "sint u div 256 < 2 ^ (8 * k + 7)"
    using Suc.prems by linarith+
  then have "length (int_le (signed_drop_bit 8 u)) \<le> Suc k"
    by (intro Suc.IH) (simp_all only: sint_shift8)
  then show ?case by (subst int_le_unfold) (simp add: Let_def)
qed

lemma int_le_length: "length (int_le u) \<le> 4"
  using int_le_bound [of 3 u] sint_lt [of u] sint_ge [of u] by simp

text \<open>Reading the bytes back, sign extended from the highest one.\<close>

definition sext :: "bytes \<Rightarrow> int" where
  "sext c = foldl (\<lambda>val b. val * 256 + uint b) (if hd c AND 0x80 \<noteq> 0 then -1 else 0) c"

lemma sext_snoc: "c \<noteq> [] \<Longrightarrow> sext (c @ [b]) = sext c * 256 + uint b"
  by (simp add: sext_def)

lemma sext_int_le: "sext (rev (int_le u)) = sint u"
proof (induction u rule: int_le.induct)
  case (1 u)
  let ?b = "ucast (u AND 0xFF) :: byte"
  have b: "uint ?b = sint u mod 256" using low_byte_int [of u] by simp
  show ?case
  proof (cases "-128 \<le> sint u \<and> sint u < 128")
    case True
    have "?b AND 0x80 \<noteq> 0 \<longleftrightarrow> 128 \<le> sint u mod 256"
      unfolding byte_msb using low_byte_int [of u] by linarith
    then have "sext [?b] = (if 128 \<le> sint u mod 256 then -256 else 0) + sint u mod 256"
      using b by (simp add: sext_def)
    also have "\<dots> = sint u" using True by presburger
    finally show ?thesis using True by (subst int_le_unfold) (simp add: Let_def)
  next
    case False
    then have go: "\<not> (signed_drop_bit 8 u = 0 \<and> ?b AND 0x80 = 0
        \<or> signed_drop_bit 8 u = 0xFFFFFFFF \<and> ?b AND 0x80 \<noteq> 0)"
      using int_le_stop [of u] by blast
    have "sext (rev (int_le (signed_drop_bit 8 u))) = sint u div 256"
      unfolding sint_shift8 [symmetric] by (rule "1.IH" [OF refl refl go])
    with b have "sext (rev (?b # int_le (signed_drop_bit 8 u))) = sint u"
      by (simp add: sext_snoc)
    moreover have "int_le u = ?b # int_le (signed_drop_bit 8 u)"
      by (subst int_le_unfold) (simp only: Let_def if_not_P [OF False])
    ultimately show ?thesis by simp
  qed
qed

lemma get_int_tlv: "ber_get_int (tlv BER_TAG_INTEGER (rev (int_le v)) @ rest) = Some (v, rest)"
proof -
  have "length (rev (int_le v)) < 2 ^ 32" using int_le_length [of v] by simp
  from get_tlv_tlv [OF this]
  show ?thesis using sext_int_le [of v] int_le_length [of v]
    by (simp add: ber_get_int_def Let_def sext_def)
qed

subsection \<open>Unsigned integers and object identifiers\<close>

lemma unat_low_byte: "unat (ucast ((v :: u32) AND 0xFF) :: byte) = unat v mod 256"
proof -
  have "uint (ucast (v AND 0xFF) :: byte) = uint v mod 256"
    unfolding and_0xFF unsigned_ucast_eq unsigned_take_bit_eq by (simp add: take_bit_eq_mod)
  then show ?thesis by (simp add: zmod_int flip: of_nat_eq_iff [where 'a = int])
qed

lemma unat_drop8: "unat (drop_bit 8 (v :: u32)) = unat v div 256"
  unfolding unat_drop_bit_eq by (simp add: drop_bit_eq_div)

lemma drop8_pos: "drop_bit 8 (v :: u32) > 0 \<longleftrightarrow> unat v div 256 \<noteq> 0"
  unfolding unat_drop8 [symmetric] by (simp add: word_gt_0 unat_eq_zero)

lemma be_nat_uint_le: "be_nat (rev (uint_le v)) = unat v"
proof (induction v rule: uint_le.induct)
  case (1 v)
  show ?case
  proof (cases "drop_bit 8 v > 0")
    case True
    with "1.IH" [OF refl refl] show ?thesis
      by (subst uint_le.simps) (simp add: Let_def be_nat_append unat_low_byte unat_drop8)
  next
    case False
    then have "unat v div 256 = 0" unfolding drop8_pos by simp
    with False show ?thesis by (subst uint_le.simps) (simp add: Let_def unat_low_byte)
  qed
qed

lemma uint_le_nonempty [simp]: "uint_le v \<noteq> []"
  by (subst uint_le.simps) (simp add: Let_def)

lemma uint_le_bound: "unat v < 256 ^ Suc k \<Longrightarrow> length (uint_le v) \<le> Suc k"
proof (induction k arbitrary: v)
  case 0
  then have "\<not> drop_bit 8 v > 0" unfolding drop8_pos by simp
  then show ?case by (subst uint_le.simps) (simp add: Let_def)
next
  case (Suc k)
  then have "unat v div 256 < 256 ^ Suc k" by (simp add: less_mult_imp_div_less mult.commute)
  then have "unat (drop_bit 8 v) < 256 ^ Suc k" by (simp only: unat_drop8)
  from Suc.IH [OF this] show ?case by (subst uint_le.simps) (simp add: Let_def)
qed

lemma uint_le_length: "length (uint_le v) \<le> 4"
  using uint_le_bound [of v 3] unsigned_less [of v] by simp

lemma be_nat_uint_tmp: "be_nat (rev (uint_tmp v)) = unat v"
  by (simp add: uint_tmp_def Let_def be_nat_uint_le)

lemma uint_tmp_length: "length (uint_tmp v) \<le> 5" "uint_tmp v \<noteq> []"
  using uint_le_length [of v] by (simp_all add: uint_tmp_def Let_def)

lemma uint_tmp_sign: "hd (rev (uint_tmp v)) AND 0x80 = 0"
  by (simp add: uint_tmp_def Let_def hd_rev)

lemma sub_groups:
  "unat (ucast (w AND 0x7F) :: byte) = unat (w :: u32) mod 128"
  "unat (ucast (w AND 0x7F) OR 0x80 :: byte) = 128 + unat w mod 128"
proof -
  let ?b = "ucast (w AND 0x7F) :: byte"
  have "uint ?b = uint w mod 128"
    unfolding and_0x7F unsigned_ucast_eq unsigned_take_bit_eq
    by (simp add: take_bit_eq_mod mod_mod_cancel)
  then show low: "unat ?b = unat w mod 128"
    by (simp add: zmod_int flip: of_nat_eq_iff [where 'a = int])
  then have "unat ?b < 128" by simp
  then have "?b AND 0x80 = 0" using byte_msb [of ?b] by linarith
  then have "?b OR 0x80 = ?b + 0x80" by (simp only: disjunctive_add_eq_or)
  then show "unat (?b OR 0x80) = 128 + unat w mod 128"
    using low \<open>unat ?b < 128\<close> by (simp add: unat_word_ariths)
qed

lemma sub_join:
  fixes w :: u32
  shows "push_bit 7 (drop_bit 7 w) OR ucast ((ucast (w AND 0x7F) :: byte) AND 0x7F) = w"
    and "push_bit 7 (drop_bit 7 w) OR ucast ((ucast (w AND 0x7F) OR 0x80 :: byte) AND 0x7F) = w"
proof -
  have "(ucast (w AND 0x7F) OR 0x80 :: byte) AND 0x7F = ucast (w AND 0x7F)"
    "(ucast (w AND 0x7F) :: byte) AND 0x7F = ucast (w AND 0x7F)"
    unfolding and_0x7F by (rule bit_word_eqI; auto simp: bit_simps)+
  moreover have "push_bit 7 (drop_bit 7 w) OR ucast (ucast (w AND 0x7F) :: byte) = w"
    unfolding and_0x7F
  proof (rule bit_word_eqI)
    fix n assume "n < LENGTH(32)"
    then show "bit (push_bit 7 (drop_bit 7 w) OR ucast (ucast (take_bit 7 w) :: byte)) n = bit w n"
      by (cases "n < 7") (simp_all add: bit_simps)
  qed
  ultimately show "push_bit 7 (drop_bit 7 w) OR ucast ((ucast (w AND 0x7F) :: byte) AND 0x7F) = w"
    "push_bit 7 (drop_bit 7 w) OR ucast ((ucast (w AND 0x7F) OR 0x80 :: byte) AND 0x7F) = w"
    by (simp_all only:)
qed

lemma sub_groups_msb:
  "(ucast (w AND 0x7F) :: byte) AND 0x80 = 0"
  "(ucast ((w :: u32) AND 0x7F) OR 0x80 :: byte) AND 0x80 \<noteq> 0"
  using byte_msb [of "ucast (w AND 0x7F)"] byte_msb [of "ucast (w AND 0x7F) OR 0x80"]
    sub_groups [of w] by (linarith+)

lemma get_sub_more: "get_sub 0 (rev (sub_more w) @ x) = get_sub w x"
proof (induction w arbitrary: x rule: sub_more.induct)
  case (1 w)
  show ?case
  proof (cases "w > 0")
    case True
    have "get_sub 0 (rev (sub_more w) @ x)
        = get_sub (drop_bit 7 w) ((ucast (w AND 0x7F) OR 0x80) # x)"
      using "1.IH" [OF True] True by (subst sub_more.simps) simp
    also have "\<dots> = get_sub w x"
      by (simp only: get_sub.simps Let_def sub_groups_msb sub_join if_True not_False_eq_True)
    finally show ?thesis .
  next
    case False
    then show ?thesis by (subst sub_more.simps) (simp add: word_gt_0)
  qed
qed

lemma get_sub_le: "get_sub 0 (rev (sub_le v) @ rest) = Some (v, rest)"
proof -
  have "get_sub 0 (rev (sub_le v) @ rest) = get_sub (drop_bit 7 v) (ucast (v AND 0x7F) # rest)"
    by (simp add: sub_le_def get_sub_more)
  also have "\<dots> = Some (v, rest)"
    by (simp only: get_sub.simps Let_def sub_groups_msb sub_join if_False simp_thms)
  finally show ?thesis .
qed

lemma sub_le_nonempty [simp]: "sub_le v \<noteq> []"
  by (simp add: sub_le_def)

lemma get_subs_concat:
  "cnt + length vs \<le> mx \<Longrightarrow>
    get_subs mx cnt (concat (map (rev \<circ> sub_le) vs)) = Some vs"
proof (induction vs arbitrary: cnt)
  case Nil
  then show ?case by (simp add: get_subs.simps)
next
  case (Cons v vs)
  then show ?case by (subst get_subs.simps) (simp add: get_sub_le comp_def)
qed

lemma sub_le_small: "unat v < 128 \<Longrightarrow> sub_le v = [ucast v]"
proof -
  assume v: "unat v < 128"
  then have "unat (drop_bit 7 v) = 0"
    unfolding unat_drop_bit_eq by (simp add: drop_bit_eq_div)
  then have "drop_bit 7 v = 0" by (simp add: unat_eq_zero)
  moreover have "v AND 0x7F = v"
    using v unfolding and_0x7F by (simp add: take_bit_eq_mod word_unat_eq_iff unat_mod)
  ultimately show ?thesis by (simp add: sub_le_def sub_more.simps)
qed

lemma ucast_byte_ucast: "unat (v :: u32) < 256 \<Longrightarrow> ucast (ucast v :: byte) = v"
  by (simp add: word_unat_eq_iff unsigned_ucast_eq unsigned_take_bit_eq take_bit_nat_eq_self)

text \<open>
  The decoder reads the first sub-identifier from one byte, so the round trip covers arcs
  \<open>x.y\<close> with \<open>40 * x + y < 128\<close>.
\<close>

definition oid_arc_ok :: "oid \<Rightarrow> bool" where
  "oid_arc_ok os \<longleftrightarrow> 2 \<le> length os \<and> unat (os ! 1) < 40 \<and> unat (os ! 0) * 40 + unat (os ! 1) < 128"

lemma oid_first_arc:
  assumes "oid_arc_ok os"
  shows "unat (os ! 0 * 40 + os ! 1) = unat (os ! 0) * 40 + unat (os ! 1)"
    and "(os ! 0 * 40 + os ! 1) div 40 = os ! 0" and "(os ! 0 * 40 + os ! 1) mod 40 = os ! 1"
proof -
  from assms show u: "unat (os ! 0 * 40 + os ! 1) = unat (os ! 0) * 40 + unat (os ! 1)"
    by (simp add: oid_arc_ok_def unat_word_ariths)
  with assms show "(os ! 0 * 40 + os ! 1) div 40 = os ! 0" "(os ! 0 * 40 + os ! 1) mod 40 = os ! 1"
    by (simp_all add: word_unat_eq_iff unat_div unat_mod oid_arc_ok_def)
qed

lemma get_oid_tlv:
  assumes "oid_arc_ok os" "length os \<le> mx" "length (oid_content os) < 2 ^ 32"
  shows "ber_get_oid (tlv BER_TAG_OID (oid_content os) @ rest) mx = Some (os, rest)"
proof -
  let ?f = "os ! 0 * 40 + os ! 1"
  have len: "2 \<le> length os" and f: "unat ?f < 128"
    using assms(1) oid_first_arc(1) [OF assms(1)] by (simp_all add: oid_arc_ok_def)
  have c: "oid_content os = ucast ?f # concat (map (rev \<circ> sub_le) (drop 2 os))"
    using len sub_le_small [OF f] by (simp add: oid_content_def)
  then have ne: "oid_content os \<noteq> []" by simp
  have subs: "get_subs mx 2 (tl (oid_content os)) = Some (drop 2 os)"
    unfolding c using len assms(2) by (simp add: get_subs_concat)
  have "ucast (ucast ?f :: byte) = ?f" using f by (intro ucast_byte_ucast) simp
  then have "ucast (hd (oid_content os)) = ?f" by (simp add: c)
  moreover have "os ! 0 # os ! 1 # drop 2 os = os"
    using len by (metis Cons_nth_drop_Suc One_nat_def Suc_1 Suc_le_eq drop0 less_le_trans zero_less_two Suc_lessD)
  ultimately show ?thesis
    using get_tlv_tlv [OF assms(3)] subs len assms(2) oid_first_arc(2,3) [OF assms(1)]
    by (simp add: ber_get_oid_def Let_def ne)
qed

section \<open>The order on object identifiers\<close>

lemma oid_cmp_eq_0: "oid_cmp xs ys = 0 \<longleftrightarrow> xs = ys"
  by (induction xs ys rule: oid_cmp.induct) auto

lemma oid_cmp_flip: "oid_cmp ys xs = - oid_cmp xs ys"
  by (induction xs ys rule: oid_cmp.induct) auto

lemma oid_cmp_trans: "oid_cmp xs ys < 0 \<Longrightarrow> oid_cmp ys zs < 0 \<Longrightarrow> oid_cmp xs zs < 0"
proof (induction xs ys arbitrary: zs rule: oid_cmp.induct)
  case (1 x xs y ys)
  then show ?case by (cases zs) (auto split: if_splits)
qed (case_tac zs; simp)+

lemma oid_cmp_append: "oid_cmp (ps @ xs) (ps @ ys) = oid_cmp xs ys"
  by (induction ps) simp_all

text \<open>
  The interface the MIB walk needs of a comparison function: a strict total order in the
  style of \<open>strcmp\<close>.
\<close>

locale cmp_order =
  fixes cmp :: "'a \<Rightarrow> 'a \<Rightarrow> int"
  assumes cmp_eq_0: "cmp x y = 0 \<longleftrightarrow> x = y"
    and cmp_flip: "cmp y x = - cmp x y"
    and cmp_trans: "cmp x y < 0 \<Longrightarrow> cmp y z < 0 \<Longrightarrow> cmp x z < 0"
begin

definition ascending :: "('b \<Rightarrow> 'a) \<Rightarrow> 'b list \<Rightarrow> bool" where
  "ascending key xs \<longleftrightarrow> sorted_wrt (\<lambda>x y. cmp (key x) (key y) < 0) xs"

lemma cmp_refl: "cmp x x = 0"
  by (simp add: cmp_eq_0)

lemma ascending_nth_cmp:
  assumes "ascending key xs" "i < length xs" "j < length xs"
  shows "cmp (key (xs ! i)) (key (xs ! j)) < 0 \<longleftrightarrow> i < j"
proof -
  have lt: "cmp (key (xs ! a)) (key (xs ! b)) < 0" if "a < b" "b < length xs" for a b
    using assms(1) that by (simp add: ascending_def sorted_wrt_iff_nth_less)
  show ?thesis
  proof (cases i j rule: linorder_cases)
    case greater
    then show ?thesis using lt [of j i] assms(2) cmp_flip [of "key (xs ! i)" "key (xs ! j)"] by simp
  qed (use lt assms(3) in \<open>simp_all add: cmp_refl\<close>)
qed

lemma ascending_distinct: "ascending key xs \<Longrightarrow> distinct (map key xs)"
  unfolding distinct_conv_nth using ascending_nth_cmp [of key xs] cmp_refl
  by (metis length_map nat_neq_iff nth_map order_less_irrefl)

text \<open>The first entry past a key is the least such entry.\<close>

lemma first_after_least:
  assumes "ascending key xs" "first_index (\<lambda>x. cmp (key x) k > 0) xs = Some i"
    and "z \<in> set xs" "cmp (key z) k > 0"
  shows "z = xs ! i \<or> cmp (key (xs ! i)) (key z) < 0"
proof -
  have i: "i < length xs" "\<forall>j < i. \<not> cmp (key (xs ! j)) k > 0"
    using assms(2) by (simp_all add: first_index_Some)
  from assms(3) obtain j where j: "j < length xs" "z = xs ! j" by (auto simp: in_set_conv_nth)
  with i(2) assms(4) have "i \<le> j" by (metis not_le)
  with i j ascending_nth_cmp [OF assms(1) i(1) j(1)] show ?thesis by auto
qed

text \<open>Searching past an entry's own key gives the entry after it, and nothing after the last.\<close>

lemma first_after_nth:
  assumes "ascending key xs" "i < length xs"
  shows "first_index (\<lambda>x. cmp (key x) (key (xs ! i)) > 0) xs
    = (if Suc i < length xs then Some (Suc i) else None)"
proof -
  have gt: "cmp (key (xs ! j)) (key (xs ! i)) > 0 \<longleftrightarrow> i < j" if "j < length xs" for j
    using ascending_nth_cmp [OF assms(1) assms(2) that] cmp_flip [of "key (xs ! j)" "key (xs ! i)"]
    by simp
  show ?thesis
  proof (cases "Suc i < length xs")
    case True
    then show ?thesis using gt by (simp add: first_index_Some)
  next
    case False
    then have "first_index (\<lambda>x. cmp (key x) (key (xs ! i)) > 0) xs = None"
      unfolding first_index_None using gt by (auto simp: in_set_conv_nth)
    with False show ?thesis by simp
  qed
qed

lemma first_equal_nth:
  assumes "ascending key xs" "i < length xs"
  shows "first_index (\<lambda>x. cmp (key x) (key (xs ! i)) = 0) xs = Some i"
proof -
  have "key (xs ! j) \<noteq> key (xs ! i)" if "j < i" for j
    using ascending_nth_cmp [OF assms(1), of j i] that assms(2) cmp_refl [of "key (xs ! i)"] by auto
  then show ?thesis using assms(2) by (simp add: first_index_Some cmp_eq_0)
qed

lemma first_equal_key:
  assumes "first_index (\<lambda>x. cmp (key x) k = 0) xs = Some i"
  shows "i < length xs" "key (xs ! i) = k"
  using assms by (simp_all add: first_index_Some cmp_eq_0)

end

interpretation oid_ord: cmp_order oid_cmp
  by unfold_locales (rule oid_cmp_eq_0 oid_cmp_flip oid_cmp_trans; assumption?)+

section \<open>The codec's properties\<close>

text \<open>
  A writer never leaves its buffer: whatever is written, the buffer keeps its size, the
  write position stays inside it, the bytes already encoded are kept when the write fits, and
  when it does not the length is reported as 0.
\<close>

theorem ber_writers_stay_inside:
  assumes "length buf = n" "e = prepend (ber_enc_init buf n) done"
    and "e' \<in> {ber_put_int e v, ber_put_uint_tagged e v t, ber_put_octet_str e s (length s),
      ber_put_oid e os (length os), ber_put_null e, ber_put_exception e t}"
  shows "length (be_base e') = n \<and> be_pos e' \<le> n
    \<and> (be_overflow e' \<longrightarrow> ber_enc_length e' = 0)
    \<and> (\<not> be_overflow e' \<longrightarrow> (\<exists>bs. ber_enc_data e' = bs @ done \<and> ber_enc_length e' = length bs + length done))"
proof -
  have inv: "enc_inv (ber_enc_init buf n)" using assms(1) by (simp add: enc_inv_def ber_enc_init_def)
  obtain bs where e': "e' = prepend e bs"
    using assms(3) by (auto simp: put_prepend)
  then have all: "e' = prepend (ber_enc_init buf n) (bs @ done)" by (simp add: assms(2) prepend_append)
  have "enc_inv e'" unfolding all using inv by (rule prepend_inv)
  moreover have "be_cap e' = n" unfolding all by (simp add: ber_enc_init_def)
  moreover have "\<exists>bs. ber_enc_data e' = bs @ done \<and> ber_enc_length e' = length bs + length done"
    if "\<not> be_overflow e'"
  proof -
    from that have fit: "length (bs @ done) \<le> n" unfolding all by (simp add: ber_enc_init_def)
    then have "ber_enc_data e' = (bs @ done) @ []"
      unfolding all using prepend_data [OF inv, of "bs @ done"] assms(1)
      by (simp add: ber_enc_init_def ber_enc_data_def)
    moreover have "ber_enc_length e' = length bs + length done"
      using fit unfolding all by (simp add: ber_enc_length_def ber_enc_init_def)
    ultimately show ?thesis by auto
  qed
  ultimately show ?thesis by (auto simp: enc_inv_def ber_enc_length_def)
qed

theorem ber_writers_stay_inside_witness:
  "length (be_base (ber_put_int (ber_enc_init [0, 0] 2) 300)) = 2"
  using ber_writers_stay_inside
    [of "[0, 0]" 2 "ber_enc_init [0, 0] 2" "[]" "ber_put_int (ber_enc_init [0, 0] 2) 300" 300 0 "[]" "[]"]
  by simp

text \<open>
  Every 32-bit signed integer is encoded in at most six bytes, and reading the message back
  gives the same integer and leaves what was encoded after it.
\<close>

theorem ber_int_roundtrip:
  assumes "enc_inv e" "\<not> be_overflow e" "6 \<le> be_pos e"
  shows "\<not> be_overflow (ber_put_int e v)
    \<and> ber_get_int (ber_enc_data (ber_put_int e v)) = Some (v, ber_enc_data e)"
proof -
  let ?t = "tlv BER_TAG_INTEGER (rev (int_le v))"
  have len: "length ?t \<le> 6" using int_le_length [of v] by (simp add: tlv_def len_bytes_def)
  then have "ber_enc_data (ber_put_int e v) = ?t @ ber_enc_data e"
    using assms by (simp add: ber_put_int_prepend prepend_data)
  then show ?thesis using len assms by (simp add: get_int_tlv ber_put_int_prepend)
qed

theorem ber_int_roundtrip_witness:
  "ber_get_int (ber_enc_data (ber_put_int (ber_enc_init (replicate 8 0) 8) (- 129))) = Some (- 129, [])"
  using ber_int_roundtrip [of "ber_enc_init (replicate 8 0) 8" "- 129"]
  by (simp add: enc_inv_def ber_enc_init_def ber_enc_data_def)

text \<open>
  An object identifier whose first two arcs fit one byte is read back as it was written,
  every 32-bit arc included.
\<close>

theorem ber_oid_roundtrip:
  assumes "oid_arc_ok os" "length os \<le> mx"
    and "enc_inv e" "\<not> be_overflow (ber_put_oid e os (length os))" "be_pos e < 2 ^ 32"
  shows "ber_get_oid (ber_enc_data (ber_put_oid e os (length os))) mx = Some (os, ber_enc_data e)"
proof -
  let ?t = "tlv BER_TAG_OID (oid_content os)"
  have fit: "\<not> be_overflow e" "length ?t \<le> be_pos e"
    using assms(4) by (simp_all add: ber_put_oid_prepend)
  then have "length (oid_content os) < 2 ^ 32" using assms(5) by (simp add: tlv_def)
  then show ?thesis
    using fit assms(1-3) by (simp add: ber_put_oid_prepend prepend_data get_oid_tlv)
qed

theorem ber_oid_roundtrip_witness:
  "ber_get_oid (ber_enc_data (ber_put_oid (ber_enc_init (replicate 16 0) 16) [1, 3, 99999]
      (length [1, 3, 99999 :: u32]))) 32
    = Some ([1, 3, 99999], [])"
proof -
  let ?e = "ber_put_oid (ber_enc_init (replicate 16 0) 16) [1, 3, 99999] (length [1, 3, 99999 :: u32])"
  have "\<not> be_overflow ?e" by code_simp
  then have "ber_get_oid (ber_enc_data ?e) 32 =
      Some ([1, 3, 99999], ber_enc_data (ber_enc_init (replicate 16 0) 16))"
    by (rule ber_oid_roundtrip [rotated 3]) (simp_all add: oid_arc_ok_def enc_inv_def ber_enc_init_def)
  then show ?thesis by (simp only:) (simp add: ber_enc_init_def ber_enc_data_def)
qed

text \<open>
  The decoder never reads outside its input: an accepted element is a prefix of it, a tag
  and a header of one to five length bytes followed by the content, and what is left to decode
  is the rest.
\<close>

theorem ber_decoder_in_bounds:
  assumes "ber_get_tlv d = Some ((t, c), d')"
  shows "\<exists>hdr. d = t # hdr @ c @ d' \<and> 1 \<le> length hdr \<and> length hdr \<le> 5"
  using assms by (rule get_tlv_split)

theorem ber_decoder_in_bounds_witness:
  "\<exists>hdr. [4, 0x81, 1, 7, 9 :: byte] = 4 # hdr @ [7] @ [9] \<and> 1 \<le> length hdr \<and> length hdr \<le> 5"
  using ber_decoder_in_bounds [of "[4, 0x81, 1, 7, 9]" 4 "[7]" "[9]"] by (simp add: ber_get_tlv_def)

end
