(* ===== verification/Sim_Switch.thy ===== *)
theory Sim_Switch
  imports Prelude
begin

text \<open>
  The switch simulation of \<^verbatim>\<open>src/lib/common/sim_switch.c\<close>: its static variables as one record,
  \<open>sim_step\<close> (the delayed work that advances it), the typed accessors of \<^verbatim>\<open>sim_switch.h\<close> and the
  aggregate view of \<^verbatim>\<open>data_source.h\<close>. Kconfig values are arguments of \<open>data_source_init\<close>.
\<close>

definition SIM_SWITCH_MAX_IF :: nat where "SIM_SWITCH_MAX_IF = 8"
definition IF_SPEED_BPS :: u32 where "IF_SPEED_BPS = 1000000000"
definition IF_MTU :: u32 where "IF_MTU = 1500"
definition IF_TYPE_ETHER :: u32 where "IF_TYPE_ETHER = 6"

datatype sim_if_status = SIM_IF_UP | SIM_IF_DOWN

text \<open>The enumeration values of the C type (those of ifOperStatus).\<close>

primrec status_value :: "sim_if_status \<Rightarrow> u32" where
  "status_value SIM_IF_UP = 1"
| "status_value SIM_IF_DOWN = 2"

abbreviation (input) SIM_IF_IN_OCTETS :: nat where "SIM_IF_IN_OCTETS \<equiv> 0"
abbreviation (input) SIM_IF_IN_UCAST_PKTS :: nat where "SIM_IF_IN_UCAST_PKTS \<equiv> 1"
abbreviation (input) SIM_IF_OUT_OCTETS :: nat where "SIM_IF_OUT_OCTETS \<equiv> 2"
abbreviation (input) SIM_IF_OUT_UCAST_PKTS :: nat where "SIM_IF_OUT_UCAST_PKTS \<equiv> 3"
abbreviation (input) SIM_IF_COUNTER_COUNT :: nat where "SIM_IF_COUNTER_COUNT \<equiv> 4"

record sim_if =
  descr :: bytes
  admin :: sim_if_status
  oper :: sim_if_status
  counters :: "u32 list"
  base_rate :: u32

text \<open>
  The file's statics. \<open>ifs\<close> holds the initialised entries of the array, which are the only
  ones any function reads.
\<close>

record sim_state =
  ifs :: "sim_if list"
  if_count :: nat
  flap_idx :: nat
  flap_period :: u32
  step_n :: u32

section \<open>Operations\<close>

definition clamp_count :: "nat \<Rightarrow> nat" where
  "clamp_count cfg =
     (let n = cfg; n = (if n < 1 then 1 else n)
      in if n > SIM_SWITCH_MAX_IF then SIM_SWITCH_MAX_IF else n)"

definition if_names :: "bytes list" where
  "if_names = map ascii
     [''GigabitEthernet0/1'', ''GigabitEthernet0/2'', ''GigabitEthernet0/3'',
      ''GigabitEthernet0/4'', ''GigabitEthernet0/5'', ''GigabitEthernet0/6'',
      ''GigabitEthernet0/7'', ''Uplink0/0'']"

definition data_source_init :: "nat \<Rightarrow> nat \<Rightarrow> sim_state" where
  "data_source_init cfg_if_count cfg_flap_period =
     (let n = clamp_count cfg_if_count
      in \<lparr>ifs = map (\<lambda>i. \<lparr>descr = if_names ! i, admin = SIM_IF_UP, oper = SIM_IF_UP,
                         counters = replicate SIM_IF_COUNTER_COUNT 0,
                         base_rate = 800 + of_nat i * 250\<rparr>) [0..<n],
          if_count = n, flap_idx = (if n > 2 then n - 2 else 0),
          flap_period = of_nat cfg_flap_period, step_n = 0\<rparr>)"

text \<open>One turn of the counter loop of \<open>sim_step\<close>, for the interface it is at.\<close>

definition advance_if :: "u32 \<Rightarrow> sim_if \<Rightarrow> sim_if" where
  "advance_if n f =
     (if oper f \<noteq> SIM_IF_UP then f
      else
        let rate = base_rate f + (n AND 0x3F) * 4;
            pkts = 1 + rate div 512;
            c = counters f;
            c = c[SIM_IF_IN_OCTETS := c ! SIM_IF_IN_OCTETS + rate];
            c = c[SIM_IF_OUT_OCTETS := c ! SIM_IF_OUT_OCTETS + (rate + drop_bit 3 rate)];
            c = c[SIM_IF_IN_UCAST_PKTS := c ! SIM_IF_IN_UCAST_PKTS + pkts];
            c = c[SIM_IF_OUT_UCAST_PKTS := c ! SIM_IF_OUT_UCAST_PKTS + pkts]
        in f\<lparr>counters := c\<rparr>)"

definition flip_status :: "sim_if_status \<Rightarrow> sim_if_status" where
  "flip_status st = (if st = SIM_IF_UP then SIM_IF_DOWN else SIM_IF_UP)"

definition sim_step :: "sim_state \<Rightarrow> sim_state" where
  "sim_step s =
     (let s1 = s\<lparr>step_n := step_n s + 1\<rparr>;
          s2 = (if flap_period s1 > 0 \<and> if_count s1 > 1 \<and> step_n s1 mod flap_period s1 = 0
                then s1\<lparr>ifs := (ifs s1)[flap_idx s1 :=
                         (ifs s1 ! flap_idx s1)\<lparr>oper := flip_status (oper (ifs s1 ! flap_idx s1))\<rparr>]\<rparr>
                else s1)
      in s2\<lparr>ifs := map (advance_if (step_n s2)) (take (if_count s2) (ifs s2))
                  @ drop (if_count s2) (ifs s2)\<rparr>)"

definition sim_switch_if_count :: "sim_state \<Rightarrow> nat" where
  "sim_switch_if_count s = if_count s"

definition sim_switch_if_descr :: "sim_state \<Rightarrow> nat \<Rightarrow> bytes" where
  "sim_switch_if_descr s idx = (if idx < if_count s then descr (ifs s ! idx) else ascii ''?'')"

definition sim_switch_if_type :: "sim_state \<Rightarrow> nat \<Rightarrow> u32" where
  "sim_switch_if_type s idx = (if idx < if_count s then IF_TYPE_ETHER else 0)"

definition sim_switch_if_mtu :: "sim_state \<Rightarrow> nat \<Rightarrow> u32" where
  "sim_switch_if_mtu s idx = (if idx < if_count s then IF_MTU else 0)"

definition sim_switch_if_speed :: "sim_state \<Rightarrow> nat \<Rightarrow> u32" where
  "sim_switch_if_speed s idx = (if idx < if_count s then IF_SPEED_BPS else 0)"

definition sim_switch_if_admin_status :: "sim_state \<Rightarrow> nat \<Rightarrow> sim_if_status" where
  "sim_switch_if_admin_status s idx = (if idx < if_count s then admin (ifs s ! idx) else SIM_IF_DOWN)"

definition sim_switch_if_oper_status :: "sim_state \<Rightarrow> nat \<Rightarrow> sim_if_status" where
  "sim_switch_if_oper_status s idx = (if idx < if_count s then oper (ifs s ! idx) else SIM_IF_DOWN)"

definition sim_switch_if_counter :: "sim_state \<Rightarrow> nat \<Rightarrow> nat \<Rightarrow> u32" where
  "sim_switch_if_counter s idx c =
     (if idx \<ge> if_count s \<or> c \<ge> SIM_IF_COUNTER_COUNT then 0 else counters (ifs s ! idx) ! c)"

abbreviation (input) M_IF_UP :: nat where "M_IF_UP \<equiv> 0"
abbreviation (input) M_IN_OCTETS :: nat where "M_IN_OCTETS \<equiv> 1"
abbreviation (input) M_OUT_OCTETS :: nat where "M_OUT_OCTETS \<equiv> 2"
abbreviation (input) M_COUNT :: nat where "M_COUNT \<equiv> 3"

definition data_source_count :: nat where
  "data_source_count = M_COUNT"

text \<open>
  The C accumulators are doubles holding sums of at most eight 32-bit values, far below
  \<open>2 ^ 53\<close>, so every value is an exact natural number.
\<close>

definition data_source_sample :: "sim_state \<Rightarrow> nat \<Rightarrow> nat" where
  "data_source_sample s index =
     (let fs = take (if_count s) (ifs s);
          up = length (filter (\<lambda>f. oper f = SIM_IF_UP) fs);
          in_oct = sum_list (map (\<lambda>f. unat (counters f ! SIM_IF_IN_OCTETS)) fs);
          out_oct = sum_list (map (\<lambda>f. unat (counters f ! SIM_IF_OUT_OCTETS)) fs)
      in if index = M_IF_UP then up else if index = M_IN_OCTETS then in_oct
         else if index = M_OUT_OCTETS then out_oct else 0)"

definition app_sim_fault :: "sim_state \<Rightarrow> bool" where
  "app_sim_fault s \<longleftrightarrow> (\<exists>f \<in> set (take (if_count s) (ifs s)). admin f = SIM_IF_UP \<and> oper f \<noteq> SIM_IF_UP)"

section \<open>Invariant\<close>

definition sim_inv :: "sim_state \<Rightarrow> bool" where
  "sim_inv s \<longleftrightarrow>
     length (ifs s) = if_count s \<and> 1 \<le> if_count s \<and> if_count s \<le> SIM_SWITCH_MAX_IF
     \<and> flap_idx s < if_count s
     \<and> (\<forall>f \<in> set (ifs s). length (counters f) = SIM_IF_COUNTER_COUNT \<and> admin f = SIM_IF_UP)"

lemma clamp_count_bounds: "1 \<le> clamp_count cfg" "clamp_count cfg \<le> 8"
  by (simp_all add: clamp_count_def SIM_SWITCH_MAX_IF_def Let_def)

lemma data_source_init_inv: "sim_inv (data_source_init cfg per)"
  using clamp_count_bounds [of cfg]
  by (auto simp: sim_inv_def data_source_init_def Let_def SIM_SWITCH_MAX_IF_def)

lemma advance_if_frame [simp]:
  "oper (advance_if n f) = oper f" "admin (advance_if n f) = admin f"
  "descr (advance_if n f) = descr f" "base_rate (advance_if n f) = base_rate f"
  "length (counters (advance_if n f)) = length (counters f)"
  by (simp_all add: advance_if_def Let_def)

text \<open>Whether the step about to be taken moves the flapping link.\<close>

definition flaps :: "sim_state \<Rightarrow> bool" where
  "flaps s \<longleftrightarrow> flap_period s > 0 \<and> if_count s > 1 \<and> (step_n s + 1) mod flap_period s = 0"

text \<open>The interface at \<open>i\<close> after the flap and before the counters advance.\<close>

definition flapped :: "sim_state \<Rightarrow> nat \<Rightarrow> sim_if" where
  "flapped s i =
     (if flaps s \<and> i = flap_idx s
      then (ifs s ! i)\<lparr>oper := flip_status (oper (ifs s ! i))\<rparr> else ifs s ! i)"

lemma flapped_frame [simp]:
  "admin (flapped s i) = admin (ifs s ! i)" "counters (flapped s i) = counters (ifs s ! i)"
  "base_rate (flapped s i) = base_rate (ifs s ! i)" "descr (flapped s i) = descr (ifs s ! i)"
  by (simp_all add: flapped_def)

lemma sim_step_frame [simp]:
  "if_count (sim_step s) = if_count s" "flap_idx (sim_step s) = flap_idx s"
  "flap_period (sim_step s) = flap_period s" "step_n (sim_step s) = step_n s + 1"
  by (simp_all add: sim_step_def Let_def)

lemma sim_step_ifs:
  assumes "sim_inv s"
  shows "length (ifs (sim_step s)) = length (ifs s)"
    and "i < if_count s \<Longrightarrow> ifs (sim_step s) ! i =
      advance_if (step_n s + 1) (flapped s i)"
  using assms by (auto simp: sim_step_def sim_inv_def flaps_def flapped_def Let_def nth_list_update)

lemma sim_step_inv: "sim_inv s \<Longrightarrow> sim_inv (sim_step s)"
proof -
  assume inv: "sim_inv s"
  have "length (counters f) = SIM_IF_COUNTER_COUNT \<and> admin f = SIM_IF_UP"
    if "f \<in> set (ifs (sim_step s))" for f
  proof -
    from that obtain i where "i < if_count s" "f = ifs (sim_step s) ! i"
      using sim_step_ifs(1) [OF inv] inv by (auto simp: in_set_conv_nth sim_inv_def)
    then show ?thesis using sim_step_ifs(2) [OF inv] inv by (auto simp: sim_inv_def)
  qed
  then show ?thesis using inv sim_step_ifs(1) [OF inv] by (simp add: sim_inv_def)
qed

lemma sim_steps_inv: "sim_inv s \<Longrightarrow> sim_inv ((sim_step ^^ n) s)"
  by (induction n) (simp_all add: sim_step_inv)

lemma sim_oper_step:
  assumes "sim_inv s" "i < if_count s"
  shows "sim_switch_if_oper_status (sim_step s) i =
    (if flaps s \<and> i = flap_idx s then flip_status (sim_switch_if_oper_status s i)
     else sim_switch_if_oper_status s i)"
  using assms sim_step_ifs(2) [OF assms(1) assms(2)]
  by (simp add: sim_switch_if_oper_status_def flapped_def)

lemma sim_admin_up: "sim_inv s \<Longrightarrow> i < if_count s \<Longrightarrow> sim_switch_if_admin_status s i = SIM_IF_UP"
  by (simp add: sim_switch_if_admin_status_def sim_inv_def)

lemma sim_fault_iff:
  assumes "sim_inv s"
  shows "app_sim_fault s \<longleftrightarrow> (\<exists>i < if_count s. sim_switch_if_oper_status s i = SIM_IF_DOWN)"
proof -
  have "(x \<noteq> SIM_IF_UP) = (x = SIM_IF_DOWN)" for x by (cases x) simp_all
  then show ?thesis
    using assms by (auto simp: app_sim_fault_def sim_inv_def sim_switch_if_oper_status_def set_conv_nth)
qed

section \<open>A run of the simulation\<close>

definition sim_run :: "nat \<Rightarrow> nat \<Rightarrow> nat \<Rightarrow> sim_state" where
  "sim_run cfg per n = (sim_step ^^ n) (data_source_init cfg per)"

lemma sim_run_0 [simp]: "sim_run cfg per 0 = data_source_init cfg per"
  and sim_run_Suc [simp]: "sim_run cfg per (Suc n) = sim_step (sim_run cfg per n)"
  by (simp_all add: sim_run_def)

lemma sim_run_inv [simp]: "sim_inv (sim_run cfg per n)"
  by (simp add: sim_run_def sim_steps_inv data_source_init_inv)

lemma sim_run_frame [simp]:
  "if_count (sim_run cfg per n) = clamp_count cfg"
  "flap_idx (sim_run cfg per n) = (if clamp_count cfg > 2 then clamp_count cfg - 2 else 0)"
  "flap_period (sim_run cfg per n) = of_nat per"
  "step_n (sim_run cfg per n) = of_nat n"
  by (induction n) (simp_all add: data_source_init_def Let_def)

lemma sim_run_flaps:
  assumes "0 < per" "per < 2 ^ 32" "Suc n < 2 ^ 32"
  shows "flaps (sim_run cfg per n) \<longleftrightarrow> clamp_count cfg > 1 \<and> Suc n mod per = 0"
proof -
  have "unat (of_nat (Suc n) mod of_nat per :: u32) = Suc n mod per"
    using assms by (simp only: unat_mod unat_of_nat) (simp add: unat_of_nat)
  then have "(of_nat (Suc n) mod of_nat per :: u32) = 0 \<longleftrightarrow> Suc n mod per = 0"
    by (simp only: unat_eq_zero [symmetric])
  moreover have "(of_nat per :: u32) > 0"
    using assms by (simp add: word_greater_zero_iff word_of_nat_eq_0_iff nat_dvd_not_less)
  ultimately show ?thesis by (simp add: flaps_def add.commute)
qed

lemma odd_div_Suc:
  assumes "0 < per"
  shows "odd (Suc n div per) \<longleftrightarrow> (if Suc n mod per = 0 then even (n div per) else odd (n div per))"
proof (cases "Suc n mod per = 0")
  case True
  then have "Suc n div per = Suc (n div per)" by (simp add: div_Suc)
  with True show ?thesis by simp
next
  case False
  then have "Suc n div per = n div per" by (simp add: div_Suc)
  with False show ?thesis by simp
qed

text \<open>
  For every configuration with a nonzero flap period, after \<open>n\<close> steps of the simulation
  (before the 32-bit step counter wraps) exactly one interface can be down: the designated
  one, and it is down exactly when the number of completed periods is odd.
\<close>

theorem sim_flap_schedule:
  assumes "0 < per" "per < 2 ^ 32" "n < 2 ^ 32" "i < clamp_count cfg"
  shows "sim_switch_if_oper_status (sim_run cfg per n) i =
    (if clamp_count cfg > 1 \<and> i = (if clamp_count cfg > 2 then clamp_count cfg - 2 else 0)
        \<and> odd (n div per) then SIM_IF_DOWN else SIM_IF_UP)"
  using assms(3)
proof (induction n)
  case 0
  then show ?case using assms(1,4)
    by (simp add: sim_switch_if_oper_status_def data_source_init_def Let_def)
next
  case (Suc n)
  have fl: "flaps (sim_run cfg per n) \<longleftrightarrow> clamp_count cfg > 1 \<and> Suc n mod per = 0"
    using Suc.prems assms(1,2) by (intro sim_run_flaps)
  let ?f = "if clamp_count cfg > 2 then clamp_count cfg - 2 else 0"
  have ih: "sim_switch_if_oper_status (sim_run cfg per n) i =
      (if clamp_count cfg > 1 \<and> i = ?f \<and> odd (n div per) then SIM_IF_DOWN else SIM_IF_UP)"
    using Suc by simp
  have "sim_switch_if_oper_status (sim_run cfg per (Suc n)) i =
      (if clamp_count cfg > 1 \<and> Suc n mod per = 0 \<and> i = ?f
       then flip_status (sim_switch_if_oper_status (sim_run cfg per n) i)
       else sim_switch_if_oper_status (sim_run cfg per n) i)"
    using assms(4) by (simp only: sim_run_Suc sim_oper_step sim_run_inv sim_run_frame fl) simp
  then show ?case
    unfolding ih odd_div_Suc [OF assms(1), of n] flip_status_def by (auto split: if_splits)
qed

theorem sim_flap_schedule_witness:
  "sim_switch_if_oper_status (sim_run 5 15 31) 3 = SIM_IF_UP
    \<and> sim_switch_if_oper_status (sim_run 5 15 29) 3 = SIM_IF_DOWN"
  using sim_flap_schedule [of 15 31 3 5] sim_flap_schedule [of 15 29 3 5]
  by (simp add: clamp_count_def SIM_SWITCH_MAX_IF_def)

section \<open>Counters\<close>

lemma advance_if_counter:
  assumes "length (counters f) = SIM_IF_COUNTER_COUNT"
  shows "counters (advance_if n f) ! SIM_IF_IN_OCTETS = counters f ! SIM_IF_IN_OCTETS
      + (if oper f = SIM_IF_UP then base_rate f + (n AND 0x3F) * 4 else 0)"
    and "counters (advance_if n f) ! SIM_IF_IN_UCAST_PKTS = counters f ! SIM_IF_IN_UCAST_PKTS
      + (if oper f = SIM_IF_UP then 1 + (base_rate f + (n AND 0x3F) * 4) div 512 else 0)"
  using assms by (simp_all add: advance_if_def Let_def nth_list_update)

lemma sim_run_base_rate:
  "i < clamp_count cfg \<Longrightarrow> base_rate (ifs (sim_run cfg per n) ! i) = 800 + of_nat i * 250"
proof (induction n)
  case 0
  then show ?case by (simp add: data_source_init_def Let_def)
next
  case (Suc n)
  then show ?case using sim_step_ifs(2) [of "sim_run cfg per n" i] by simp
qed

lemma sim_counter_step:
  assumes "sim_inv s" "i < if_count s"
  shows "sim_switch_if_counter (sim_step s) i SIM_IF_IN_OCTETS =
    sim_switch_if_counter s i SIM_IF_IN_OCTETS
    + (if sim_switch_if_oper_status (sim_step s) i = SIM_IF_UP
       then base_rate (ifs s ! i) + ((step_n s + 1) AND 0x3F) * 4 else 0)"
proof -
  have "length (counters (ifs s ! i)) = SIM_IF_COUNTER_COUNT"
    using assms by (simp add: sim_inv_def)
  then show ?thesis
    using assms sim_step_ifs(2) [OF assms]
    by (simp add: sim_switch_if_counter_def sim_switch_if_oper_status_def advance_if_counter(1))
qed

text \<open>
  The in-octets counter of every interface is the 32-bit wrap-around sum of the
  per-step rates over exactly the steps at which that interface was operationally up.
\<close>

theorem sim_in_octets_sum:
  assumes "i < clamp_count cfg"
  shows "sim_switch_if_counter (sim_run cfg per n) i SIM_IF_IN_OCTETS =
    (\<Sum>k = 1..n. if sim_switch_if_oper_status (sim_run cfg per k) i = SIM_IF_UP
       then 800 + of_nat i * 250 + (of_nat k AND 0x3F) * 4 else 0)"
proof (induction n)
  case 0
  then show ?case using assms
    by (simp add: sim_switch_if_counter_def data_source_init_def Let_def)
next
  case (Suc n)
  then show ?case
    using assms by (simp add: sim_counter_step sim_run_base_rate add.commute [of 1])
qed

theorem sim_in_octets_sum_witness:
  "sim_switch_if_counter (sim_run 2 0 1) 1 SIM_IF_IN_OCTETS = 1054"
proof -
  have up: "sim_switch_if_oper_status (sim_run 2 0 (Suc 0)) (Suc 0) = SIM_IF_UP"
    by (simp add: sim_run_def) code_simp
  have "sim_switch_if_counter (sim_run 2 0 1) 1 SIM_IF_IN_OCTETS =
      (\<Sum>k = 1..1. if sim_switch_if_oper_status (sim_run 2 0 k) 1 = SIM_IF_UP
        then 800 + of_nat 1 * 250 + (of_nat k AND 0x3F) * 4 else 0)"
    by (rule sim_in_octets_sum) (simp add: clamp_count_def SIM_SWITCH_MAX_IF_def)
  then show ?thesis by (simp add: up del: sim_run_Suc)
qed

lemma count_up_less:
  "length (filter (\<lambda>f. oper f = SIM_IF_UP) fs) < length fs \<longleftrightarrow> (\<exists>f \<in> set fs. oper f \<noteq> SIM_IF_UP)"
  by (induction fs) (auto simp: less_Suc_eq_le length_filter_le)

text \<open>
  The fault flag, the up-interface count and the flapping link agree: a fault is reported
  exactly when fewer interfaces are up than exist.
\<close>

theorem sim_fault_iff_up_count:
  "app_sim_fault (sim_run cfg per n)
    \<longleftrightarrow> data_source_sample (sim_run cfg per n) M_IF_UP < sim_switch_if_count (sim_run cfg per n)"
proof -
  have inv: "sim_inv (sim_run cfg per n)" by simp
  then show ?thesis
    using count_up_less [of "ifs (sim_run cfg per n)"]
    by (auto simp: sim_inv_def app_sim_fault_def data_source_sample_def Let_def sim_switch_if_count_def)
qed

end
