(* ===== verification/Mib.thy ===== *)
theory Mib
  imports Ber Sim_Switch
begin

text \<open>
  The MIB view of \<^verbatim>\<open>src/lib/snmp/snmp_mib.c\<close>: the table of leaves that \<open>mib_init\<close> builds, the
  object identifier derived for a leaf, the three lookups, and the value encoders. Values the
  file reads from other modules (identity strings, host name, clock) are fields of an
  environment record; the interfaces come from the simulation's state.
\<close>

section \<open>Leaf kinds and constant arcs\<close>

abbreviation (input) K_SYS_DESCR :: byte where "K_SYS_DESCR \<equiv> 0"
abbreviation (input) K_SYS_OBJECTID :: byte where "K_SYS_OBJECTID \<equiv> 1"
abbreviation (input) K_SYS_UPTIME :: byte where "K_SYS_UPTIME \<equiv> 2"
abbreviation (input) K_SYS_CONTACT :: byte where "K_SYS_CONTACT \<equiv> 3"
abbreviation (input) K_SYS_NAME :: byte where "K_SYS_NAME \<equiv> 4"
abbreviation (input) K_SYS_LOCATION :: byte where "K_SYS_LOCATION \<equiv> 5"
abbreviation (input) K_SYS_SERVICES :: byte where "K_SYS_SERVICES \<equiv> 6"
abbreviation (input) K_IF_NUMBER :: byte where "K_IF_NUMBER \<equiv> 7"
abbreviation (input) K_IF_INDEX :: byte where "K_IF_INDEX \<equiv> 8"
abbreviation (input) K_IF_DESCR :: byte where "K_IF_DESCR \<equiv> 9"
abbreviation (input) K_IF_TYPE :: byte where "K_IF_TYPE \<equiv> 10"
abbreviation (input) K_IF_MTU :: byte where "K_IF_MTU \<equiv> 11"
abbreviation (input) K_IF_SPEED :: byte where "K_IF_SPEED \<equiv> 12"
abbreviation (input) K_IF_ADMIN :: byte where "K_IF_ADMIN \<equiv> 13"
abbreviation (input) K_IF_OPER :: byte where "K_IF_OPER \<equiv> 14"
abbreviation (input) K_IF_IN_OCTETS :: byte where "K_IF_IN_OCTETS \<equiv> 15"
abbreviation (input) K_IF_IN_UPKTS :: byte where "K_IF_IN_UPKTS \<equiv> 16"
abbreviation (input) K_IF_OUT_OCTETS :: byte where "K_IF_OUT_OCTETS \<equiv> 17"
abbreviation (input) K_IF_OUT_UPKTS :: byte where "K_IF_OUT_UPKTS \<equiv> 18"
abbreviation (input) K_FW_NAME :: byte where "K_FW_NAME \<equiv> 19"
abbreviation (input) K_FW_VERSION :: byte where "K_FW_VERSION \<equiv> 20"
abbreviation (input) K_FW_BUILD :: byte where "K_FW_BUILD \<equiv> 21"

text \<open>The \<open>if_columns\<close> table: value selector and IF-MIB column number.\<close>

definition if_columns :: "(byte \<times> byte) list" where
  "if_columns =
     [(K_IF_INDEX, 1), (K_IF_DESCR, 2), (K_IF_TYPE, 3), (K_IF_MTU, 4), (K_IF_SPEED, 5),
      (K_IF_ADMIN, 7), (K_IF_OPER, 8), (K_IF_IN_OCTETS, 10), (K_IF_IN_UPKTS, 11),
      (K_IF_OUT_OCTETS, 16), (K_IF_OUT_UPKTS, 17)]"

definition NUM_SCALARS :: nat where "NUM_SCALARS = 8"
definition NUM_FW_SCALARS :: nat where "NUM_FW_SCALARS = 3"

definition sys_prefix :: oid where "sys_prefix = [1, 3, 6, 1, 2, 1, 1]"
definition ifnum_oid :: oid where "ifnum_oid = [1, 3, 6, 1, 2, 1, 2, 1, 0]"
definition ifentry_prefix :: oid where "ifentry_prefix = [1, 3, 6, 1, 2, 1, 2, 2, 1]"
definition sys_object_id :: oid where "sys_object_id = [1, 3, 6, 1, 4, 1, 99999, 1]"

record mib_leaf =
  kind :: byte
  col :: byte
  row :: byte

text \<open>
  The statics of the file. \<open>leaves\<close> is the used part of the array, \<open>max_leaves\<close> its size,
  which depends on the configured interface count.
\<close>

record mib_state =
  leaves :: "mib_leaf list"
  max_leaves :: nat
  uptime_start_ms :: int

definition mib_max_leaves :: "nat \<Rightarrow> nat" where
  "mib_max_leaves cfg_if_count =
     NUM_SCALARS + length if_columns * min cfg_if_count SIM_SWITCH_MAX_IF + NUM_FW_SCALARS"

definition add_leaf :: "byte \<Rightarrow> byte \<Rightarrow> byte \<Rightarrow> mib_state \<Rightarrow> mib_state" where
  "add_leaf k c r m =
     (if length (leaves m) \<ge> max_leaves m then m
      else m\<lparr>leaves := leaves m @ [\<lparr>kind = k, col = c, row = r\<rparr>]\<rparr>)"

definition mib_leaf_oid :: "mib_leaf \<Rightarrow> oid" where
  "mib_leaf_oid leaf =
     (if kind leaf = K_IF_NUMBER then ifnum_oid
      else if kind leaf \<ge> K_FW_NAME then sys_object_id @ [ucast (col leaf), 0]
      else if kind leaf \<ge> K_IF_INDEX then ifentry_prefix @ [ucast (col leaf), ucast (row leaf)]
      else sys_prefix @ [ucast (col leaf), 0])"

text \<open>The (kind, column, row) triples in the order \<open>mib_init\<close> passes them to \<open>add_leaf\<close>.\<close>

definition sys_adds :: "(byte \<times> byte \<times> byte) list" where
  "sys_adds = map (\<lambda>n. (K_SYS_DESCR + of_nat (n - 1), of_nat n, 0)) [1..<NUM_SCALARS]"

definition table_adds :: "nat \<Rightarrow> (byte \<times> byte \<times> byte) list" where
  "table_adds nif =
     concat (map (\<lambda>(k, c). map (\<lambda>r. (k, c, of_nat r)) [1..<nif + 1]) if_columns)"

definition fw_adds :: "(byte \<times> byte \<times> byte) list" where
  "fw_adds = map (\<lambda>n. (K_FW_NAME + of_nat (n - 1), of_nat n, 0)) [1..<NUM_FW_SCALARS + 1]"

definition add_leaves :: "(byte \<times> byte \<times> byte) list \<Rightarrow> mib_state \<Rightarrow> mib_state" where
  "add_leaves ts m = foldl (\<lambda>m (k, c, r). add_leaf k c r m) m ts"

definition mib_init :: "nat \<Rightarrow> sim_state \<Rightarrow> int \<Rightarrow> mib_state" where
  "mib_init cfg_if_count sim now_ms =
     (let m = \<lparr>leaves = [], max_leaves = mib_max_leaves cfg_if_count, uptime_start_ms = now_ms\<rparr>;
          m = add_leaves sys_adds m;
          m = add_leaf K_IF_NUMBER 0 0 m;
          m = add_leaves (table_adds (sim_switch_if_count sim)) m
      in add_leaves fw_adds m)"

definition mib_leaf_count :: "mib_state \<Rightarrow> nat" where
  "mib_leaf_count m = length (leaves m)"

text \<open>\<open>int64_t\<close> milliseconds; the cast keeps the low 32 bits of the hundredths.\<close>

definition mib_sys_uptime :: "mib_state \<Rightarrow> int \<Rightarrow> u32" where
  "mib_sys_uptime m now_ms =
     (let ms = now_ms - uptime_start_ms m; ms = (if ms < 0 then 0 else ms)
      in word_of_int (ms div 10))"

definition leaf_cmp :: "mib_leaf \<Rightarrow> oid \<Rightarrow> int" where
  "leaf_cmp leaf os = oid_cmp (mib_leaf_oid leaf) os"

text \<open>A pointer into \<open>leaves\<close> is an index; \<open>None\<close> is \<open>NULL\<close>.\<close>

definition mib_get_exact :: "mib_state \<Rightarrow> oid \<Rightarrow> nat option" where
  "mib_get_exact m os = first_index (\<lambda>l. leaf_cmp l os = 0) (leaves m)"

definition mib_get_next :: "mib_state \<Rightarrow> oid \<Rightarrow> nat option" where
  "mib_get_next m os = first_index (\<lambda>l. leaf_cmp l os > 0) (leaves m)"

definition mib_next_leaf :: "mib_state \<Rightarrow> nat \<Rightarrow> nat option" where
  "mib_next_leaf m i = (if i + 1 \<ge> length (leaves m) then None else Some (i + 1))"

definition mib_put_oid :: "ber_enc \<Rightarrow> mib_leaf \<Rightarrow> ber_enc" where
  "mib_put_oid e leaf = ber_put_oid e (mib_leaf_oid leaf) (length (mib_leaf_oid leaf))"

section \<open>Value encoders\<close>

text \<open>
  What the encoders read from other modules: \<open>identity.c\<close>, \<open>net.c\<close>, Kconfig and the kernel
  clock. Strings are their bytes before the NUL.
\<close>

record mib_env =
  firmware_name :: bytes
  firmware_version :: bytes
  build_timestamp :: bytes
  hostname :: bytes
  sys_contact :: bytes
  sys_location :: bytes
  uptime_ms :: int

definition put_str :: "ber_enc \<Rightarrow> bytes \<Rightarrow> ber_enc" where
  "put_str e s = ber_put_octet_str e s (length s)"

text \<open>\<open>snprintf\<close> into \<open>buf[96]\<close> keeps at most 95 characters.\<close>

definition sys_descr :: "mib_env \<Rightarrow> bytes" where
  "sys_descr env = take 95 (firmware_name env @ ascii '' '' @ firmware_version env
     @ ascii '' (build '' @ build_timestamp env @ ascii '')'')"

definition mib_put_value :: "mib_state \<Rightarrow> sim_state \<Rightarrow> mib_env \<Rightarrow> ber_enc \<Rightarrow> mib_leaf \<Rightarrow> ber_enc" where
  "mib_put_value m sim env e leaf =
     (let idx = (if row leaf > 0 then unat (row leaf - 1) else 0); k = kind leaf
      in if k = K_SYS_DESCR then put_str e (sys_descr env)
         else if k = K_SYS_OBJECTID then ber_put_oid e sys_object_id (length sys_object_id)
         else if k = K_SYS_UPTIME then
           ber_put_uint_tagged e (mib_sys_uptime m (uptime_ms env)) BER_TAG_TIMETICKS
         else if k = K_SYS_CONTACT then put_str e (sys_contact env)
         else if k = K_SYS_NAME then put_str e (hostname env)
         else if k = K_SYS_LOCATION then put_str e (sys_location env)
         else if k = K_SYS_SERVICES then ber_put_int e 6
         else if k = K_IF_NUMBER then ber_put_int e (of_nat (sim_switch_if_count sim))
         else if k = K_IF_INDEX then ber_put_int e (ucast (row leaf))
         else if k = K_IF_DESCR then put_str e (sim_switch_if_descr sim idx)
         else if k = K_IF_TYPE then ber_put_int e (sim_switch_if_type sim idx)
         else if k = K_IF_MTU then ber_put_int e (sim_switch_if_mtu sim idx)
         else if k = K_IF_SPEED then
           ber_put_uint_tagged e (sim_switch_if_speed sim idx) BER_TAG_GAUGE32
         else if k = K_IF_ADMIN then
           ber_put_int e (status_value (sim_switch_if_admin_status sim idx))
         else if k = K_IF_OPER then
           ber_put_int e (status_value (sim_switch_if_oper_status sim idx))
         else if k = K_IF_IN_OCTETS then
           ber_put_uint_tagged e (sim_switch_if_counter sim idx SIM_IF_IN_OCTETS) BER_TAG_COUNTER32
         else if k = K_IF_IN_UPKTS then
           ber_put_uint_tagged e (sim_switch_if_counter sim idx SIM_IF_IN_UCAST_PKTS) BER_TAG_COUNTER32
         else if k = K_IF_OUT_OCTETS then
           ber_put_uint_tagged e (sim_switch_if_counter sim idx SIM_IF_OUT_OCTETS) BER_TAG_COUNTER32
         else if k = K_IF_OUT_UPKTS then
           ber_put_uint_tagged e (sim_switch_if_counter sim idx SIM_IF_OUT_UCAST_PKTS) BER_TAG_COUNTER32
         else if k = K_FW_NAME then put_str e (firmware_name env)
         else if k = K_FW_VERSION then put_str e (firmware_version env)
         else if k = K_FW_BUILD then put_str e (build_timestamp env)
         else ber_put_null e)"

subsection \<open>The values as data\<close>

text \<open>
  The value of a leaf as an SNMP datum, and its BER bytes; \<open>mib_put_value\<close> writes those bytes.
\<close>

datatype snmp_value =
    VInt u32
  | VStr bytes
  | VUint byte u32
  | VOid oid
  | VNull

primrec value_bytes :: "snmp_value \<Rightarrow> bytes" where
  "value_bytes (VInt v) = tlv BER_TAG_INTEGER (rev (int_le v))"
| "value_bytes (VStr s) = tlv BER_TAG_OCTET_STR s"
| "value_bytes (VUint t v) = tlv t (rev (uint_tmp v))"
| "value_bytes (VOid os) = tlv BER_TAG_OID (oid_content os)"
| "value_bytes VNull = tlv BER_TAG_NULL []"

definition row_index :: "mib_leaf \<Rightarrow> nat" where
  "row_index leaf = unat (row leaf) - 1"

definition leaf_value :: "mib_state \<Rightarrow> sim_state \<Rightarrow> mib_env \<Rightarrow> mib_leaf \<Rightarrow> snmp_value" where
  "leaf_value m sim env leaf =
     (let i = row_index leaf;
          table = [VStr (sys_descr env), VOid sys_object_id,
            VUint BER_TAG_TIMETICKS (mib_sys_uptime m (uptime_ms env)), VStr (sys_contact env),
            VStr (hostname env), VStr (sys_location env), VInt 6, VInt (of_nat (if_count sim)),
            VInt (ucast (row leaf)), VStr (sim_switch_if_descr sim i),
            VInt (sim_switch_if_type sim i), VInt (sim_switch_if_mtu sim i),
            VUint BER_TAG_GAUGE32 (sim_switch_if_speed sim i),
            VInt (status_value (sim_switch_if_admin_status sim i)),
            VInt (status_value (sim_switch_if_oper_status sim i)),
            VUint BER_TAG_COUNTER32 (sim_switch_if_counter sim i SIM_IF_IN_OCTETS),
            VUint BER_TAG_COUNTER32 (sim_switch_if_counter sim i SIM_IF_IN_UCAST_PKTS),
            VUint BER_TAG_COUNTER32 (sim_switch_if_counter sim i SIM_IF_OUT_OCTETS),
            VUint BER_TAG_COUNTER32 (sim_switch_if_counter sim i SIM_IF_OUT_UCAST_PKTS),
            VStr (firmware_name env), VStr (firmware_version env), VStr (build_timestamp env)]
      in if unat (kind leaf) < length table then table ! unat (kind leaf) else VNull)"

lemma put_str_prepend: "put_str e s = prepend e (tlv BER_TAG_OCTET_STR s)"
  by (simp add: put_str_def ber_put_octet_prepend)

lemma row_index_eq: "(if row leaf > 0 then unat (row leaf - 1) else 0) = row_index leaf"
  by (simp add: row_index_def word_gt_0 unat_minus_one)

lemma unat_kind_cases:
  assumes "unat k < 22"
  shows "k \<in> {0, 1, 2, 3, 4, 5, 6, 7, 8, 9, 10, 11, 12, 13, 14, 15, 16, 17, 18, 19, 20, 21 :: byte}"
proof -
  have "unat k \<in> set [0..<22]" using assms by simp
  moreover have "[0..<22] = [0, 1, 2, 3, 4, 5, 6, 7, 8, 9, 10, 11, 12, 13, 14, 15, 16, 17, 18, 19, 20, 21]"
    by (simp add: upt_rec)
  ultimately have "of_nat (unat k) \<in> (of_nat :: nat \<Rightarrow> byte) `
      {0, 1, 2, 3, 4, 5, 6, 7, 8, 9, 10, 11, 12, 13, 14, 15, 16, 17, 18, 19, 20, 21}"
    by (intro imageI) simp
  then show ?thesis by simp
qed

lemma mib_put_value_prepend [put_prepend]:
  "mib_put_value m sim env e leaf = prepend e (value_bytes (leaf_value m sim env leaf))"
proof (cases "unat (kind leaf) < 22")
  case True
  then have "kind leaf \<in> {0, 1, 2, 3, 4, 5, 6, 7, 8, 9, 10, 11, 12, 13, 14, 15, 16, 17, 18, 19, 20, 21}"
    by (rule unat_kind_cases)
  then show ?thesis
    unfolding insert_iff empty_iff
    by (elim disjE FalseE)
      (simp_all add: mib_put_value_def leaf_value_def Let_def row_index_eq put_str_prepend
        ber_put_oid_prepend ber_put_uint_prepend ber_put_int_prepend sim_switch_if_count_def)
next
  case False
  then have "kind leaf \<noteq> of_nat j" if "j < 22" for j using that by (auto simp: unat_of_nat)
  from this [of 0] this [of 1] this [of 2] this [of 3] this [of 4] this [of 5] this [of 6]
    this [of 7] this [of 8] this [of 9] this [of 10] this [of 11] this [of 12] this [of 13]
    this [of 14] this [of 15] this [of 16] this [of 17] this [of 18] this [of 19] this [of 20]
    this [of 21]
  show ?thesis
    using False by (simp add: mib_put_value_def leaf_value_def Let_def ber_put_null_prepend)
qed

lemma mib_put_oid_prepend [put_prepend]:
  "mib_put_oid e leaf = prepend e (tlv BER_TAG_OID (oid_content (mib_leaf_oid leaf)))"
  by (simp add: mib_put_oid_def ber_put_oid_prepend)

section \<open>The table that \<open>mib_init\<close> builds\<close>

definition leaf_of :: "byte \<times> byte \<times> byte \<Rightarrow> mib_leaf" where
  "leaf_of = (\<lambda>(k, c, r). \<lparr>kind = k, col = c, row = r\<rparr>)"

definition all_adds :: "nat \<Rightarrow> (byte \<times> byte \<times> byte) list" where
  "all_adds nif = sys_adds @ (K_IF_NUMBER, 0, 0) # table_adds nif @ fw_adds"

lemma add_leaves_fit:
  "length (leaves m) + length ts \<le> max_leaves m \<Longrightarrow>
    add_leaves ts m = m\<lparr>leaves := leaves m @ map leaf_of ts\<rparr>"
proof (induction ts arbitrary: m)
  case (Cons t ts)
  then show ?case
    by (cases t) (simp add: add_leaves_def add_leaf_def leaf_of_def)
qed (simp add: add_leaves_def)

lemma mib_init_adds:
  "mib_init cfg sim now = add_leaves (all_adds (if_count sim))
     \<lparr>leaves = [], max_leaves = mib_max_leaves cfg, uptime_start_ms = now\<rparr>"
  by (simp add: mib_init_def all_adds_def add_leaves_def sim_switch_if_count_def Let_def)

lemma length_adds [simp]:
  "length sys_adds = 7" "length (table_adds n) = 11 * n" "length fw_adds = 3"
  "length (all_adds n) = 11 + 11 * n"
  by (simp_all add: sys_adds_def table_adds_def fw_adds_def all_adds_def if_columns_def NUM_SCALARS_def
      NUM_FW_SCALARS_def)

lemma mib_init_leaves:
  assumes "if_count sim \<le> cfg" "if_count sim \<le> SIM_SWITCH_MAX_IF"
  shows "leaves (mib_init cfg sim now) = map leaf_of (all_adds (if_count sim))"
proof -
  have "11 + 11 * if_count sim \<le> mib_max_leaves cfg"
    using assms by (simp add: mib_max_leaves_def NUM_SCALARS_def NUM_FW_SCALARS_def if_columns_def)
  then show ?thesis by (simp add: mib_init_adds add_leaves_fit)
qed

text \<open>The order of the table's keys, section by section.\<close>

lemma ucast_byte_less: "(ucast (x :: byte) :: u32) < ucast y \<longleftrightarrow> x < y"
  by (simp add: word_less_nat_alt unsigned_ucast_eq take_bit_nat_eq_self
      less_trans [OF unat_byte_less])

lemma sorted_wrt_concat_map:
  "(\<And>x. x \<in> set xs \<Longrightarrow> sorted_wrt R (f x)) \<Longrightarrow>
    sorted_wrt (\<lambda>x y. \<forall>a \<in> set (f x). \<forall>b \<in> set (f y). R a b) xs \<Longrightarrow>
    sorted_wrt R (concat (map f xs))"
  by (induction xs) (auto simp: sorted_wrt_append)

abbreviation leaf_less :: "byte \<times> byte \<times> byte \<Rightarrow> byte \<times> byte \<times> byte \<Rightarrow> bool" where
  "leaf_less x y \<equiv> oid_cmp (mib_leaf_oid (leaf_of x)) (mib_leaf_oid (leaf_of y)) < 0"

lemmas oid_eval = mib_leaf_oid_def leaf_of_def sys_prefix_def ifnum_oid_def sys_object_id_def

lemma kind_one [simp]: "\<not> K_FW_NAME \<le> 1" "\<not> K_IF_INDEX \<le> 1"
  by (simp_all add: word_le_nat_alt)

lemma sys_adds_list:
  "sys_adds = [(0, 1, 0), (1, 2, 0), (2, 3, 0), (3, 4, 0), (4, 5, 0), (5, 6, 0), (6, 7, 0)]"
  "fw_adds = [(19, 1, 0), (20, 2, 0), (21, 3, 0)]"
  by (simp_all add: sys_adds_def fw_adds_def NUM_SCALARS_def NUM_FW_SCALARS_def upt_rec)

abbreviation oid_of :: "byte \<times> byte \<times> byte \<Rightarrow> oid" where
  "oid_of t \<equiv> mib_leaf_oid (leaf_of t)"

lemma scalar_oids:
  "map (\<lambda>t. oid_of t) (sys_adds @ [(K_IF_NUMBER, 0, 0)]) =
     [[1, 3, 6, 1, 2, 1, 1, 1, 0], [1, 3, 6, 1, 2, 1, 1, 2, 0], [1, 3, 6, 1, 2, 1, 1, 3, 0],
      [1, 3, 6, 1, 2, 1, 1, 4, 0], [1, 3, 6, 1, 2, 1, 1, 5, 0], [1, 3, 6, 1, 2, 1, 1, 6, 0],
      [1, 3, 6, 1, 2, 1, 1, 7, 0], [1, 3, 6, 1, 2, 1, 2, 1, 0]]"
  "map (\<lambda>t. oid_of t) fw_adds =
     [[1, 3, 6, 1, 4, 1, 99999, 1, 1, 0], [1, 3, 6, 1, 4, 1, 99999, 1, 2, 0],
      [1, 3, 6, 1, 4, 1, 99999, 1, 3, 0]]"
  by (simp_all add: sys_adds_list oid_eval)

lemma table_oid:
  "t \<in> set (table_adds n) \<Longrightarrow>
    \<exists>c r. mib_leaf_oid (leaf_of t) = ifentry_prefix @ [ucast (c :: byte), ucast (r :: byte)]"
  by (auto simp: table_adds_def if_columns_def mib_leaf_oid_def leaf_of_def)

lemma table_less:
  assumes "k \<in> {8..18}" "k' \<in> {8..18}"
  shows "leaf_less (k, c, r) (k', c', r') \<longleftrightarrow> c < c' \<or> c = c' \<and> r < r'"
proof -
  have "mib_leaf_oid (leaf_of (k, c, r)) = ifentry_prefix @ [ucast c, ucast r]"
    "mib_leaf_oid (leaf_of (k', c', r')) = ifentry_prefix @ [ucast c', ucast r']"
    using assms by (auto simp: mib_leaf_oid_def leaf_of_def word_le_nat_alt)
  then show ?thesis
    by (simp add: oid_cmp_append ucast_byte_less ucast_byte_eq)
qed

lemma table_sorted: "n \<le> 8 \<Longrightarrow> sorted_wrt leaf_less (table_adds n)"
proof -
  assume n: "n \<le> 8"
  let ?f = "\<lambda>(k :: byte, c :: byte). map (\<lambda>r. (k, c, of_nat r :: byte)) [1..<n + 1]"
  have col: "sorted_wrt leaf_less (?f kc)" if "kc \<in> set if_columns" for kc
  proof -
    obtain k c where kc: "kc = (k, c)" by (cases kc)
    have k: "k \<in> {8..18}" using that by (auto simp: if_columns_def kc)
    have "leaf_less (k, c, of_nat i) (k, c, of_nat j)" if "i < j" "j \<le> n" for i j
      unfolding table_less [OF k k] using n that by (simp add: word_less_nat_alt)
    then have "sorted_wrt (\<lambda>i j. leaf_less (k, c, of_nat i) (k, c, of_nat j)) [1..<n + 1]"
      by (intro sorted_wrt_mono_rel [OF _ sorted_wrt_upt]) (simp del: upt_Suc)
    then show ?thesis by (simp add: kc sorted_wrt_map del: upt_Suc)
  qed
  have "sorted_wrt (\<lambda>x y. fst x \<in> {8..18} \<and> fst y \<in> {8..18} \<and> snd x < snd y) if_columns"
    by (simp add: if_columns_def)
  then have "sorted_wrt (\<lambda>x y. \<forall>a \<in> set (?f x). \<forall>b \<in> set (?f y). leaf_less a b) if_columns"
    by (rule sorted_wrt_mono_rel [rotated]) (auto simp: table_less)
  with col show ?thesis unfolding table_adds_def by (intro sorted_wrt_concat_map)
qed

lemma all_adds_sorted: "n \<le> 8 \<Longrightarrow> sorted_wrt leaf_less (all_adds n)"
proof -
  assume n: "n \<le> 8"
  let ?sys = "sys_adds @ [(K_IF_NUMBER, 0, 0)]"
  have "sorted_wrt (\<lambda>a b. oid_cmp a b < 0) (map (\<lambda>t. oid_of t) ?sys)"
    "sorted_wrt (\<lambda>a b. oid_cmp a b < 0) (map (\<lambda>t. oid_of t) fw_adds)"
    unfolding scalar_oids by simp_all
  then have sys: "sorted_wrt leaf_less ?sys" and fw: "sorted_wrt leaf_less fw_adds"
    by (simp_all only: sorted_wrt_map)
  have "\<forall>a \<in> set (map (\<lambda>t. oid_of t) ?sys). oid_cmp a (ifentry_prefix @ o') < 0
      \<and> (\<forall>b \<in> set (map (\<lambda>t. oid_of t) fw_adds). oid_cmp a b < 0 \<and> oid_cmp (ifentry_prefix @ o') b < 0)"
    for o'
    unfolding scalar_oids by (simp add: ifentry_prefix_def)
  then have part: "x \<in> set ?sys \<Longrightarrow> y \<in> set fw_adds \<Longrightarrow> oid_cmp (oid_of x) (ifentry_prefix @ o') < 0
      \<and> leaf_less x y \<and> oid_cmp (ifentry_prefix @ o') (oid_of y) < 0" for o' x y
    unfolding set_map by blast
  have ne: "sys_adds \<noteq> []" "fw_adds \<noteq> []" by (simp_all add: sys_adds_list)
  have tab: "leaf_less x t" if "x \<in> set ?sys" "t \<in> set (table_adds n)" for x t
    using part [OF that(1) hd_in_set [OF ne(2)]] table_oid [OF that(2)] by auto
  have tabfw: "leaf_less t y" if "t \<in> set (table_adds n)" "y \<in> set fw_adds" for t y
    using part [of "hd sys_adds" y] ne(1) that(2) table_oid [OF that(1)] by auto
  have sysfw: "leaf_less x y" if "x \<in> set ?sys" "y \<in> set fw_adds" for x y
    using part [OF that] by simp
  have "all_adds n = (sys_adds @ [(K_IF_NUMBER, 0, 0)]) @ table_adds n @ fw_adds"
    by (simp add: all_adds_def)
  then show ?thesis
    using sys fw tab tabfw sysfw table_sorted [OF n]
    by (simp only: sorted_wrt_append set_append) blast
qed

text \<open>The configuration Kconfig admits: at least the interfaces the simulation has.\<close>

definition mib_config_ok :: "nat \<Rightarrow> sim_state \<Rightarrow> bool" where
  "mib_config_ok cfg sim \<longleftrightarrow> if_count sim \<le> cfg \<and> if_count sim \<le> SIM_SWITCH_MAX_IF"

definition mib_sorted :: "mib_state \<Rightarrow> bool" where
  "mib_sorted m \<longleftrightarrow> oid_ord.ascending mib_leaf_oid (leaves m)"

lemma mib_init_sorted: "mib_config_ok cfg sim \<Longrightarrow> mib_sorted (mib_init cfg sim now)"
  using all_adds_sorted [of "if_count sim"]
  by (simp add: mib_sorted_def oid_ord.ascending_def mib_config_ok_def mib_init_leaves sorted_wrt_map
      SIM_SWITCH_MAX_IF_def)

lemma mib_config_run: "1 \<le> cfg \<Longrightarrow> cfg \<le> 8 \<Longrightarrow> mib_config_ok cfg (sim_run cfg per n)"
  by (simp add: mib_config_ok_def clamp_count_def SIM_SWITCH_MAX_IF_def Let_def)

section \<open>Lookups\<close>

lemma mib_get_next_less: "mib_get_next m os = Some i \<Longrightarrow> i < length (leaves m)"
  by (simp add: mib_get_next_def first_index_less)

lemma mib_get_exact_less: "mib_get_exact m os = Some i \<Longrightarrow> i < length (leaves m)"
  by (simp add: mib_get_exact_def first_index_less)

lemma mib_next_leaf_less: "mib_next_leaf m i = Some j \<Longrightarrow> j < length (leaves m)"
  by (simp add: mib_next_leaf_def split: if_splits)

text \<open>
  For every configuration the table lists its leaves in strictly ascending order of their
  object identifiers, eleven leaves plus eleven per interface, so no two leaves collide.
\<close>

theorem mib_table_ascending:
  assumes "mib_config_ok cfg sim"
  shows "sorted_wrt (\<lambda>a b. oid_cmp (mib_leaf_oid a) (mib_leaf_oid b) < 0) (leaves (mib_init cfg sim now))
    \<and> mib_leaf_count (mib_init cfg sim now) = 11 + 11 * sim_switch_if_count sim"
  using mib_init_sorted [OF assms, of now] assms
  by (simp add: mib_sorted_def oid_ord.ascending_def mib_leaf_count_def mib_init_leaves mib_config_ok_def
      sim_switch_if_count_def)

theorem mib_table_ascending_witness:
  "mib_leaf_count (mib_init 5 (sim_run 5 15 0) 0) = 66"
  using mib_table_ascending [of 5 "sim_run 5 15 0" 0] mib_config_run [of 5 15 0]
  by (simp add: sim_switch_if_count_def clamp_count_def SIM_SWITCH_MAX_IF_def
      del: sim_run_0)

text \<open>
  \<open>mib_get_next\<close> answers every request name with the least leaf greater than it, and with
  the end of the MIB exactly when no leaf is greater.
\<close>

theorem mib_get_next_least:
  assumes "mib_config_ok cfg sim" and "m = mib_init cfg sim now"
  shows "case mib_get_next m os of
      None \<Rightarrow> (\<forall>l \<in> set (leaves m). oid_cmp (mib_leaf_oid l) os \<le> 0)
    | Some i \<Rightarrow> i < length (leaves m) \<and> oid_cmp (mib_leaf_oid (leaves m ! i)) os > 0 \<and>
        (\<forall>l \<in> set (leaves m). oid_cmp (mib_leaf_oid l) os > 0 \<longrightarrow>
           l = leaves m ! i \<or> oid_cmp (mib_leaf_oid (leaves m ! i)) (mib_leaf_oid l) < 0)"
proof (cases "mib_get_next m os")
  case None
  then have "\<forall>l \<in> set (leaves m). oid_cmp (mib_leaf_oid l) os \<le> 0"
    by (simp add: mib_get_next_def first_index_None leaf_cmp_def not_less)
  with None show ?thesis by simp
next
  case (Some i)
  then have i: "first_index (\<lambda>l. oid_cmp (mib_leaf_oid l) os > 0) (leaves m) = Some i"
    by (simp add: mib_get_next_def leaf_cmp_def)
  have asc: "oid_ord.ascending mib_leaf_oid (leaves m)"
    using mib_init_sorted [OF assms(1), of now] by (simp add: assms(2) mib_sorted_def)
  then show ?thesis
    using Some i oid_ord.first_after_least [OF asc i] by (simp add: first_index_Some)
qed

theorem mib_get_next_least_witness:
  "\<exists>i. mib_get_next (mib_init 1 (sim_run 1 0 0) 0) [1, 3] = Some i
    \<and> oid_cmp (mib_leaf_oid (leaves (mib_init 1 (sim_run 1 0 0) 0) ! i)) [1, 3] > 0"
proof -
  have "\<not> Option.is_none (mib_get_next (mib_init 1 (data_source_init 1 0) 0) [1, 3])"
    by code_simp
  then have "mib_get_next (mib_init 1 (sim_run 1 0 0) 0) [1, 3] \<noteq> None"
    by (auto simp: Option.is_none_def)
  then show ?thesis
    using mib_get_next_least [of 1 "sim_run 1 0 0" _ 0 "[1, 3]"] mib_config_run [of 1 0 0]
    by (auto simp del: sim_run_0)
qed

text \<open>
  Stepping from a leaf with \<open>mib_next_leaf\<close> is the same as a lookup of the next name after
  that leaf's own object identifier, as the header of the file promises.
\<close>

theorem mib_next_leaf_is_get_next:
  assumes "mib_config_ok cfg sim" and "i < mib_leaf_count (mib_init cfg sim now)"
  shows "mib_next_leaf (mib_init cfg sim now) i
    = mib_get_next (mib_init cfg sim now) (mib_leaf_oid (leaves (mib_init cfg sim now) ! i))"
  using mib_init_sorted [OF assms(1), of now] assms(2)
  by (simp add: mib_sorted_def mib_leaf_count_def mib_get_next_def leaf_cmp_def mib_next_leaf_def
      oid_ord.first_after_nth)

theorem mib_next_leaf_is_get_next_witness:
  "mib_get_next (mib_init 5 (sim_run 5 15 0) 0)
     (mib_leaf_oid (leaves (mib_init 5 (sim_run 5 15 0) 0) ! 65)) = None"
  using mib_next_leaf_is_get_next [of 5 "sim_run 5 15 0" 65 0] mib_table_ascending [of 5 "sim_run 5 15 0" 0]
    mib_config_run [of 5 15 0]
  by (simp add: mib_next_leaf_def mib_leaf_count_def sim_switch_if_count_def clamp_count_def
      SIM_SWITCH_MAX_IF_def del: sim_run_0)

end
