(* ===== verification/Agent.thy ===== *)
theory Agent
  imports Mib
begin

text \<open>
  The SNMPv2c agent of \<^verbatim>\<open>src/lib/snmp/snmp_agent.c\<close>: request parsing, the planning of a response
  (GET, GETNEXT, GETBULK), its encoding, and \<open>handle_request\<close>. The socket loop appears as
  \<open>snmp_reply\<close>, the datagram sent for a datagram received. Kconfig values are a record.
\<close>

abbreviation SNMP_PDU_GET :: byte where "SNMP_PDU_GET \<equiv> 0xA0"
abbreviation SNMP_PDU_GETNEXT :: byte where "SNMP_PDU_GETNEXT \<equiv> 0xA1"
abbreviation SNMP_PDU_RESPONSE :: byte where "SNMP_PDU_RESPONSE \<equiv> 0xA2"
abbreviation SNMP_PDU_SET :: byte where "SNMP_PDU_SET \<equiv> 0xA3"
abbreviation SNMP_PDU_GETBULK :: byte where "SNMP_PDU_GETBULK \<equiv> 0xA5"
abbreviation SNMP_EXC_NO_SUCH_INSTANCE :: byte where "SNMP_EXC_NO_SUCH_INSTANCE \<equiv> 0x81"
abbreviation SNMP_EXC_END_OF_MIB_VIEW :: byte where "SNMP_EXC_END_OF_MIB_VIEW \<equiv> 0x82"

definition SNMP_VERSION_2C :: u32 where "SNMP_VERSION_2C = 1"
definition SNMP_ERR_NONE :: u32 where "SNMP_ERR_NONE = 0"
definition SNMP_ERR_TOO_BIG :: u32 where "SNMP_ERR_TOO_BIG = 1"
definition SNMP_ERR_GEN_ERR :: u32 where "SNMP_ERR_GEN_ERR = 5"
definition SNMP_ERR_NOT_WRITABLE :: u32 where "SNMP_ERR_NOT_WRITABLE = 17"
definition SNMP_TX_BUF :: nat where "SNMP_TX_BUF = 1500"

record agent_cfg =
  max_req_vb :: nat
  read_community :: bytes

definition max_resp_vb :: "agent_cfg \<Rightarrow> nat" where
  "max_resp_vb cfg = max_req_vb cfg + 16"

text \<open>
  A planned response varbind. A leaf pointer is its index in the MIB table; the name is the
  request name, an object identifier.
\<close>

record resp_vb =
  vb_leaf :: "nat option"
  vb_name :: oid
  vb_exception :: byte

section \<open>Response encoding\<close>

text \<open>The data a response draws on: the MIB table, the simulation and the environment.\<close>

record mib_view =
  v_mib :: mib_state
  v_sim :: sim_state
  v_env :: mib_env

definition emit_varbind :: "mib_view \<Rightarrow> ber_enc \<Rightarrow> resp_vb \<Rightarrow> ber_enc" where
  "emit_varbind v e vb =
     (let mark = ber_mark e;
          e1 = (if vb_exception vb \<noteq> 0 then ber_put_exception e (vb_exception vb)
                else case vb_leaf vb of
                  Some i \<Rightarrow> mib_put_value (v_mib v) (v_sim v) (v_env v) e (leaves (v_mib v) ! i)
                | None \<Rightarrow> ber_put_null e);
          e2 = (case vb_leaf vb of
                  Some i \<Rightarrow> mib_put_oid e1 (leaves (v_mib v) ! i)
                | None \<Rightarrow> ber_put_oid e1 (vb_name vb) (length (vb_name vb)))
      in ber_wrap e2 mark BER_TAG_SEQUENCE)"

definition encode_response ::
  "mib_view \<Rightarrow> ber_enc \<Rightarrow> u32 \<Rightarrow> u32 \<Rightarrow> u32 \<Rightarrow> bytes \<Rightarrow> resp_vb list \<Rightarrow> ber_enc" where
  "encode_response v e request_id err_status err_index community vbs =
     (let top_mark = ber_mark e;
          vbl_mark = ber_mark e;
          e = foldl (emit_varbind v) e (rev vbs);
          e = ber_wrap e vbl_mark BER_TAG_SEQUENCE;
          e = ber_put_int e err_index;
          e = ber_put_int e err_status;
          e = ber_put_int e request_id;
          e = ber_wrap e top_mark SNMP_PDU_RESPONSE;
          e = ber_put_octet_str e community (length community);
          e = ber_put_int e SNMP_VERSION_2C
      in ber_wrap e top_mark BER_TAG_SEQUENCE)"

definition encode_error :: "mib_view \<Rightarrow> ber_enc \<Rightarrow> u32 \<Rightarrow> u32 \<Rightarrow> u32 \<Rightarrow> bytes \<Rightarrow> ber_enc" where
  "encode_error v e request_id err_status err_index community =
     encode_response v e request_id err_status err_index community []"

section \<open>Request parsing\<close>

record parsed_req =
  pdu_type :: byte
  request_id :: u32
  field2 :: u32
  field3 :: u32
  names :: "oid list"
  too_many :: bool
  community :: bytes

text \<open>The varbind loop of \<open>parse_request\<close>, with \<open>n\<close> names stored so far.\<close>

function parse_names :: "nat \<Rightarrow> nat \<Rightarrow> ber_dec \<Rightarrow> (oid list \<times> bool) option" where
  "parse_names mx n vbl =
     (if ber_dec_done vbl then Some ([], False)
      else case ber_enter vbl BER_TAG_SEQUENCE of
        None \<Rightarrow> None
      | Some (vb, vbl') \<Rightarrow>
          if n \<ge> mx then Some ([], True)
          else case ber_get_oid vb BER_MAX_OID_LEN of
            None \<Rightarrow> None
          | Some (os, _) \<Rightarrow>
              map_option (\<lambda>(ns, many). (os # ns, many)) (parse_names mx (Suc n) vbl'))"
  by pat_completeness auto
termination
  by (relation "measure (\<lambda>(mx, n, vbl). length vbl)") (auto dest: enter_shorter)

declare parse_names.simps [simp del]

definition parse_request :: "agent_cfg \<Rightarrow> bytes \<Rightarrow> parsed_req option" where
  "parse_request cfg buf =
     (case ber_enter buf BER_TAG_SEQUENCE of None \<Rightarrow> None | Some (msg, _) \<Rightarrow>
      case ber_get_int msg of None \<Rightarrow> None | Some (version, msg) \<Rightarrow>
      if version \<noteq> SNMP_VERSION_2C then None else
      case ber_get_octet msg of None \<Rightarrow> None | Some (comm, msg) \<Rightarrow>
      if length comm \<noteq> length (read_community cfg) \<or> comm \<noteq> read_community cfg then None else
      case ber_get_tlv msg of None \<Rightarrow> None | Some ((tag, pdu), _) \<Rightarrow>
      case ber_get_int pdu of None \<Rightarrow> None | Some (rid, pdu) \<Rightarrow>
      case ber_get_int pdu of None \<Rightarrow> None | Some (f2, pdu) \<Rightarrow>
      case ber_get_int pdu of None \<Rightarrow> None | Some (f3, pdu) \<Rightarrow>
      case ber_enter pdu BER_TAG_SEQUENCE of None \<Rightarrow> None | Some (vbl, _) \<Rightarrow>
      case parse_names (max_req_vb cfg) 0 vbl of None \<Rightarrow> None | Some (ns, many) \<Rightarrow>
      if length ns > 0
      then Some \<lparr>pdu_type = tag, request_id = rid, field2 = f2, field3 = f3, names = ns,
                 too_many = many, community = comm\<rparr>
      else None)"

section \<open>Response planning\<close>

definition plan_get :: "mib_state \<Rightarrow> parsed_req \<Rightarrow> resp_vb list" where
  "plan_get m r =
     map (\<lambda>nm. let leaf = mib_get_exact m nm
               in \<lparr>vb_leaf = leaf, vb_name = nm,
                   vb_exception = (if leaf \<noteq> None then 0 else SNMP_EXC_NO_SUCH_INSTANCE)\<rparr>)
         (names r)"

definition set_vb_next :: "mib_state \<Rightarrow> oid \<Rightarrow> resp_vb" where
  "set_vb_next m from =
     (let leaf = mib_get_next m from
      in \<lparr>vb_leaf = leaf, vb_name = from,
          vb_exception = (if leaf \<noteq> None then 0 else SNMP_EXC_END_OF_MIB_VIEW)\<rparr>)"

definition plan_getnext :: "mib_state \<Rightarrow> parsed_req \<Rightarrow> resp_vb list" where
  "plan_getnext m r = map (set_vb_next m) (names r)"

text \<open>The walkers of GETBULK: what was emitted, each walker's cursor, and which are done.\<close>

record bulk =
  out :: "resp_vb list"
  cursor :: "nat option list"
  done_walk :: "bool list"

text \<open>The body of the inner loop for walker \<open>j\<close>, whose request name is \<open>nm\<close>.\<close>

definition bulk_turn :: "mib_state \<Rightarrow> oid \<Rightarrow> nat \<Rightarrow> bulk \<Rightarrow> bulk" where
  "bulk_turn m nm j b =
     (if done_walk b ! j then b
      else
        let vb = (case cursor b ! j of
                    None \<Rightarrow> set_vb_next m nm
                  | Some c \<Rightarrow>
                      (case mib_next_leaf m c of
                         None \<Rightarrow> \<lparr>vb_leaf = Some c, vb_name = nm,
                                 vb_exception = SNMP_EXC_END_OF_MIB_VIEW\<rparr>
                       | Some l \<Rightarrow> \<lparr>vb_leaf = Some l, vb_name = nm, vb_exception = 0\<rparr>));
            b = b\<lparr>out := out b @ [vb]\<rparr>
        in if vb_exception vb = SNMP_EXC_END_OF_MIB_VIEW
           then b\<lparr>done_walk := (done_walk b)[j := True]\<rparr>
           else b\<lparr>cursor := (cursor b)[j := vb_leaf vb]\<rparr>)"

text \<open>One repetition (the inner \<open>for\<close>) and all of them (the outer \<open>for\<close>).\<close>

fun bulk_row :: "mib_state \<Rightarrow> nat \<Rightarrow> oid list \<Rightarrow> nat \<Rightarrow> bulk \<Rightarrow> bulk" where
  "bulk_row m limit [] j b = b"
| "bulk_row m limit (nm # nms) j b =
     (if length (out b) < limit then bulk_row m limit nms (Suc j) (bulk_turn m nm j b) else b)"

fun bulk_reps :: "mib_state \<Rightarrow> nat \<Rightarrow> oid list \<Rightarrow> nat \<Rightarrow> bulk \<Rightarrow> bulk" where
  "bulk_reps m limit nms 0 b = b"
| "bulk_reps m limit nms (Suc rep) b =
     (if length (out b) < limit then bulk_reps m limit nms rep (bulk_row m limit nms 0 b) else b)"

definition plan_getbulk :: "agent_cfg \<Rightarrow> mib_state \<Rightarrow> parsed_req \<Rightarrow> resp_vb list" where
  "plan_getbulk cfg m r =
     (let nvb = length (names r);
          non_rep = (if sint (field2 r) < 0 then 0 else nat (sint (field2 r)));
          non_rep = (if non_rep > nvb then nvb else non_rep);
          max_rep = (if sint (field3 r) < 0 then 0 else nat (sint (field3 r)));
          out0 = map (set_vb_next m) (take (max_resp_vb cfg) (take non_rep (names r)));
          nrep = nvb - non_rep
      in if nrep = 0 \<or> max_rep = 0 then out0
         else out (bulk_reps m (max_resp_vb cfg) (drop non_rep (names r)) max_rep
                \<lparr>out = out0, cursor = replicate nrep None, done_walk = replicate nrep False\<rparr>))"

section \<open>One request\<close>

text \<open>
  \<open>None\<close> is a request dropped before an encoder is set up; otherwise the encoder over \<open>tx_buf\<close>
  as the function leaves it. \<open>handle_request\<close> is the C result: the length, and the buffer.
\<close>

definition respond :: "agent_cfg \<Rightarrow> mib_view \<Rightarrow> bytes \<Rightarrow> parsed_req \<Rightarrow> ber_enc" where
  "respond cfg v tx_buf r =
     (let e = ber_enc_init tx_buf SNMP_TX_BUF; m = v_mib v;
          answer = (\<lambda>vbs.
            let e1 = encode_response v e (request_id r) SNMP_ERR_NONE 0 (community r) vbs
            in if ber_enc_length e1 = 0
               then encode_error v (ber_enc_init (be_base e1) SNMP_TX_BUF) (request_id r)
                      SNMP_ERR_TOO_BIG 0 (community r)
               else e1)
      in if too_many r then encode_error v e (request_id r) SNMP_ERR_TOO_BIG 0 (community r)
         else if pdu_type r = SNMP_PDU_SET then
           encode_error v e (request_id r) SNMP_ERR_NOT_WRITABLE 1 (community r)
         else if pdu_type r = SNMP_PDU_GET then answer (plan_get m r)
         else if pdu_type r = SNMP_PDU_GETNEXT then answer (plan_getnext m r)
         else if pdu_type r = SNMP_PDU_GETBULK then answer (plan_getbulk cfg m r)
         else encode_error v e (request_id r) SNMP_ERR_GEN_ERR 0 (community r))"

definition handle_request :: "agent_cfg \<Rightarrow> mib_view \<Rightarrow> bytes \<Rightarrow> bytes \<Rightarrow> nat \<times> bytes" where
  "handle_request cfg v tx_buf buf =
     (case parse_request cfg buf of
        None \<Rightarrow> (0, tx_buf)
      | Some r \<Rightarrow> (let e = respond cfg v tx_buf r in (ber_enc_length e, be_base e)))"

text \<open>The datagram \<open>snmp_listener\<close> sends for one it received, if any, and \<open>tx_buf\<close> after it.\<close>

definition snmp_reply :: "agent_cfg \<Rightarrow> mib_view \<Rightarrow> bytes \<Rightarrow> bytes \<Rightarrow> bytes option \<times> bytes" where
  "snmp_reply cfg v tx_buf buf =
     (let (out_len, tx_buf') = handle_request cfg v tx_buf buf
      in if out_len = 0 then (None, tx_buf')
         else (Some (take out_len (drop (SNMP_TX_BUF - out_len) tx_buf')), tx_buf'))"

section \<open>What a response is\<close>

definition int_tlv :: "u32 \<Rightarrow> bytes" where
  "int_tlv v = tlv BER_TAG_INTEGER (rev (int_le v))"

text \<open>Name and value of a planned varbind, as bytes.\<close>

definition vb_value_bytes :: "mib_view \<Rightarrow> resp_vb \<Rightarrow> bytes" where
  "vb_value_bytes v vb =
     (if vb_exception vb \<noteq> 0 then tlv (vb_exception vb) []
      else case vb_leaf vb of
        Some i \<Rightarrow> value_bytes (leaf_value (v_mib v) (v_sim v) (v_env v) (leaves (v_mib v) ! i))
      | None \<Rightarrow> tlv BER_TAG_NULL [])"

definition vb_oid_of :: "mib_view \<Rightarrow> resp_vb \<Rightarrow> oid" where
  "vb_oid_of v vb =
     (case vb_leaf vb of Some i \<Rightarrow> mib_leaf_oid (leaves (v_mib v) ! i) | None \<Rightarrow> vb_name vb)"

definition vb_bytes :: "mib_view \<Rightarrow> resp_vb \<Rightarrow> bytes" where
  "vb_bytes v vb =
     tlv BER_TAG_SEQUENCE (tlv BER_TAG_OID (oid_content (vb_oid_of v vb)) @ vb_value_bytes v vb)"

definition response_bytes :: "mib_view \<Rightarrow> u32 \<Rightarrow> u32 \<Rightarrow> u32 \<Rightarrow> bytes \<Rightarrow> resp_vb list \<Rightarrow> bytes" where
  "response_bytes v rid status idx comm vbs =
     tlv BER_TAG_SEQUENCE
       (int_tlv SNMP_VERSION_2C @ tlv BER_TAG_OCTET_STR comm @
        tlv SNMP_PDU_RESPONSE
          (int_tlv rid @ int_tlv status @ int_tlv idx @
           tlv BER_TAG_SEQUENCE (concat (map (vb_bytes v) vbs))))"

lemma emit_varbind_prepend [put_prepend]: "emit_varbind v e vb = prepend e (vb_bytes v vb)"
proof -
  let ?val = "vb_value_bytes v vb" and ?nm = "tlv BER_TAG_OID (oid_content (vb_oid_of v vb))"
  have "emit_varbind v e vb = ber_wrap (prepend (prepend e ?val) ?nm) (be_pos e) BER_TAG_SEQUENCE"
    by (simp add: emit_varbind_def Let_def ber_mark_def vb_value_bytes_def vb_oid_of_def put_prepend
        split: option.split)
  also have "\<dots> = prepend e (vb_bytes v vb)"
    unfolding vb_bytes_def prepend_append [symmetric] by (rule ber_wrap_prepend)
  finally show ?thesis .
qed

lemma emit_list_prepend:
  "foldl (emit_varbind v) e (rev vbs) = prepend e (concat (map (vb_bytes v) vbs))"
  by (induction vbs) (simp_all add: emit_varbind_prepend flip: prepend_append)

lemma encode_response_prepend:
  "encode_response v e rid status idx comm vbs = prepend e (response_bytes v rid status idx comm vbs)"
proof -
  let ?vbl = "tlv BER_TAG_SEQUENCE (concat (map (vb_bytes v) vbs))"
  have vbl: "ber_wrap (foldl (emit_varbind v) e (rev vbs)) (be_pos e) BER_TAG_SEQUENCE = prepend e ?vbl"
    by (simp add: emit_list_prepend ber_wrap_prepend)
  show ?thesis
    unfolding encode_response_def Let_def ber_mark_def vbl
    by (simp only: ber_put_int_prepend ber_put_octet_prepend ber_wrap_prepend
        prepend_append [symmetric] append_assoc response_bytes_def int_tlv_def)
qed

lemma encode_error_prepend:
  "encode_error v e rid status idx comm = prepend e (response_bytes v rid status idx comm [])"
  by (simp add: encode_error_def encode_response_prepend)

section \<open>Sizes\<close>

lemma length_tlv_ge: "length c < length (tlv t c)"
  by (simp add: tlv_def)

lemma length_tlv: "length c < 2 ^ 16 \<Longrightarrow> length (tlv t c) \<le> length c + 4"
  using len_le_bound [of "length c" 2] by (simp add: tlv_def len_bytes_def)

lemma length_tlv_short: "length c < 128 \<Longrightarrow> length (tlv t c) = length c + 2"
  by (simp add: tlv_def len_bytes_def)

lemma length_int_tlv: "length (int_tlv v) \<le> 6"
  using int_le_length [of v] length_tlv_short [of "rev (int_le v)" BER_TAG_INTEGER]
  by (simp add: int_tlv_def)

text \<open>A response with no varbinds is at most 38 bytes longer than the community.\<close>

lemma empty_response_length:
  assumes "length comm < 60000"
  shows "length (response_bytes v rid status idx comm []) \<le> length comm + 38"
proof -
  define vbl where "vbl = tlv BER_TAG_SEQUENCE []"
  define pdu where "pdu = int_tlv rid @ int_tlv status @ int_tlv idx @ vbl"
  define msg where "msg = int_tlv SNMP_VERSION_2C @ tlv BER_TAG_OCTET_STR comm @ tlv SNMP_PDU_RESPONSE pdu"
  have "length vbl = 2" by (simp add: vbl_def length_tlv_short)
  then have pdu: "length pdu \<le> 20"
    using length_int_tlv [of rid] length_int_tlv [of status] length_int_tlv [of idx]
    by (simp add: pdu_def)
  then have "length msg \<le> 6 + (length comm + 4) + 24"
    using length_int_tlv [of SNMP_VERSION_2C] length_tlv [of comm BER_TAG_OCTET_STR]
      length_tlv [of pdu SNMP_PDU_RESPONSE] assms by (simp add: msg_def)
  then have "length (tlv BER_TAG_SEQUENCE msg) \<le> length comm + 38"
    using length_tlv [of msg BER_TAG_SEQUENCE] assms by simp
  then show ?thesis by (simp add: response_bytes_def msg_def pdu_def vbl_def)
qed

section \<open>The encoder over the transmit buffer\<close>

lemma init_inv: "length tx = n \<Longrightarrow> enc_inv (ber_enc_init tx n)"
  by (simp add: enc_inv_def ber_enc_init_def)

lemma init_fields [simp]:
  "be_pos (ber_enc_init tx n) = n" "be_cap (ber_enc_init tx n) = n"
  "be_overflow (ber_enc_init tx n) = False" "be_base (ber_enc_init tx n) = tx"
  by (simp_all add: ber_enc_init_def)

lemma init_length:
  "ber_enc_length (prepend (ber_enc_init tx n) bs) = (if length bs \<le> n then length bs else 0)"
  by (simp add: ber_enc_length_def)

lemma init_base_length:
  "length tx = n \<Longrightarrow> length (be_base (prepend (ber_enc_init tx n) bs)) = n"
  using prepend_inv [OF init_inv, of tx n bs] by (simp add: enc_inv_def)

text \<open>The bytes that fitted are the tail of the buffer, where the listener reads them.\<close>

lemma init_data:
  assumes "length tx = n" "length bs \<le> n"
  shows "drop (n - length bs) (be_base (prepend (ber_enc_init tx n) bs)) = bs"
  using prepend_data [OF init_inv [OF assms(1)], of bs] assms
  by (simp add: ber_enc_data_def)

section \<open>What the agent answers\<close>

text \<open>Error status, error index and varbinds of the first attempt at a response.\<close>

definition agent_plan :: "agent_cfg \<Rightarrow> mib_state \<Rightarrow> parsed_req \<Rightarrow> u32 \<times> u32 \<times> resp_vb list" where
  "agent_plan cfg m r =
     (if too_many r then (SNMP_ERR_TOO_BIG, 0, [])
      else if pdu_type r = SNMP_PDU_SET then (SNMP_ERR_NOT_WRITABLE, 1, [])
      else if pdu_type r = SNMP_PDU_GET then (SNMP_ERR_NONE, 0, plan_get m r)
      else if pdu_type r = SNMP_PDU_GETNEXT then (SNMP_ERR_NONE, 0, plan_getnext m r)
      else if pdu_type r = SNMP_PDU_GETBULK then (SNMP_ERR_NONE, 0, plan_getbulk cfg m r)
      else (SNMP_ERR_GEN_ERR, 0, []))"

definition agent_answer :: "agent_cfg \<Rightarrow> mib_view \<Rightarrow> parsed_req \<Rightarrow> bytes" where
  "agent_answer cfg v r =
     (let (st, idx, vbs) = agent_plan cfg (v_mib v) r;
          resp = response_bytes v (request_id r) st idx (community r) vbs
      in if length resp \<le> SNMP_TX_BUF then resp
         else response_bytes v (request_id r) SNMP_ERR_TOO_BIG 0 (community r) [])"

text \<open>A configuration whose community leaves room for an error response (the default has 6).\<close>

definition agent_cfg_ok :: "agent_cfg \<Rightarrow> bool" where
  "agent_cfg_ok cfg \<longleftrightarrow> length (read_community cfg) \<le> 1400 \<and> 1 \<le> max_req_vb cfg"

lemma parse_community: "parse_request cfg buf = Some r \<Longrightarrow> community r = read_community cfg"
  by (auto simp: parse_request_def split: option.splits prod.splits if_splits)

lemma error_fits:
  "agent_cfg_ok cfg \<Longrightarrow> parse_request cfg buf = Some r \<Longrightarrow>
    length (response_bytes v rid st idx (community r) []) \<le> SNMP_TX_BUF"
  using empty_response_length [of "community r" v rid st idx]
  by (auto simp: agent_cfg_ok_def SNMP_TX_BUF_def dest: parse_community)

lemma response_nonempty: "response_bytes v rid st idx comm vbs \<noteq> []"
  by (simp add: response_bytes_def tlv_def)

lemma respond_prepend:
  assumes "agent_cfg_ok cfg" "parse_request cfg buf = Some r" "length tx = SNMP_TX_BUF"
  shows "\<exists>tx'. length tx' = SNMP_TX_BUF
    \<and> respond cfg v tx r = prepend (ber_enc_init tx' SNMP_TX_BUF) (agent_answer cfg v r)"
proof -
  let ?R = "\<lambda>st idx vbs. response_bytes v (request_id r) st idx (community r) vbs"
  let ?ans = "\<lambda>vbs. if length (?R SNMP_ERR_NONE 0 vbs) \<le> SNMP_TX_BUF then ?R SNMP_ERR_NONE 0 vbs
      else ?R SNMP_ERR_TOO_BIG 0 []"
  have fits: "length (?R st idx []) \<le> SNMP_TX_BUF" for st idx
    using assms(1,2) by (rule error_fits)
  have ans: "\<exists>tx'. length tx' = SNMP_TX_BUF \<and>
      (let e1 = encode_response v (ber_enc_init tx SNMP_TX_BUF) (request_id r) SNMP_ERR_NONE 0 (community r) vbs
       in if ber_enc_length e1 = 0
          then encode_error v (ber_enc_init (be_base e1) SNMP_TX_BUF) (request_id r)
                 SNMP_ERR_TOO_BIG 0 (community r)
          else e1) = prepend (ber_enc_init tx' SNMP_TX_BUF) (?ans vbs)" for vbs
    using assms(3) init_base_length [OF assms(3)] response_nonempty
    by (auto simp: encode_response_prepend encode_error_prepend init_length Let_def)
  have err: "\<exists>tx'. length tx' = SNMP_TX_BUF \<and>
      encode_error v (ber_enc_init tx SNMP_TX_BUF) (request_id r) st idx (community r) =
      prepend (ber_enc_init tx' SNMP_TX_BUF) (?R st idx [])" for st idx
    using assms(3) by (auto simp: encode_error_prepend)
  show ?thesis
    using ans [of "plan_get (v_mib v) r"] ans [of "plan_getnext (v_mib v) r"]
      ans [of "plan_getbulk cfg (v_mib v) r"] err fits
    by (simp add: respond_def agent_answer_def agent_plan_def Let_def)
qed

lemma agent_answer_length:
  "agent_cfg_ok cfg \<Longrightarrow> parse_request cfg buf = Some r \<Longrightarrow>
    length (agent_answer cfg v r) \<le> SNMP_TX_BUF \<and> agent_answer cfg v r \<noteq> []"
  using error_fits [of cfg buf r v "request_id r" SNMP_ERR_TOO_BIG 0]
  by (simp add: agent_answer_def response_nonempty Let_def split: prod.split)

lemma snmp_reply_answer:
  assumes "agent_cfg_ok cfg" "parse_request cfg buf = Some r" "length tx = SNMP_TX_BUF"
  shows "fst (snmp_reply cfg v tx buf) = Some (agent_answer cfg v r)"
proof -
  obtain tx' where tx': "length tx' = SNMP_TX_BUF"
    "respond cfg v tx r = prepend (ber_enc_init tx' SNMP_TX_BUF) (agent_answer cfg v r)"
    using respond_prepend [OF assms] by blast
  have len: "length (agent_answer cfg v r) \<le> SNMP_TX_BUF" "agent_answer cfg v r \<noteq> []"
    using agent_answer_length [OF assms(1,2)] by simp_all
  then show ?thesis
    using init_data [OF tx'(1) len(1)]
    by (simp add: snmp_reply_def handle_request_def assms(2) tx'(2) init_length)
qed

lemma snmp_reply_dropped: "parse_request cfg buf = None \<Longrightarrow> fst (snmp_reply cfg v tx buf) = None"
  by (simp add: snmp_reply_def handle_request_def)

text \<open>The Kconfig defaults, and the view of a freshly started five-port switch.\<close>

definition default_cfg :: agent_cfg where
  "default_cfg = \<lparr>max_req_vb = 32, read_community = ascii ''public''\<rparr>"

definition default_view :: mib_view where
  "default_view =
     \<lparr>v_mib = mib_init 5 (data_source_init 5 15) 0, v_sim = data_source_init 5 15,
      v_env = \<lparr>firmware_name = ascii ''snmp-agent'', firmware_version = ascii ''1.0'',
        build_timestamp = ascii ''now'', hostname = ascii ''switch'',
        sys_contact = ascii ''admin@example.com'', sys_location = ascii ''Lab'', uptime_ms = 0\<rparr>\<rparr>"

lemma default_cfg_ok: "agent_cfg_ok default_cfg"
  by (simp add: agent_cfg_ok_def default_cfg_def)

lemma default_view_sorted: "mib_sorted (v_mib default_view)"
  using mib_init_sorted [OF mib_config_run, of 5 15 0 0] by (simp add: default_view_def)

text \<open>A request record for the concrete instances below.\<close>

definition sample_req :: "byte \<Rightarrow> u32 \<Rightarrow> u32 \<Rightarrow> oid list \<Rightarrow> parsed_req" where
  "sample_req pdu f2 f3 nms =
     \<lparr>pdu_type = pdu, request_id = 7, field2 = f2, field3 = f3, names = nms, too_many = False,
      community = ascii ''public''\<rparr>"

text \<open>
  C1. The agent answers every request it can parse, and only those. The datagram it sends is the
  planned response when that fits one datagram and the tooBig response otherwise, never a
  truncated one, and it is never longer than the 1500-byte buffer.
\<close>

theorem agent_answers:
  assumes "agent_cfg_ok cfg" "length tx = SNMP_TX_BUF"
  shows "fst (snmp_reply cfg v tx buf) = map_option (agent_answer cfg v) (parse_request cfg buf)
    \<and> (\<forall>resp. fst (snmp_reply cfg v tx buf) = Some resp \<longrightarrow> length resp \<le> 1500)"
proof (cases "parse_request cfg buf")
  case None
  then show ?thesis by (simp add: snmp_reply_dropped)
next
  case (Some r)
  then show ?thesis
    using snmp_reply_answer [OF assms(1) Some assms(2)] agent_answer_length [OF assms(1) Some, of v]
    by (simp add: SNMP_TX_BUF_def)
qed

section \<open>Requests as a manager sends them\<close>

definition req_vb_bytes :: "oid \<Rightarrow> bytes" where
  "req_vb_bytes nm = tlv BER_TAG_SEQUENCE (tlv BER_TAG_OID (oid_content nm) @ tlv BER_TAG_NULL [])"

definition request_bytes :: "bytes \<Rightarrow> byte \<Rightarrow> u32 \<Rightarrow> u32 \<Rightarrow> u32 \<Rightarrow> oid list \<Rightarrow> bytes" where
  "request_bytes comm pdu rid f2 f3 nms =
     tlv BER_TAG_SEQUENCE
       (int_tlv SNMP_VERSION_2C @ tlv BER_TAG_OCTET_STR comm @
        tlv pdu (int_tlv rid @ int_tlv f2 @ int_tlv f3 @
          tlv BER_TAG_SEQUENCE (concat (map req_vb_bytes nms))))"

definition name_ok :: "oid \<Rightarrow> bool" where
  "name_ok nm \<longleftrightarrow> oid_arc_ok nm \<and> length nm \<le> BER_MAX_OID_LEN"

lemma tlv_nonempty [simp]: "tlv t c \<noteq> []"
  by (simp add: tlv_def)

lemma req_vb_nonempty [simp]: "req_vb_bytes nm \<noteq> []"
  by (simp add: req_vb_bytes_def)

lemma parse_names_request:
  "length (concat (map req_vb_bytes nms)) < 2 ^ 32 \<Longrightarrow> \<forall>nm \<in> set nms. name_ok nm \<Longrightarrow> n \<le> mx \<Longrightarrow>
    parse_names mx n (concat (map req_vb_bytes nms)) = Some (take (mx - n) nms, length nms > mx - n)"
proof (induction nms arbitrary: n)
  case Nil
  then show ?case by (simp add: parse_names.simps ber_dec_done_def)
next
  case (Cons nm nms)
  let ?vb = "tlv BER_TAG_OID (oid_content nm) @ tlv BER_TAG_NULL []"
  have small: "length (req_vb_bytes nm) < 2 ^ 32" using Cons.prems(1) by simp
  then have "length ?vb < 2 ^ 32"
    unfolding req_vb_bytes_def using length_tlv_ge less_trans by blast
  then have ent: "ber_enter (req_vb_bytes nm @ rest) BER_TAG_SEQUENCE = Some (?vb, rest)" for rest
    unfolding req_vb_bytes_def by (rule enter_tlv)
  have "length (oid_content nm) < 2 ^ 32"
    using \<open>length ?vb < 2 ^ 32\<close> length_tlv_ge [of "oid_content nm" BER_TAG_OID] by simp
  then have oid: "ber_get_oid ?vb BER_MAX_OID_LEN = Some (nm, tlv BER_TAG_NULL [])"
    using Cons.prems(2) by (simp add: name_ok_def get_oid_tlv)
  show ?case
  proof (cases "n < mx")
    case True
    then have "mx - n = Suc (mx - Suc n)" by simp
    with True show ?thesis
      using Cons.IH [of "Suc n"] Cons.prems
      by (subst parse_names.simps) (simp add: ber_dec_done_def ent oid)
  next
    case False
    then show ?thesis using Cons.prems(3) by (subst parse_names.simps) (simp add: ber_dec_done_def ent)
  qed
qed

text \<open>
  A well-formed v2c request with the right community is parsed back field by field; names
  beyond the configured limit are not kept, and then the request is marked as too large.
\<close>

theorem parse_request_roundtrip:
  assumes "length (request_bytes (read_community cfg) pdu rid f2 f3 nms) < 2 ^ 32"
    and "\<forall>nm \<in> set nms. name_ok nm" and "nms \<noteq> []" and "1 \<le> max_req_vb cfg"
  shows "parse_request cfg (request_bytes (read_community cfg) pdu rid f2 f3 nms) =
    Some \<lparr>pdu_type = pdu, request_id = rid, field2 = f2, field3 = f3,
          names = take (max_req_vb cfg) nms, too_many = length nms > max_req_vb cfg,
          community = read_community cfg\<rparr>"
proof -
  let ?vbs = "concat (map req_vb_bytes nms)"
  let ?pdu = "int_tlv rid @ int_tlv f2 @ int_tlv f3 @ tlv BER_TAG_SEQUENCE ?vbs"
  let ?msg = "int_tlv SNMP_VERSION_2C @ tlv BER_TAG_OCTET_STR (read_community cfg) @ tlv pdu ?pdu"
  have msg: "length ?msg < 2 ^ 32"
    using assms(1) length_tlv_ge [of ?msg BER_TAG_SEQUENCE] unfolding request_bytes_def by linarith
  then have comm: "length (read_community cfg) < 2 ^ 32" and pdu: "length ?pdu < 2 ^ 32"
    using length_tlv_ge [of "read_community cfg" BER_TAG_OCTET_STR] length_tlv_ge [of ?pdu pdu] by simp_all
  then have vbs: "length ?vbs < 2 ^ 32" using length_tlv_ge [of ?vbs BER_TAG_SEQUENCE] by simp
  have enter: "ber_enter (request_bytes (read_community cfg) pdu rid f2 f3 nms) BER_TAG_SEQUENCE
      = Some (?msg, [])"
    unfolding request_bytes_def using enter_tlv [OF msg, of BER_TAG_SEQUENCE "[]"] by simp
  have ints: "ber_get_int (int_tlv i @ rest) = Some (i, rest)" for i rest
    unfolding int_tlv_def by (rule get_int_tlv)
  have pdutlv: "ber_get_tlv (tlv pdu ?pdu) = Some ((pdu, ?pdu), [])"
    using get_tlv_tlv [OF pdu, of pdu "[]"] by simp
  have vbl: "ber_enter (tlv BER_TAG_SEQUENCE ?vbs) BER_TAG_SEQUENCE = Some (?vbs, [])"
    using enter_tlv [OF vbs, of BER_TAG_SEQUENCE "[]"] by simp
  have nms: "parse_names (max_req_vb cfg) 0 ?vbs =
      Some (take (max_req_vb cfg) nms, length nms > max_req_vb cfg)"
    using parse_names_request [OF vbs assms(2), of 0 "max_req_vb cfg"] by simp
  show ?thesis
    unfolding parse_request_def enter
    using assms(3,4) by (simp add: ints get_octet_tlv [OF comm] pdutlv vbl nms)
qed

theorem parse_request_roundtrip_witness:
  "parse_request default_cfg (request_bytes (ascii ''public'') SNMP_PDU_GET 7 0 0 [[1, 3, 6]])
    = Some (sample_req SNMP_PDU_GET 0 0 [[1, 3, 6]])"
proof -
  have "length (request_bytes (ascii ''public'') SNMP_PDU_GET 7 0 0 [[1, 3, 6]]) = 34" by code_simp
  then show ?thesis
    using parse_request_roundtrip [of default_cfg SNMP_PDU_GET 7 0 0 "[[1, 3, 6]]"]
    by (simp add: default_cfg_def sample_req_def name_ok_def oid_arc_ok_def BER_MAX_OID_LEN_def)
qed

theorem agent_answers_witness:
  "fst (snmp_reply default_cfg default_view (replicate 1500 0)
      (request_bytes (ascii ''public'') SNMP_PDU_GET 7 0 0 [[1, 3, 6]])) =
    Some (agent_answer default_cfg default_view (sample_req SNMP_PDU_GET 0 0 [[1, 3, 6]]))"
  using agent_answers [of default_cfg "replicate 1500 0" default_view
      "request_bytes (ascii ''public'') SNMP_PDU_GET 7 0 0 [[1, 3, 6]]"] default_cfg_ok
  by (simp add: SNMP_TX_BUF_def parse_request_roundtrip_witness)

section \<open>GETBULK\<close>

text \<open>
  The specification of one repeater, after RFC 3416: the varbind of repetition \<open>k\<close> is a GETNEXT
  on the name of the varbind before it. It ends with the first endOfMibView, which a walker
  that has returned a leaf names after that leaf.
\<close>

fun walk_item :: "mib_state \<Rightarrow> oid \<Rightarrow> nat \<Rightarrow> resp_vb option" where
  "walk_item m nm 0 = Some (set_vb_next m nm)"
| "walk_item m nm (Suc k) =
     (case walk_item m nm k of
        None \<Rightarrow> None
      | Some vb \<Rightarrow>
          if vb_exception vb = SNMP_EXC_END_OF_MIB_VIEW then None
          else case mib_get_next m (mib_leaf_oid (leaves m ! the (vb_leaf vb))) of
            Some l \<Rightarrow> Some \<lparr>vb_leaf = Some l, vb_name = nm, vb_exception = 0\<rparr>
          | None \<Rightarrow> Some \<lparr>vb_leaf = vb_leaf vb, vb_name = nm,
                          vb_exception = SNMP_EXC_END_OF_MIB_VIEW\<rparr>)"

definition getbulk_spec :: "nat \<Rightarrow> mib_state \<Rightarrow> oid list \<Rightarrow> oid list \<Rightarrow> nat \<Rightarrow> resp_vb list" where
  "getbulk_spec limit m nonreps reps max_rep =
     take limit (map (set_vb_next m) nonreps @
       concat (map (\<lambda>k. List.map_filter (\<lambda>nm. walk_item m nm k) reps) [0..<max_rep]))"

lemma set_vb_next_cases:
  "(\<exists>i. set_vb_next m nm = \<lparr>vb_leaf = Some i, vb_name = nm, vb_exception = 0\<rparr> \<and> i < length (leaves m))
    \<or> set_vb_next m nm = \<lparr>vb_leaf = None, vb_name = nm, vb_exception = SNMP_EXC_END_OF_MIB_VIEW\<rparr>"
  by (cases "mib_get_next m nm") (auto simp: set_vb_next_def dest: mib_get_next_less)

text \<open>An item that is not the end of the view carries a leaf of the table.\<close>

lemma walk_item_leaf:
  "walk_item m nm k = Some vb \<Longrightarrow> vb_exception vb \<noteq> SNMP_EXC_END_OF_MIB_VIEW \<Longrightarrow>
    \<exists>i. vb_leaf vb = Some i \<and> i < length (leaves m)"
proof (induction k arbitrary: vb)
  case 0
  then show ?case using set_vb_next_cases [of m nm] by auto
next
  case (Suc k)
  then show ?case by (auto split: option.splits if_splits dest: mib_get_next_less)
qed

text \<open>What a walker's cursor and done flag say before repetition \<open>k\<close>.\<close>

definition walker_at :: "mib_state \<Rightarrow> oid \<Rightarrow> nat \<Rightarrow> nat option \<Rightarrow> bool \<Rightarrow> bool" where
  "walker_at m nm k c d =
     (case k of
        0 \<Rightarrow> c = None \<and> \<not> d
      | Suc k' \<Rightarrow>
          (case walk_item m nm k' of
             None \<Rightarrow> d
           | Some vb \<Rightarrow> if vb_exception vb = SNMP_EXC_END_OF_MIB_VIEW then d
                        else \<not> d \<and> c = vb_leaf vb))"

text \<open>What the body of the inner loop chooses is the specified item.\<close>

lemma walker_next:
  assumes "mib_sorted m" "walker_at m nm k c d"
  shows "walk_item m nm k = (if d then None else Some (case c of
      None \<Rightarrow> set_vb_next m nm
    | Some i \<Rightarrow> (case mib_next_leaf m i of
        None \<Rightarrow> \<lparr>vb_leaf = Some i, vb_name = nm, vb_exception = SNMP_EXC_END_OF_MIB_VIEW\<rparr>
      | Some l \<Rightarrow> \<lparr>vb_leaf = Some l, vb_name = nm, vb_exception = 0\<rparr>)))"
proof (cases k)
  case 0
  then show ?thesis using assms(2) by (simp add: walker_at_def)
next
  case (Suc k')
  show ?thesis
  proof (cases "walk_item m nm k'")
    case None
    then show ?thesis using assms(2) Suc by (simp add: walker_at_def)
  next
    case (Some vb)
    show ?thesis
    proof (cases "vb_exception vb = SNMP_EXC_END_OF_MIB_VIEW")
      case True
      then show ?thesis using assms(2) Suc Some by (simp add: walker_at_def)
    next
      case False
      then obtain i where i: "vb_leaf vb = Some i" "i < length (leaves m)"
        using walk_item_leaf [OF Some] by blast
      have "mib_next_leaf m i = mib_get_next m (mib_leaf_oid (leaves m ! i))"
        using assms(1) i(2)
        by (simp add: mib_sorted_def mib_get_next_def leaf_cmp_def mib_next_leaf_def
            oid_ord.first_after_nth)
      then show ?thesis
        using assms(2) Suc Some False i(1) by (auto simp: walker_at_def split: option.split)
    qed
  qed
qed

lemma bulk_turn_item:
  assumes "mib_sorted m" "walker_at m nm k (cursor b ! j) (done_walk b ! j)"
    and "j < length (cursor b)" "j < length (done_walk b)"
  defines "b' \<equiv> bulk_turn m nm j b"
  shows "out b' = out b @ (case walk_item m nm k of None \<Rightarrow> [] | Some vb \<Rightarrow> [vb])"
    and "walker_at m nm (Suc k) (cursor b' ! j) (done_walk b' ! j)"
    and "length (cursor b') = length (cursor b)" "length (done_walk b') = length (done_walk b)"
    and "i \<noteq> j \<Longrightarrow> cursor b' ! i = cursor b ! i \<and> done_walk b' ! i = done_walk b ! i"
proof -
  note item = walker_next [OF assms(1,2)]
  show "out b' = out b @ (case walk_item m nm k of None \<Rightarrow> [] | Some vb \<Rightarrow> [vb])"
    "length (cursor b') = length (cursor b)" "length (done_walk b') = length (done_walk b)"
    "i \<noteq> j \<Longrightarrow> cursor b' ! i = cursor b ! i \<and> done_walk b' ! i = done_walk b ! i"
    by (simp_all add: b'_def bulk_turn_def item Let_def)
  show "walker_at m nm (Suc k) (cursor b' ! j) (done_walk b' ! j)"
    using assms(3,4) item
    by (cases "walk_item m nm k") (auto simp: b'_def bulk_turn_def Let_def walker_at_def split: if_splits)
qed

text \<open>One repetition, up to the limit. The walkers advance when the limit was not reached.\<close>

lemma bulk_row_items:
  assumes "mib_sorted m" "length (out b) \<le> limit"
    and "length (cursor b) = j + length nms" "length (done_walk b) = j + length nms"
    and "\<forall>i < length nms. walker_at m (nms ! i) k (cursor b ! (j + i)) (done_walk b ! (j + i))"
  shows "out (bulk_row m limit nms j b)
      = take limit (out b @ List.map_filter (\<lambda>nm. walk_item m nm k) nms)
    \<and> (length (out (bulk_row m limit nms j b)) < limit \<longrightarrow>
        length (cursor (bulk_row m limit nms j b)) = j + length nms
        \<and> length (done_walk (bulk_row m limit nms j b)) = j + length nms
        \<and> (\<forall>i < length nms. walker_at m (nms ! i) (Suc k) (cursor (bulk_row m limit nms j b) ! (j + i))
            (done_walk (bulk_row m limit nms j b) ! (j + i)))
        \<and> (\<forall>i < j. cursor (bulk_row m limit nms j b) ! i = cursor b ! i
            \<and> done_walk (bulk_row m limit nms j b) ! i = done_walk b ! i))"
  using assms(2-)
proof (induction nms arbitrary: j b)
  case Nil
  then show ?case by (simp add: List.map_filter_simps)
next
  case (Cons nm nms)
  show ?case
  proof (cases "length (out b) < limit")
    case False
    with Cons.prems(1) show ?thesis by simp
  next
    case True
    let ?b = "bulk_turn m nm j b"
    have w: "walker_at m nm k (cursor b ! j) (done_walk b ! j)"
      using Cons.prems(4) by (metis add.right_neutral length_greater_0_conv list.distinct(1) nth_Cons_0)
    have j: "j < length (cursor b)" "j < length (done_walk b)" using Cons.prems(2,3) by simp_all
    note turn = bulk_turn_item [OF assms(1) w j]
    have "walker_at m (nms ! i) k (cursor ?b ! (Suc j + i)) (done_walk ?b ! (Suc j + i))"
      if "i < length nms" for i
      using Cons.prems(4) [rule_format, of "Suc i"] that turn(5) [of "Suc j + i"] by simp
    moreover have "length (out ?b) \<le> limit" using True turn(1) by (auto split: option.split)
    ultimately have ih: "out (bulk_row m limit nms (Suc j) ?b)
          = take limit (out ?b @ List.map_filter (\<lambda>nm. walk_item m nm k) nms)
        \<and> (length (out (bulk_row m limit nms (Suc j) ?b)) < limit \<longrightarrow>
          length (cursor (bulk_row m limit nms (Suc j) ?b)) = Suc j + length nms
          \<and> length (done_walk (bulk_row m limit nms (Suc j) ?b)) = Suc j + length nms
          \<and> (\<forall>i < length nms. walker_at m (nms ! i) (Suc k)
              (cursor (bulk_row m limit nms (Suc j) ?b) ! (Suc j + i))
              (done_walk (bulk_row m limit nms (Suc j) ?b) ! (Suc j + i)))
          \<and> (\<forall>i < Suc j. cursor (bulk_row m limit nms (Suc j) ?b) ! i = cursor ?b ! i
              \<and> done_walk (bulk_row m limit nms (Suc j) ?b) ! i = done_walk ?b ! i))"
      using Cons.prems(2,3) turn(3,4) by (intro Cons.IH) simp_all
    have row: "bulk_row m limit (nm # nms) j b = bulk_row m limit nms (Suc j) ?b" using True by simp
    have items: "out ?b @ List.map_filter (\<lambda>nm. walk_item m nm k) nms
        = out b @ List.map_filter (\<lambda>nm. walk_item m nm k) (nm # nms)"
      using turn(1) by (simp add: List.map_filter_simps split: option.split)
    have "walker_at m ((nm # nms) ! i) (Suc k)
          (cursor (bulk_row m limit nms (Suc j) ?b) ! (j + i))
          (done_walk (bulk_row m limit nms (Suc j) ?b) ! (j + i))"
      if "length (out (bulk_row m limit nms (Suc j) ?b)) < limit" "i < length (nm # nms)" for i
      using ih that turn(2) by (cases i) (auto simp: less_Suc_eq)
    moreover have "cursor (bulk_row m limit nms (Suc j) ?b) ! i = cursor b ! i
        \<and> done_walk (bulk_row m limit nms (Suc j) ?b) ! i = done_walk b ! i"
      if "length (out (bulk_row m limit nms (Suc j) ?b)) < limit" "i < j" for i
      using ih that turn(5) [of i] by simp
    ultimately show ?thesis
      using ih unfolding row items by auto
  qed
qed

lemma bulk_reps_items:
  assumes "mib_sorted m" "length (out b) \<le> limit"
    and "length (cursor b) = length nms" "length (done_walk b) = length nms"
    and "\<forall>i < length nms. walker_at m (nms ! i) k (cursor b ! i) (done_walk b ! i)"
  shows "out (bulk_reps m limit nms rep b) = take limit (out b @
    concat (map (\<lambda>i. List.map_filter (\<lambda>nm. walk_item m nm (k + i)) nms) [0..<rep]))"
  using assms(2-)
proof (induction rep arbitrary: k b)
  case 0
  then show ?case by simp
next
  case (Suc rep)
  let ?it = "\<lambda>k. List.map_filter (\<lambda>nm. walk_item m nm k) nms"
  let ?b = "bulk_row m limit nms 0 b"
  have row: "out ?b = take limit (out b @ ?it k)"
    and adv: "length (out ?b) < limit \<Longrightarrow> length (cursor ?b) = length nms
      \<and> length (done_walk ?b) = length nms
      \<and> (\<forall>i < length nms. walker_at m (nms ! i) (Suc k) (cursor ?b ! i) (done_walk ?b ! i))"
    using bulk_row_items [OF assms(1) Suc.prems(1), of 0 nms k] Suc.prems(2-4) by simp_all
  have split: "concat (map (\<lambda>i. ?it (k + i)) [0..<Suc rep])
      = ?it k @ concat (map (\<lambda>i. ?it (Suc k + i)) [0..<rep])"
    by (simp add: upt_conv_Cons map_Suc_upt [symmetric] comp_def del: upt_Suc)
  show ?case
  proof (cases "length (out b) < limit")
    case False
    then show ?thesis using Suc.prems(1) by simp
  next
    case True
    then have step: "bulk_reps m limit nms (Suc rep) b = bulk_reps m limit nms rep ?b" by simp
    show ?thesis
    proof (cases "length (out ?b) < limit")
      case True
      then have "out ?b = out b @ ?it k" using row by (auto simp: min_def split: if_splits)
      then show ?thesis
        unfolding step split using Suc.IH [of ?b "Suc k"] adv [OF True] True by simp
    next
      case False
      then have "length (out ?b) = limit" using row by simp
      then have "bulk_reps m limit nms rep ?b = ?b" by (cases rep) simp_all
      then show ?thesis
        unfolding step split using row \<open>length (out ?b) = limit\<close> by (simp add: min_def split: if_splits)
    qed
  qed
qed

definition nonneg :: "u32 \<Rightarrow> nat" where
  "nonneg v = (if sint v < 0 then 0 else nat (sint v))"

text \<open>
  C2. GETBULK, with its cursors, done flags and output limit, computes the RFC's answer: one
  GETNEXT per non-repeater, then repetition by repetition the next item of every repeater,
  each item a GETNEXT on the name of the item before it, cut at the response limit.
\<close>

theorem plan_getbulk_is_iterated_getnext:
  assumes "mib_sorted m"
  shows "plan_getbulk cfg m r =
    (let nr = min (nonneg (field2 r)) (length (names r))
     in getbulk_spec (max_resp_vb cfg) m (take nr (names r)) (drop nr (names r)) (nonneg (field3 r)))"
proof -
  let ?nr = "min (nonneg (field2 r)) (length (names r))"
  let ?o = "map (set_vb_next m) (take (max_resp_vb cfg) (take ?nr (names r)))"
  let ?reps = "drop ?nr (names r)"
  let ?b = "\<lparr>out = ?o, cursor = replicate (length (names r) - ?nr) None,
      done_walk = replicate (length (names r) - ?nr) False\<rparr>"
  have o: "?o = take (max_resp_vb cfg) (map (set_vb_next m) (take ?nr (names r)))" by (simp add: take_map)
  have plan: "plan_getbulk cfg m r = (if length (names r) - ?nr = 0 \<or> nonneg (field3 r) = 0 then ?o
      else out (bulk_reps m (max_resp_vb cfg) ?reps (nonneg (field3 r)) ?b))"
    by (simp add: plan_getbulk_def nonneg_def Let_def min_def not_less)
  have none: "List.map_filter f [] = []" for f :: "oid \<Rightarrow> resp_vb option" by (simp add: List.map_filter_simps)
  have "out (bulk_reps m (max_resp_vb cfg) ?reps (nonneg (field3 r)) ?b) = take (max_resp_vb cfg) (?o @
      concat (map (\<lambda>i. List.map_filter (\<lambda>nm. walk_item m nm (0 + i)) ?reps) [0..<nonneg (field3 r)]))"
    by (subst bulk_reps_items [OF assms, where k = 0]) (simp_all add: walker_at_def)
  then show ?thesis
    unfolding plan getbulk_spec_def Let_def o using none
    by (auto simp: min_def split: if_splits)
qed

theorem plan_getbulk_is_iterated_getnext_witness:
  "plan_getbulk default_cfg (v_mib default_view) (sample_req SNMP_PDU_GETBULK 0 2 [[1, 3]])
    = getbulk_spec 48 (v_mib default_view) [] [[1, 3]] 2"
  using plan_getbulk_is_iterated_getnext [OF default_view_sorted, of default_cfg
      "sample_req SNMP_PDU_GETBULK 0 2 [[1, 3]]"]
  by (simp add: sample_req_def nonneg_def Let_def max_resp_vb_def default_cfg_def)

text \<open>
  Whatever non-repeaters and max-repetitions a request names, the plan never exceeds the
  response array, and every leaf it names is an entry of the table.
\<close>

theorem plan_getbulk_bounded:
  assumes "mib_sorted m"
  shows "length (plan_getbulk cfg m r) \<le> max_resp_vb cfg
    \<and> (\<forall>vb \<in> set (plan_getbulk cfg m r). \<forall>i. vb_leaf vb = Some i \<longrightarrow> i < length (leaves m))"
proof -
  have next_leaf: "vb_leaf (set_vb_next m nm) = Some i \<Longrightarrow> i < length (leaves m)" for nm i
    using set_vb_next_cases [of m nm] by auto
  have item: "walk_item m nm k = Some vb \<Longrightarrow> vb_leaf vb = Some i \<Longrightarrow> i < length (leaves m)" for nm k vb i
  proof (induction k arbitrary: vb i)
    case 0
    then show ?case using next_leaf by auto
  next
    case (Suc k)
    then show ?case by (auto split: option.splits if_splits dest: mib_get_next_less)
  qed
  have "vb \<in> set (plan_getbulk cfg m r) \<Longrightarrow> vb_leaf vb = Some i \<Longrightarrow> i < length (leaves m)" for vb i
    unfolding plan_getbulk_is_iterated_getnext [OF assms] getbulk_spec_def Let_def
    by (drule in_set_takeD) (auto simp: List.map_filter_def dest: next_leaf item)
  then show ?thesis
    by (auto simp: plan_getbulk_is_iterated_getnext [OF assms] getbulk_spec_def Let_def)
qed

theorem plan_getbulk_bounded_witness:
  "length (plan_getbulk default_cfg (v_mib default_view)
     (sample_req SNMP_PDU_GETBULK 0 0x7FFFFFFF [[1, 3], [1, 3, 6, 1, 4]])) \<le> 48"
  using plan_getbulk_bounded [OF default_view_sorted, of default_cfg
      "sample_req SNMP_PDU_GETBULK 0 0x7FFFFFFF [[1, 3], [1, 3, 6, 1, 4]]"]
  by (simp add: max_resp_vb_def default_cfg_def)



section \<open>Requests end to end\<close>

text \<open>
  For a GET the plan names, request by request, the leaf whose object identifier is exactly
  the requested one; a name that is no leaf's is echoed with noSuchInstance.
\<close>

theorem plan_get_exact:
  assumes "mib_sorted m" "i < length (names r)"
  shows "length (plan_get m r) = length (names r)
    \<and> (\<forall>j < length (leaves m). mib_leaf_oid (leaves m ! j) = names r ! i \<longrightarrow>
         plan_get m r ! i = \<lparr>vb_leaf = Some j, vb_name = names r ! i, vb_exception = 0\<rparr>)
    \<and> (names r ! i \<notin> mib_leaf_oid ` set (leaves m) \<longrightarrow>
         plan_get m r ! i = \<lparr>vb_leaf = None, vb_name = names r ! i,
           vb_exception = SNMP_EXC_NO_SUCH_INSTANCE\<rparr>)"
proof -
  have "mib_get_exact m nm = Some j" if "j < length (leaves m)" "mib_leaf_oid (leaves m ! j) = nm" for j nm
    using assms(1) that
    by (auto simp: mib_get_exact_def mib_sorted_def leaf_cmp_def oid_ord.first_equal_nth)
  moreover have "mib_get_exact m nm = None" if "nm \<notin> mib_leaf_oid ` set (leaves m)" for nm
    using that by (auto simp: mib_get_exact_def first_index_None leaf_cmp_def oid_cmp_eq_0)
  ultimately show ?thesis
    using assms(2) by (auto simp: plan_get_def Let_def)
qed

theorem plan_get_exact_witness:
  "length (plan_get (v_mib default_view) (sample_req SNMP_PDU_GET 0 0 [[1, 3]])) = 1"
  using plan_get_exact [OF default_view_sorted, of 0 "sample_req SNMP_PDU_GET 0 0 [[1, 3]]"]
  by (simp add: sample_req_def)

text \<open>
  A SET from the right community is answered notWritable, and a request with more names than
  the configured limit is answered tooBig whatever its type; both echo the request id.
\<close>

theorem agent_refuses_set_and_excess:
  assumes "agent_cfg_ok cfg" "length tx = SNMP_TX_BUF"
    and "length (request_bytes (read_community cfg) pdu rid f2 f3 nms) < 2 ^ 32"
    and "\<forall>nm \<in> set nms. name_ok nm" "nms \<noteq> []"
    and "pdu = SNMP_PDU_SET \<or> length nms > max_req_vb cfg"
  shows "fst (snmp_reply cfg v tx (request_bytes (read_community cfg) pdu rid f2 f3 nms)) =
    Some (if length nms > max_req_vb cfg
          then response_bytes v rid SNMP_ERR_TOO_BIG 0 (read_community cfg) []
          else response_bytes v rid SNMP_ERR_NOT_WRITABLE 1 (read_community cfg) [])"
proof -
  have "1 \<le> max_req_vb cfg" using assms(1) by (simp add: agent_cfg_ok_def)
  note parse = parse_request_roundtrip [OF assms(3-5) this]
  have "length (response_bytes v rid st idx (read_community cfg) []) \<le> SNMP_TX_BUF" for st idx
    using error_fits [OF assms(1) parse] by simp
  then show ?thesis
    using assms(6) unfolding snmp_reply_answer [OF assms(1) parse assms(2)]
    by (auto simp: agent_answer_def agent_plan_def)
qed

theorem agent_refuses_set_and_excess_witness:
  "fst (snmp_reply default_cfg default_view (replicate 1500 0)
      (request_bytes (ascii ''public'') SNMP_PDU_SET 7 0 0 [[1, 3, 6]])) =
    Some (response_bytes default_view 7 SNMP_ERR_NOT_WRITABLE 1 (ascii ''public'') [])"
proof -
  have "length (request_bytes (ascii ''public'') SNMP_PDU_SET 7 0 0 [[1, 3, 6]]) = 34" by code_simp
  then show ?thesis
    using agent_refuses_set_and_excess [OF default_cfg_ok, of "replicate 1500 0" SNMP_PDU_SET 7 0 0
        "[[1, 3, 6]]" default_view]
    by (simp add: default_cfg_def name_ok_def oid_arc_ok_def BER_MAX_OID_LEN_def SNMP_TX_BUF_def)
qed

text \<open>
  A GET for leaves of the table, from the right community, is answered with exactly those
  leaves and their current values, provided the response fits one datagram.
\<close>

theorem agent_get_leaves:
  assumes "agent_cfg_ok cfg" "length tx = SNMP_TX_BUF" "mib_sorted (v_mib v)"
    and "is \<noteq> []" "length is \<le> max_req_vb cfg" "\<forall>i \<in> set is. i < length (leaves (v_mib v))"
    and "nms = map (\<lambda>i. mib_leaf_oid (leaves (v_mib v) ! i)) is" "\<forall>nm \<in> set nms. name_ok nm"
    and "length (request_bytes (read_community cfg) SNMP_PDU_GET rid f2 f3 nms) < 2 ^ 32"
    and "vbs = map (\<lambda>i. \<lparr>vb_leaf = Some i, vb_name = mib_leaf_oid (leaves (v_mib v) ! i),
        vb_exception = 0\<rparr>) is"
    and "length (response_bytes v rid SNMP_ERR_NONE 0 (read_community cfg) vbs) \<le> SNMP_TX_BUF"
  shows "fst (snmp_reply cfg v tx (request_bytes (read_community cfg) SNMP_PDU_GET rid f2 f3 nms)) =
    Some (response_bytes v rid SNMP_ERR_NONE 0 (read_community cfg) vbs)"
proof -
  have mx: "1 \<le> max_req_vb cfg" using assms(1) by (simp add: agent_cfg_ok_def)
  have ne: "nms \<noteq> []" using assms(4,7) by simp
  note parse = parse_request_roundtrip [OF assms(9,8) ne mx]
  have few: "length nms \<le> max_req_vb cfg" using assms(5,7) by simp
  have "mib_get_exact (v_mib v) (mib_leaf_oid (leaves (v_mib v) ! i)) = Some i" if "i \<in> set is" for i
    using assms(3,6) that
    by (simp add: mib_get_exact_def mib_sorted_def leaf_cmp_def oid_ord.first_equal_nth)
  then have plan: "plan_get (v_mib v) \<lparr>pdu_type = SNMP_PDU_GET, request_id = rid, field2 = f2, field3 = f3,
      names = nms, too_many = False, community = read_community cfg\<rparr> = vbs"
    by (simp add: plan_get_def assms(7,10) Let_def)
  show ?thesis
    unfolding snmp_reply_answer [OF assms(1) parse assms(2)]
    using few assms(11) by (simp add: agent_answer_def agent_plan_def plan)
qed

theorem agent_get_leaves_witness:
  "fst (snmp_reply default_cfg default_view (replicate 1500 0)
      (request_bytes (ascii ''public'') SNMP_PDU_GET 7 0 0 [mib_leaf_oid (leaves (v_mib default_view) ! 6)])) =
    Some (response_bytes default_view 7 SNMP_ERR_NONE 0 (ascii ''public'')
      [\<lparr>vb_leaf = Some 6, vb_name = mib_leaf_oid (leaves (v_mib default_view) ! 6), vb_exception = 0\<rparr>])"
proof -
  have nm: "mib_leaf_oid (leaves (v_mib default_view) ! 6) = [1, 3, 6, 1, 2, 1, 1, 7, 0]"
    "length (leaves (v_mib default_view)) = 66"
    by code_simp+
  have "length (request_bytes (ascii ''public'') SNMP_PDU_GET 7 0 0 [[1, 3, 6, 1, 2, 1, 1, 7, 0]]) = 40"
    by code_simp
  moreover have "length (response_bytes default_view 7 SNMP_ERR_NONE 0 (ascii ''public'')
      [\<lparr>vb_leaf = Some 6, vb_name = mib_leaf_oid (leaves (v_mib default_view) ! 6),
        vb_exception = 0\<rparr>]) = 41"
    by code_simp
  ultimately show ?thesis
    using agent_get_leaves [OF default_cfg_ok, of "replicate 1500 0" default_view "[6]"
        "[mib_leaf_oid (leaves (v_mib default_view) ! 6)]" 7 0 0, OF _ default_view_sorted]
    by (simp add: default_cfg_def name_ok_def oid_arc_ok_def BER_MAX_OID_LEN_def SNMP_TX_BUF_def nm)
qed

end
