(* ===== verification/Trap.thy ===== *)
theory Trap
  imports Agent
begin

text \<open>
  Trap origination, \<^verbatim>\<open>src/lib/snmp/snmp_trap.c\<close>: the watcher that compares interface states with
  the last ones it saw and sends coldStart, linkUp and linkDown notifications. Name resolution
  and \<open>sendto\<close> are parameters; \<open>sent\<close> is the log of the datagrams handed to the socket.
\<close>

abbreviation SNMP_PDU_TRAP_V2 :: byte where "SNMP_PDU_TRAP_V2 \<equiv> 0xA7"

definition oid_sysuptime :: oid where "oid_sysuptime = [1, 3, 6, 1, 2, 1, 1, 3, 0]"
definition oid_trapoid :: oid where "oid_trapoid = [1, 3, 6, 1, 6, 3, 1, 1, 4, 1, 0]"
definition oid_coldstart :: oid where "oid_coldstart = [1, 3, 6, 1, 6, 3, 1, 1, 5, 1]"
definition oid_linkdown :: oid where "oid_linkdown = [1, 3, 6, 1, 6, 3, 1, 1, 5, 3]"
definition oid_linkup :: oid where "oid_linkup = [1, 3, 6, 1, 6, 3, 1, 1, 5, 4]"
definition oid_ifindex_col :: oid where "oid_ifindex_col = [1, 3, 6, 1, 2, 1, 2, 2, 1, 1]"

definition TRAP_BUF :: nat where "TRAP_BUF = 512"

record trap_state =
  trap_buf :: bytes
  sock_open :: bool
  mgr_addr :: u32
  mgr_resolved :: bool
  coldstart_pending :: bool
  trap_request_id :: u32
  last_oper :: "sim_if_status list"
  sent :: "(u32 \<times> bytes) list"

text \<open>
  What the outside world answers during one pass: the literal address the manager setting
  denotes (if it is one), what a name lookup returns, the uptime clock, and whether a datagram
  is accepted by \<open>sendto\<close>.
\<close>

record trap_world =
  w_literal :: "u32 option"
  w_lookup :: "u32 option"
  w_now :: int
  w_send_ok :: "bytes \<Rightarrow> bool"

section \<open>Operations\<close>

definition resolve_manager :: "trap_world \<Rightarrow> trap_state \<Rightarrow> bool \<times> trap_state" where
  "resolve_manager w s =
     (case w_literal w of
        Some a \<Rightarrow> (True, s\<lparr>mgr_addr := a\<rparr>)
      | None \<Rightarrow>
          (case w_lookup w of
             None \<Rightarrow> (False, s)
           | Some a \<Rightarrow> (True, s\<lparr>mgr_addr := a\<rparr>)))"

definition vb_oid :: "ber_enc \<Rightarrow> oid \<Rightarrow> oid \<Rightarrow> ber_enc" where
  "vb_oid e name val =
     (let mark = ber_mark e;
          e = ber_put_oid e val (length val);
          e = ber_put_oid e name (length name)
      in ber_wrap e mark BER_TAG_SEQUENCE)"

definition vb_timeticks :: "ber_enc \<Rightarrow> oid \<Rightarrow> u32 \<Rightarrow> ber_enc" where
  "vb_timeticks e name ticks =
     (let mark = ber_mark e;
          e = ber_put_uint_tagged e ticks BER_TAG_TIMETICKS;
          e = ber_put_oid e name (length name)
      in ber_wrap e mark BER_TAG_SEQUENCE)"

definition vb_int :: "ber_enc \<Rightarrow> oid \<Rightarrow> u32 \<Rightarrow> ber_enc" where
  "vb_int e name v =
     (let mark = ber_mark e;
          e = ber_put_int e v;
          e = ber_put_oid e name (length name)
      in ber_wrap e mark BER_TAG_SEQUENCE)"

text \<open>The encoding part of \<open>send_trap\<close>, over \<open>trap_buf\<close>; \<open>rid\<close> is the incremented request id.\<close>

definition encode_trap :: "bytes \<Rightarrow> ber_enc \<Rightarrow> u32 \<Rightarrow> u32 \<Rightarrow> oid \<Rightarrow> nat \<Rightarrow> ber_enc" where
  "encode_trap comm e rid ticks trap_oid ifindex =
     (let top_mark = ber_mark e;
          vbl = ber_mark e;
          e = (if ifindex > 0
               then vb_int e (oid_ifindex_col @ [of_nat ifindex]) (of_nat ifindex) else e);
          e = vb_oid e oid_trapoid trap_oid;
          e = vb_timeticks e oid_sysuptime ticks;
          e = ber_wrap e vbl BER_TAG_SEQUENCE;
          e = ber_put_int e 0;
          e = ber_put_int e 0;
          e = ber_put_int e rid;
          e = ber_wrap e top_mark SNMP_PDU_TRAP_V2;
          e = ber_put_octet_str e comm (length comm);
          e = ber_put_int e 1
      in ber_wrap e top_mark BER_TAG_SEQUENCE)"

definition send_trap ::
  "bytes \<Rightarrow> mib_state \<Rightarrow> trap_world \<Rightarrow> oid \<Rightarrow> nat \<Rightarrow> trap_state \<Rightarrow> trap_state" where
  "send_trap comm m w trap_oid ifindex s =
     (if \<not> sock_open s \<or> \<not> mgr_resolved s then s
      else
        let rid = trap_request_id s + 1;
            e = encode_trap comm (ber_enc_init (trap_buf s) TRAP_BUF) rid (mib_sys_uptime m (w_now w))
                  trap_oid ifindex;
            s = s\<lparr>trap_request_id := rid, trap_buf := be_base e\<rparr>;
            len = ber_enc_length e
        in if len = 0 then s
           else
             let pkt = take len (drop (TRAP_BUF - len) (trap_buf s));
                 s = s\<lparr>sent := sent s @ [(mgr_addr s, pkt)]\<rparr>
             in if \<not> w_send_ok w pkt then s\<lparr>mgr_resolved := False\<rparr> else s)"

text \<open>The body of the watcher's interface loop, for interface \<open>i\<close>.\<close>

definition watch_if :: "bytes \<Rightarrow> mib_state \<Rightarrow> trap_world \<Rightarrow> sim_state \<Rightarrow> nat \<Rightarrow> trap_state \<Rightarrow> trap_state" where
  "watch_if comm m w sim i s =
     (let now = sim_switch_if_oper_status sim i
      in if now = last_oper s ! i then s
         else
           let s = s\<lparr>last_oper := (last_oper s)[i := now]\<rparr>
           in if now = SIM_IF_DOWN then send_trap comm m w oid_linkdown (i + 1) s
              else send_trap comm m w oid_linkup (i + 1) s)"

definition watch_ifs :: "bytes \<Rightarrow> mib_state \<Rightarrow> trap_world \<Rightarrow> sim_state \<Rightarrow> nat list \<Rightarrow> trap_state \<Rightarrow> trap_state" where
  "watch_ifs comm m w sim is s = foldl (\<lambda>s i. watch_if comm m w sim i s) s is"

text \<open>One pass of the watcher's endless loop.\<close>

definition trap_tick :: "bytes \<Rightarrow> mib_state \<Rightarrow> trap_world \<Rightarrow> sim_state \<Rightarrow> trap_state \<Rightarrow> trap_state" where
  "trap_tick comm m w sim s =
     (let s = (if \<not> mgr_resolved s
               then let (ok, s) = resolve_manager w s in s\<lparr>mgr_resolved := ok\<rparr> else s);
          s = (if mgr_resolved s \<and> coldstart_pending s
               then send_trap comm m w oid_coldstart 0 (s\<lparr>coldstart_pending := False\<rparr>) else s)
      in watch_ifs comm m w sim [0..<sim_switch_if_count sim] s)"

text \<open>
  \<open>snmp_trap_start\<close>; \<open>sock\<close> is whether a socket was obtained. Without one the watcher is not
  started, which the closed socket in the state stands for.
\<close>

definition snmp_trap_start :: "bytes \<Rightarrow> mib_state \<Rightarrow> trap_world \<Rightarrow> sim_state \<Rightarrow> bool \<Rightarrow> trap_state \<Rightarrow> trap_state" where
  "snmp_trap_start comm m w sim sock s =
     (let s = s\<lparr>sock_open := sock\<rparr>
      in if \<not> sock then s
         else
           let s = s\<lparr>mgr_addr := 0\<rparr>;
               (ok, s) = resolve_manager w s;
               s = s\<lparr>mgr_resolved := ok\<rparr>;
               n = sim_switch_if_count sim;
               s = s\<lparr>last_oper := map (sim_switch_if_oper_status sim) [0..<n] @ drop n (last_oper s)\<rparr>
           in if mgr_resolved s then send_trap comm m w oid_coldstart 0 s
              else s\<lparr>coldstart_pending := True\<rparr>)"

section \<open>The datagram\<close>

definition trap_vb :: "oid \<Rightarrow> bytes \<Rightarrow> bytes" where
  "trap_vb name val = tlv BER_TAG_SEQUENCE (tlv BER_TAG_OID (oid_content name) @ val)"

definition trap_bytes :: "bytes \<Rightarrow> u32 \<Rightarrow> u32 \<Rightarrow> oid \<Rightarrow> nat \<Rightarrow> bytes" where
  "trap_bytes comm rid ticks trap_oid ifindex =
     tlv BER_TAG_SEQUENCE
       (int_tlv 1 @ tlv BER_TAG_OCTET_STR comm @
        tlv SNMP_PDU_TRAP_V2
          (int_tlv rid @ int_tlv 0 @ int_tlv 0 @
           tlv BER_TAG_SEQUENCE
             (trap_vb oid_sysuptime (tlv BER_TAG_TIMETICKS (rev (uint_tmp ticks))) @
              trap_vb oid_trapoid (tlv BER_TAG_OID (oid_content trap_oid)) @
              (if ifindex > 0
               then trap_vb (oid_ifindex_col @ [of_nat ifindex]) (int_tlv (of_nat ifindex)) else []))))"

lemma vb_prepend [put_prepend]:
  "vb_oid e name val = prepend e (trap_vb name (tlv BER_TAG_OID (oid_content val)))"
  "vb_timeticks e name t = prepend e (trap_vb name (tlv BER_TAG_TIMETICKS (rev (uint_tmp t))))"
  "vb_int e name v = prepend e (trap_vb name (int_tlv v))"
  by (simp_all add: vb_oid_def vb_timeticks_def vb_int_def trap_vb_def int_tlv_def ber_mark_def Let_def
      put_prepend flip: prepend_append)

lemma encode_trap_prepend:
  "encode_trap comm e rid ticks os i = prepend e (trap_bytes comm rid ticks os i)"
proof -
  define vbs where "vbs = trap_vb oid_sysuptime (tlv BER_TAG_TIMETICKS (rev (uint_tmp ticks))) @
      trap_vb oid_trapoid (tlv BER_TAG_OID (oid_content os)) @
      (if i > 0 then trap_vb (oid_ifindex_col @ [of_nat i]) (int_tlv (of_nat i)) else [])"
  have vbl: "vb_timeticks (vb_oid (if i > 0 then vb_int e (oid_ifindex_col @ [of_nat i]) (of_nat i) else e)
      oid_trapoid os) oid_sysuptime ticks = prepend e vbs"
    by (simp add: vbs_def vb_prepend flip: prepend_append)
  show ?thesis
    unfolding encode_trap_def Let_def ber_mark_def vbl
    by (simp only: ber_put_int_prepend ber_put_octet_prepend ber_wrap_prepend
        prepend_append [symmetric] append_assoc trap_bytes_def int_tlv_def [symmetric] vbs_def [symmetric])
qed

section \<open>Size of a notification\<close>

definition trap_oids :: "oid set" where
  "trap_oids = {oid_coldstart, oid_linkdown, oid_linkup}"

lemma length_trap_vb:
  "length (oid_content name) < 100 \<Longrightarrow> length val < 20 \<Longrightarrow>
    length (trap_vb name val) = length (oid_content name) + length val + 4"
  by (simp add: trap_vb_def length_tlv_short)

lemma length_oid_const:
  "length (oid_content oid_sysuptime) = 8" "length (oid_content oid_trapoid) = 10"
  "length (oid_content oid_coldstart) = 9" "length (oid_content oid_linkdown) = 9"
  "length (oid_content oid_linkup) = 9"
  by code_simp+

lemma length_oid_ifindex:
  assumes "i < 128" shows "length (oid_content (oid_ifindex_col @ [of_nat i])) = 10"
proof -
  have "oid_content (oid_ifindex_col @ [of_nat i]) = oid_content oid_ifindex_col @ rev (sub_le (of_nat i))"
    by (simp add: oid_content_def oid_ifindex_col_def)
  moreover have "length (oid_content oid_ifindex_col) = 9" by code_simp
  ultimately show ?thesis using assms by (simp add: sub_le_small unat_of_nat)
qed

lemma length_trap_bytes:
  assumes "length comm \<le> 400" "os \<in> trap_oids" "i < 128"
  shows "length (trap_bytes comm rid ticks os i) \<le> TRAP_BUF"
proof -
  define tk where "tk = tlv BER_TAG_TIMETICKS (rev (uint_tmp ticks))"
  define ov where "ov = tlv BER_TAG_OID (oid_content os)"
  define ifv where
    "ifv = (if i > 0 then trap_vb (oid_ifindex_col @ [of_nat i]) (int_tlv (of_nat i)) else [])"
  define vbs where "vbs = trap_vb oid_sysuptime tk @ trap_vb oid_trapoid ov @ ifv"
  define pdu where "pdu = int_tlv rid @ int_tlv 0 @ int_tlv 0 @ tlv BER_TAG_SEQUENCE vbs"
  define msg where "msg = int_tlv 1 @ tlv BER_TAG_OCTET_STR comm @ tlv SNMP_PDU_TRAP_V2 pdu"
  have tk: "length tk \<le> 7"
    using uint_tmp_length(1) [of ticks] by (simp add: tk_def length_tlv_short)
  have ov: "length ov = 11" using assms(2) by (auto simp: ov_def trap_oids_def length_tlv_short length_oid_const)
  have "length ifv \<le> 20"
    using length_int_tlv [of "of_nat i"] assms(3)
    by (auto simp: ifv_def length_trap_vb length_oid_ifindex)
  then have "length vbs \<le> 64"
    using tk ov by (simp add: vbs_def length_trap_vb length_oid_const)
  then have pdu: "length pdu \<le> 84"
    using length_int_tlv [of rid] length_int_tlv [of 0] by (simp add: pdu_def length_tlv_short)
  have "length msg \<le> 6 + (length comm + 4) + 86"
    using length_int_tlv [of 1] length_tlv [of comm BER_TAG_OCTET_STR] assms(1) pdu
    by (simp add: msg_def length_tlv_short)
  then have "length (tlv BER_TAG_SEQUENCE msg) \<le> 512"
    using length_tlv [of msg BER_TAG_SEQUENCE] assms(1) by simp
  then show ?thesis
    by (simp add: trap_bytes_def TRAP_BUF_def msg_def pdu_def vbs_def tk_def ov_def ifv_def)
qed

section \<open>Sending\<close>

definition trap_ready :: "trap_state \<Rightarrow> bool" where
  "trap_ready s \<longleftrightarrow> sock_open s \<and> length (trap_buf s) = TRAP_BUF \<and> length (last_oper s) = SIM_SWITCH_MAX_IF"

abbreviation trap_pkt :: "bytes \<Rightarrow> mib_state \<Rightarrow> trap_world \<Rightarrow> u32 \<Rightarrow> oid \<Rightarrow> nat \<Rightarrow> bytes" where
  "trap_pkt comm m w rid os i \<equiv> trap_bytes comm rid (mib_sys_uptime m (w_now w)) os i"

lemma send_trap_sends:
  assumes "trap_ready s" "mgr_resolved s" "length comm \<le> 400" "os \<in> trap_oids" "i < 128"
  shows "send_trap comm m w os i s =
    s\<lparr>trap_request_id := trap_request_id s + 1,
      trap_buf := be_base (prepend (ber_enc_init (trap_buf s) TRAP_BUF)
        (trap_pkt comm m w (trap_request_id s + 1) os i)),
      sent := sent s @ [(mgr_addr s, trap_pkt comm m w (trap_request_id s + 1) os i)],
      mgr_resolved := w_send_ok w (trap_pkt comm m w (trap_request_id s + 1) os i)\<rparr>"
proof -
  let ?p = "trap_pkt comm m w (trap_request_id s + 1) os i"
  have len: "length ?p \<le> TRAP_BUF" using assms(3-5) by (rule length_trap_bytes)
  moreover have "?p \<noteq> []" by (simp add: trap_bytes_def)
  moreover have "drop (TRAP_BUF - length ?p) (be_base (prepend (ber_enc_init (trap_buf s) TRAP_BUF) ?p)) = ?p"
    using assms(1) len by (intro init_data) (simp_all add: trap_ready_def)
  ultimately show ?thesis
    using assms(1,2) by (simp add: send_trap_def trap_ready_def Let_def encode_trap_prepend init_length)
qed

lemma send_trap_quiet: "\<not> mgr_resolved s \<Longrightarrow> send_trap comm m w os i s = s"
  by (simp add: send_trap_def)

lemma send_trap_frame [simp]:
  "last_oper (send_trap comm m w os i s) = last_oper s"
  "coldstart_pending (send_trap comm m w os i s) = coldstart_pending s"
  "sock_open (send_trap comm m w os i s) = sock_open s"
  "mgr_addr (send_trap comm m w os i s) = mgr_addr s"
  by (simp_all add: send_trap_def Let_def)

lemma send_trap_ready: "trap_ready s \<Longrightarrow> trap_ready (send_trap comm m w os i s)"
  by (simp add: trap_ready_def send_trap_def Let_def encode_trap_prepend init_base_length)

lemma watch_if_ready: "trap_ready s \<Longrightarrow> trap_ready (watch_if comm m w sim i s)"
  by (auto simp: watch_if_def Let_def intro!: send_trap_ready) (simp_all add: trap_ready_def)

definition trap_of :: "sim_state \<Rightarrow> nat \<Rightarrow> oid" where
  "trap_of sim i = (if sim_switch_if_oper_status sim i = SIM_IF_DOWN then oid_linkdown else oid_linkup)"

text \<open>The notifications of one pass over \<open>is\<close>, numbered from request id \<open>rid\<close>.\<close>

fun link_traps :: "bytes \<Rightarrow> mib_state \<Rightarrow> trap_world \<Rightarrow> sim_state \<Rightarrow> u32 \<Rightarrow> nat list \<Rightarrow> bytes list" where
  "link_traps comm m w sim rid [] = []"
| "link_traps comm m w sim rid (i # is) =
     trap_pkt comm m w (rid + 1) (trap_of sim i) (i + 1) # link_traps comm m w sim (rid + 1) is"

lemma watch_ifs_reports:
  fixes m :: mib_state and sim :: sim_state and w :: trap_world
  assumes "trap_ready s" "mgr_resolved s" "length comm \<le> 400" "\<And>p. w_send_ok w p"
    and "distinct is" "\<forall>i \<in> set is. i < SIM_SWITCH_MAX_IF"
  defines "s' \<equiv> watch_ifs comm m w sim is s"
  shows "sent s' = sent s @ map (Pair (mgr_addr s)) (link_traps comm m w sim (trap_request_id s)
      (filter (\<lambda>i. sim_switch_if_oper_status sim i \<noteq> last_oper s ! i) is))
    \<and> (\<forall>i < SIM_SWITCH_MAX_IF. last_oper s' ! i =
        (if i \<in> set is then sim_switch_if_oper_status sim i else last_oper s ! i))
    \<and> trap_ready s' \<and> mgr_resolved s' \<and> coldstart_pending s' = coldstart_pending s"
  using assms(1,2,5,6) unfolding s'_def
proof (induction "is" arbitrary: s)
  case Nil
  then show ?case by (simp add: watch_ifs_def)
next
  case (Cons i "is")
  let ?now = "sim_switch_if_oper_status sim i"
  let ?s = "watch_if comm m w sim i s"
  have i8: "i < SIM_SWITCH_MAX_IF" and ni: "i \<notin> set is" using Cons.prems by simp_all
  have step: "watch_ifs comm m w sim (i # is) s = watch_ifs comm m w sim is ?s"
    by (simp add: watch_ifs_def)
  show ?case
  proof (cases "?now = last_oper s ! i")
    case True
    then have "?s = s" by (simp add: watch_if_def)
    then show ?thesis
      unfolding step using Cons.IH [of s] Cons.prems True by simp
  next
    case False
    let ?t = "s\<lparr>last_oper := (last_oper s)[i := ?now]\<rparr>"
    have rt: "trap_ready ?t" "mgr_resolved ?t" using Cons.prems by (simp_all add: trap_ready_def)
    have os: "trap_of sim i \<in> trap_oids" by (simp add: trap_of_def trap_oids_def)
    have s: "?s = send_trap comm m w (trap_of sim i) (i + 1) ?t"
      using False by (simp add: watch_if_def trap_of_def Let_def)
    note snd = send_trap_sends [OF rt assms(3) os, of "i + 1" m w]
    have f: "sent ?s = sent s @ [(mgr_addr s, trap_pkt comm m w (trap_request_id s + 1) (trap_of sim i) (i + 1))]"
      "trap_request_id ?s = trap_request_id s + 1" "mgr_resolved ?s" "mgr_addr ?s = mgr_addr s"
      "last_oper ?s = (last_oper s)[i := ?now]" "coldstart_pending ?s = coldstart_pending s"
      unfolding s using snd i8 assms(4) by (simp_all add: SIM_SWITCH_MAX_IF_def)
    have "trap_ready ?s" unfolding s by (rule send_trap_ready [OF rt(1)])
    moreover have "filter (\<lambda>k. sim_switch_if_oper_status sim k \<noteq> last_oper ?s ! k) is
        = filter (\<lambda>k. sim_switch_if_oper_status sim k \<noteq> last_oper s ! k) is"
    proof (rule filter_cong)
      fix k assume "k \<in> set is"
      with ni have "k \<noteq> i" by blast
      then show "(sim_switch_if_oper_status sim k \<noteq> last_oper ?s ! k)
          = (sim_switch_if_oper_status sim k \<noteq> last_oper s ! k)"
        unfolding f(5) by simp
    qed simp
    ultimately show ?thesis
      unfolding step using Cons.IH [of ?s] Cons.prems(3,4) f False ni Cons.prems(1)
      by (auto simp: nth_list_update trap_ready_def)
  qed
qed

text \<open>
  C36. With the manager known and the network accepting datagrams, one pass of the watcher sends
  exactly one notification per interface whose state differs from the one last seen, linkDown
  or linkUp, in interface order with consecutive request ids; a second pass over the same
  interface states sends nothing.
\<close>

theorem trap_tick_reports_transitions:
  fixes m :: mib_state and sim :: sim_state and w :: trap_world
  assumes "trap_ready s" "mgr_resolved s" "\<not> coldstart_pending s" "length comm \<le> 400"
    and "\<And>p. w_send_ok w p" "if_count sim \<le> SIM_SWITCH_MAX_IF"
  shows "sent (trap_tick comm m w sim s) = sent s @ map (Pair (mgr_addr s))
      (link_traps comm m w sim (trap_request_id s)
        (filter (\<lambda>i. sim_switch_if_oper_status sim i \<noteq> last_oper s ! i) [0..<if_count sim]))
    \<and> sent (trap_tick comm m w sim (trap_tick comm m w sim s)) = sent (trap_tick comm m w sim s)"
proof -
  have tick: "trap_tick comm m w sim s = watch_ifs comm m w sim [0..<if_count sim] s"
    if "mgr_resolved s" "\<not> coldstart_pending s" for s
    using that by (simp add: trap_tick_def sim_switch_if_count_def)
  have rng: "\<forall>i \<in> set [0..<if_count sim]. i < SIM_SWITCH_MAX_IF" using assms(6) by simp
  note one = watch_ifs_reports [OF assms(1,2,4,5) distinct_upt rng]
  let ?s = "watch_ifs comm m w sim [0..<if_count sim] s"
  have s: "trap_ready ?s" "mgr_resolved ?s" "\<not> coldstart_pending ?s"
    using one [of m sim] assms(3) by blast+
  have "filter (\<lambda>i. sim_switch_if_oper_status sim i \<noteq> last_oper ?s ! i) [0..<if_count sim] = []"
    using one [of m sim] assms(6) by (simp add: filter_empty_conv)
  then show ?thesis
    using one [of m sim] watch_ifs_reports [OF s(1,2) assms(4,5) distinct_upt rng, of m sim]
    by (simp add: tick [OF assms(2,3)] tick [OF s(2,3)])
qed

definition sample_trap_state :: trap_state where
  "sample_trap_state =
     \<lparr>trap_buf = replicate 512 0, sock_open = True, mgr_addr = 1, mgr_resolved = True,
      coldstart_pending = False, trap_request_id = 0, last_oper = replicate 8 SIM_IF_UP, sent = []\<rparr>"

definition sample_trap_world :: trap_world where
  "sample_trap_world = \<lparr>w_literal = None, w_lookup = None, w_now = 0, w_send_ok = (\<lambda>p. True)\<rparr>"

theorem trap_tick_reports_transitions_witness:
  "sent (trap_tick (ascii ''public'') (v_mib default_view) sample_trap_world (data_source_init 5 15)
     (sample_trap_state\<lparr>last_oper := (replicate 8 SIM_IF_UP)[2 := SIM_IF_DOWN]\<rparr>))
   = [(1, trap_pkt (ascii ''public'') (v_mib default_view) sample_trap_world 1 oid_linkup 3)]"
proof -
  let ?s = "sample_trap_state\<lparr>last_oper := (replicate 8 SIM_IF_UP)[2 := SIM_IF_DOWN]\<rparr>"
  have "filter (\<lambda>i. sim_switch_if_oper_status (data_source_init 5 15) i \<noteq> last_oper ?s ! i)
      [0..<if_count (data_source_init 5 15)] = [2]"
    by code_simp
  moreover have "if_count (data_source_init 5 15) \<le> SIM_SWITCH_MAX_IF" by code_simp
  moreover have "trap_of (data_source_init 5 15) 2 = oid_linkup" by code_simp
  ultimately show ?thesis
    using trap_tick_reports_transitions [of ?s "ascii ''public''" sample_trap_world
        "data_source_init 5 15" "v_mib default_view"]
    by (simp add: sample_trap_state_def sample_trap_world_def trap_ready_def TRAP_BUF_def SIM_SWITCH_MAX_IF_def)
qed

lemma watch_ifs_unresolved:
  "\<not> mgr_resolved s \<Longrightarrow> length (last_oper s) = SIM_SWITCH_MAX_IF \<Longrightarrow> \<forall>i \<in> set is. i < SIM_SWITCH_MAX_IF \<Longrightarrow>
    sent (watch_ifs comm m w sim is s) = sent s
    \<and> coldstart_pending (watch_ifs comm m w sim is s) = coldstart_pending s
    \<and> \<not> mgr_resolved (watch_ifs comm m w sim is s)
    \<and> (\<forall>i < SIM_SWITCH_MAX_IF. last_oper (watch_ifs comm m w sim is s) ! i =
        (if i \<in> set is then sim_switch_if_oper_status sim i else last_oper s ! i))"
proof (induction "is" arbitrary: s)
  case Nil
  then show ?case by (simp add: watch_ifs_def)
next
  case (Cons i "is")
  have "watch_if comm m w sim i s = s\<lparr>last_oper := (last_oper s)[i := sim_switch_if_oper_status sim i]\<rparr>"
    using Cons.prems(1) by (auto simp: watch_if_def Let_def send_trap_quiet)
  then show ?case
    using Cons.IH [of "watch_if comm m w sim i s"] Cons.prems
    by (auto simp: watch_ifs_def nth_list_update)
qed

text \<open>
  While the manager cannot be resolved nothing is sent and a pending coldStart stays
  pending, yet the watcher records the interface states it saw: a transition in that time is
  not reported later.
\<close>

theorem trap_tick_unresolved:
  assumes "\<not> mgr_resolved s" "length (last_oper s) = SIM_SWITCH_MAX_IF"
    and "w_literal w = None" "w_lookup w = None" "if_count sim \<le> SIM_SWITCH_MAX_IF"
  shows "sent (trap_tick comm m w sim s) = sent s
    \<and> coldstart_pending (trap_tick comm m w sim s) = coldstart_pending s
    \<and> (\<forall>i < if_count sim. last_oper (trap_tick comm m w sim s) ! i = sim_switch_if_oper_status sim i)"
proof -
  have "trap_tick comm m w sim s = watch_ifs comm m w sim [0..<if_count sim] (s\<lparr>mgr_resolved := False\<rparr>)"
    using assms(1,3,4) by (simp add: trap_tick_def resolve_manager_def sim_switch_if_count_def Let_def)
  then show ?thesis
    using watch_ifs_unresolved [of "s\<lparr>mgr_resolved := False\<rparr>" "[0..<if_count sim]" comm m w sim] assms(2,5)
    by simp
qed

theorem trap_tick_unresolved_witness:
  "sent (trap_tick (ascii ''public'') (v_mib default_view) sample_trap_world (data_source_init 5 15)
     (sample_trap_state\<lparr>mgr_resolved := False\<rparr>)) = []"
proof -
  have "if_count (data_source_init 5 15) \<le> SIM_SWITCH_MAX_IF" by code_simp
  then show ?thesis
    using trap_tick_unresolved [of "sample_trap_state\<lparr>mgr_resolved := False\<rparr>" sample_trap_world
        "data_source_init 5 15" "ascii ''public''" "v_mib default_view"]
    by (simp add: sample_trap_state_def sample_trap_world_def SIM_SWITCH_MAX_IF_def)
qed

lemma watch_ifs_appends:
  "coldstart_pending (watch_ifs comm m w sim is s) = coldstart_pending s
    \<and> (\<exists>rest. sent (watch_ifs comm m w sim is s) = sent s @ rest)"
proof (induction "is" arbitrary: s)
  case Nil
  then show ?case by (simp add: watch_ifs_def)
next
  case (Cons i "is")
  have "\<exists>rest. sent (send_trap comm m w os k (s\<lparr>last_oper := lo\<rparr>)) = sent s @ rest" for os k lo
    by (simp add: send_trap_def Let_def)
  then have "coldstart_pending (watch_if comm m w sim i s) = coldstart_pending s
      \<and> (\<exists>rest. sent (watch_if comm m w sim i s) = sent s @ rest)"
    by (auto simp: watch_if_def Let_def)
  then show ?case
    using Cons.IH [of "watch_if comm m w sim i s"] by (auto simp: watch_ifs_def)
qed

text \<open>
  A deferred coldStart is attempted exactly once, in the first pass that resolves the
  manager. Its pending flag is cleared before the datagram is handed to the socket, so a
  coldStart whose send fails is not tried again.
\<close>

theorem coldstart_attempted_once:
  fixes m :: mib_state and sim :: sim_state and w :: trap_world
  assumes "trap_ready s" "\<not> mgr_resolved s" "coldstart_pending s" "length comm \<le> 400"
    and "w_literal w = Some a"
  shows "(\<exists>rest. sent (trap_tick comm m w sim s)
      = sent s @ (a, trap_pkt comm m w (trap_request_id s + 1) oid_coldstart 0) # rest)
    \<and> \<not> coldstart_pending (trap_tick comm m w sim s)"
proof -
  let ?s = "s\<lparr>mgr_addr := a, mgr_resolved := True, coldstart_pending := False\<rparr>"
  have "trap_tick comm m w sim s
      = watch_ifs comm m w sim [0..<if_count sim] (send_trap comm m w oid_coldstart 0 ?s)"
    using assms(2,3,5) by (simp add: trap_tick_def resolve_manager_def sim_switch_if_count_def Let_def)
  moreover have "trap_ready ?s" "oid_coldstart \<in> trap_oids"
    using assms(1) by (simp_all add: trap_ready_def trap_oids_def)
  ultimately show ?thesis
    using send_trap_sends [of ?s comm oid_coldstart 0 m w] assms(4)
      watch_ifs_appends [of comm m w sim "[0..<if_count sim]" "send_trap comm m w oid_coldstart 0 ?s"]
    by auto
qed

theorem coldstart_attempted_once_witness:
  "\<not> coldstart_pending (trap_tick (ascii ''public'') (v_mib default_view)
     (sample_trap_world\<lparr>w_literal := Some 5, w_send_ok := (\<lambda>p. False)\<rparr>) (data_source_init 5 15)
     (sample_trap_state\<lparr>mgr_resolved := False, coldstart_pending := True\<rparr>))"
  using coldstart_attempted_once [of "sample_trap_state\<lparr>mgr_resolved := False, coldstart_pending := True\<rparr>"
      "ascii ''public''" "sample_trap_world\<lparr>w_literal := Some 5, w_send_ok := (\<lambda>p. False)\<rparr>" 5
      "v_mib default_view" "data_source_init 5 15"]
  by (simp add: sample_trap_state_def sample_trap_world_def trap_ready_def TRAP_BUF_def SIM_SWITCH_MAX_IF_def)

end
