(* ===== verification/Snmp_Listener.thy ===== *)
theory Snmp_Listener
  imports Trap
begin

text \<open>
  The listener thread of \<^verbatim>\<open>src/lib/snmp/snmp_agent.c\<close> around \<open>handle_request\<close>, and
  \<open>snmp_agent_start\<close>. One turn of the thread is one poll of at most five seconds with what it leads
  to; the results of the socket calls come in with the turn.
\<close>

section \<open>The thread\<close>

text \<open>
  The view of the device at the time of the request, the result of the poll, and of \<open>recvfrom\<close>: an
  error, or the datagram, which may be empty (the return value 0).
\<close>

record snmp_turn_in =
  si_view :: mib_view
  si_poll :: int
  si_recv :: "errno + bytes"

datatype snmp_call = Alive | SleepMs nat | SendTo bytes

definition SNMP_RX_BUF :: nat where "SNMP_RX_BUF = 1500"

text \<open>The thread's state is the transmit buffer. A datagram longer than the receive buffer is cut.\<close>

definition snmp_listener_turn :: "agent_cfg \<Rightarrow> snmp_turn_in \<Rightarrow> bytes \<Rightarrow> snmp_call list \<times> bytes" where
  "snmp_listener_turn cfg ti tx =
     (if si_poll ti = 0 then ([Alive], tx)
      else if si_poll ti < 0 then ([Alive, SleepMs 100], tx)
      else case si_recv ti of
          Inl e \<Rightarrow> ([Alive, SleepMs 100], tx)
        | Inr dgram \<Rightarrow>
            (let buf = take SNMP_RX_BUF dgram
             in if buf = [] then ([Alive], tx)
                else case snmp_reply cfg (si_view ti) tx buf of
                    (None, tx) \<Rightarrow> ([Alive], tx)
                  | (Some resp, tx) \<Rightarrow> ([Alive, SendTo resp], tx)))"

fun snmp_listener :: "agent_cfg \<Rightarrow> snmp_turn_in list \<Rightarrow> bytes \<Rightarrow> snmp_call list list" where
  "snmp_listener cfg [] tx = []"
| "snmp_listener cfg (ti # tis) tx =
     (let (calls, tx) = snmp_listener_turn cfg ti tx in calls # snmp_listener cfg tis tx)"

section \<open>Start\<close>

text \<open>
  The simulation and the view are set up before any socket; a failing call ends the start, with no
  thread and no trap watcher. \<open>agent_sock\<close> is the descriptor kept, \<open>-1\<close> for none.
\<close>

record start_in =
  st_socket :: "errno + int"
  st_bind :: rc
  st_traps :: bool

datatype start_call = DataSourceInit | MibInit | CloseSocket int | ListenerThread int | TrapStart

definition snmp_agent_start :: "start_in \<Rightarrow> start_call list \<times> rc \<times> int" where
  "snmp_agent_start io =
     (case st_socket io of
        Inl e \<Rightarrow> ([DataSourceInit, MibInit], Err e, -1)
      | Inr fd \<Rightarrow>
          (case st_bind io of
             Err e \<Rightarrow> ([DataSourceInit, MibInit, CloseSocket fd], Err e, -1)
           | OK \<Rightarrow> ([DataSourceInit, MibInit, ListenerThread fd] @ (if st_traps io then [TrapStart] else []), OK, fd)))"

section \<open>Every datagram is answered on its own\<close>

lemma handle_request_buffer:
  assumes "agent_cfg_ok cfg" "length tx = SNMP_TX_BUF"
  shows "length (snd (handle_request cfg v tx buf)) = SNMP_TX_BUF"
proof (cases "parse_request cfg buf")
  case None
  then show ?thesis using assms(2) by (simp add: handle_request_def)
next
  case (Some r)
  obtain tx' where "length tx' = SNMP_TX_BUF"
    "respond cfg v tx r = prepend (ber_enc_init tx' SNMP_TX_BUF) (agent_answer cfg v r)"
    using respond_prepend [OF assms(1) Some assms(2)] by blast
  then show ?thesis using init_base_length [of tx' SNMP_TX_BUF] by (simp add: handle_request_def Some Let_def)
qed

lemma snmp_reply_spec:
  assumes "agent_cfg_ok cfg" "length tx = SNMP_TX_BUF"
  obtains tx' where "snmp_reply cfg v tx buf = (map_option (agent_answer cfg v) (parse_request cfg buf), tx')"
    and "length tx' = SNMP_TX_BUF"
proof -
  have "fst (snmp_reply cfg v tx buf) = map_option (agent_answer cfg v) (parse_request cfg buf)"
    using snmp_reply_answer [OF assms(1) _ assms(2)] snmp_reply_dropped by (cases "parse_request cfg buf") simp_all
  moreover have "length (snd (snmp_reply cfg v tx buf)) = SNMP_TX_BUF"
    using handle_request_buffer [OF assms, of v buf]
    by (cases "handle_request cfg v tx buf") (simp add: snmp_reply_def)
  ultimately show ?thesis using that by (cases "snmp_reply cfg v tx buf") simp
qed

text \<open>What a turn does, as a function of its datagram and the view alone.\<close>

definition answer_turn :: "agent_cfg \<Rightarrow> snmp_turn_in \<Rightarrow> snmp_call list" where
  "answer_turn cfg ti =
     Alive # (if si_poll ti = 0 then []
       else if si_poll ti < 0 \<or> (\<exists>e. si_recv ti = Inl e) then [SleepMs 100]
       else case si_recv ti of
           Inl e \<Rightarrow> []
         | Inr dgram \<Rightarrow>
             (if dgram = [] then []
              else case parse_request cfg (take SNMP_RX_BUF dgram) of
                  None \<Rightarrow> [] | Some r \<Rightarrow> [SendTo (agent_answer cfg (si_view ti) r)]))"

lemma listener_turn_answers:
  assumes "agent_cfg_ok cfg" "length tx = SNMP_TX_BUF"
  shows "fst (snmp_listener_turn cfg ti tx) = answer_turn cfg ti \<and> length (snd (snmp_listener_turn cfg ti tx)) = SNMP_TX_BUF"
proof (cases "si_poll ti \<le> 0")
  case True
  then show ?thesis using assms(2) by (auto simp: snmp_listener_turn_def answer_turn_def)
next
  case poll: False
  show ?thesis
  proof (cases "si_recv ti")
    case (Inl e)
    then show ?thesis using poll assms(2) by (simp add: snmp_listener_turn_def answer_turn_def)
  next
    case (Inr dgram)
    obtain tx' where "snmp_reply cfg (si_view ti) tx (take SNMP_RX_BUF dgram)
        = (map_option (agent_answer cfg (si_view ti)) (parse_request cfg (take SNMP_RX_BUF dgram)), tx')"
      "length tx' = SNMP_TX_BUF"
      using snmp_reply_spec [OF assms] by blast
    then show ?thesis
      using poll Inr assms(2) by (auto simp: snmp_listener_turn_def answer_turn_def Let_def SNMP_RX_BUF_def split: option.split)
  qed
qed



end
