(* ===== verification/Controls.thy ===== *)
theory Controls
  imports Prelude
begin

text \<open>
  The writable control points of \<^verbatim>\<open>src/lib/common/controls.c\<close> and the two frontends that write
  them: the Modbus object callbacks and the reply path of \<^verbatim>\<open>src/lib/modbus/modbus_server.c\<close>, and
  the cloud parameters of \<^verbatim>\<open>src/apps/modbus-server/src/tedge_glue.c\<close>. \<open>int32_t\<close> control values
  are \<open>int\<close>: no operation on them can overflow.
\<close>

section \<open>Control points\<close>

record control_cfg =
  setpoint_min :: int
  setpoint_max :: int
  setpoint_default :: int
  running_default :: bool
  mode_default :: int

record controls =
  g_setpoint :: int
  g_running :: bool
  g_mode :: int
  g_local_writes :: bool

definition controls_init :: "control_cfg \<Rightarrow> controls" where
  "controls_init cfg =
     \<lparr>g_setpoint = setpoint_default cfg, g_running = running_default cfg,
      g_mode = mode_default cfg, g_local_writes = True\<rparr>"

definition app_control_set_setpoint :: "control_cfg \<Rightarrow> int \<Rightarrow> controls \<Rightarrow> int \<times> controls" where
  "app_control_set_setpoint cfg value c =
     (let clamped = value;
          clamped = (if clamped < setpoint_min cfg then setpoint_min cfg else clamped);
          clamped = (if clamped > setpoint_max cfg then setpoint_max cfg else clamped)
      in (clamped, c\<lparr>g_setpoint := clamped\<rparr>))"

definition app_control_set_running :: "bool \<Rightarrow> controls \<Rightarrow> controls" where
  "app_control_set_running value c = c\<lparr>g_running := value\<rparr>"

definition app_control_set_mode :: "int \<Rightarrow> controls \<Rightarrow> int \<times> controls" where
  "app_control_set_mode value c =
     (let value = (if value < 0 then 0 else value);
          value = (if value > 2 then 2 else value)
      in (value, c\<lparr>g_mode := value\<rparr>))"

definition app_control_set_local_writes :: "bool \<Rightarrow> controls \<Rightarrow> controls" where
  "app_control_set_local_writes allowed c = c\<lparr>g_local_writes := allowed\<rparr>"

section \<open>Modbus object callbacks\<close>

text \<open>
  What the input registers and discrete inputs read from other modules. The floating-point
  conversions are parameters: \<open>scaled meas k\<close> is \<open>(uint32_t)(sample(meas) * k)\<close> before the cast
  to 16 bits, \<open>fbits meas\<close> the bits of the sample as a \<open>float\<close>.
\<close>

record modbus_inputs =
  scaled :: "nat \<Rightarrow> nat \<Rightarrow> u32"
  fbits :: "nat \<Rightarrow> u32"
  sim_fault :: bool
  net_connected :: bool

abbreviation (input) MEAS_FLOW :: nat where "MEAS_FLOW \<equiv> 0"
abbreviation (input) MEAS_PRESSURE :: nat where "MEAS_PRESSURE \<equiv> 1"
abbreviation (input) MEAS_MOTOR_TEMP :: nat where "MEAS_MOTOR_TEMP \<equiv> 2"
abbreviation (input) MEAS_RPM :: nat where "MEAS_RPM \<equiv> 3"
abbreviation (input) MEAS_VIBRATION :: nat where "MEAS_VIBRATION \<equiv> 4"
abbreviation (input) MEAS_RUN_HOURS :: nat where "MEAS_RUN_HOURS \<equiv> 5"

definition be_word :: "u32 \<Rightarrow> nat \<Rightarrow> u16" where
  "be_word v word = (if word = 0 then ucast (drop_bit 16 v) else ucast (v AND 0xFFFF))"

definition input_reg_rd :: "modbus_inputs \<Rightarrow> u16 \<Rightarrow> errno + u16" where
  "input_reg_rd i addr =
     (if addr = 0 then Inr (ucast (scaled i MEAS_FLOW 10))
      else if addr = 1 then Inr (ucast (scaled i MEAS_PRESSURE 100))
      else if addr = 2 then Inr (ucast (scaled i MEAS_MOTOR_TEMP 10))
      else if addr = 3 then Inr (ucast (scaled i MEAS_RPM 1))
      else if addr = 4 then Inr (ucast (scaled i MEAS_VIBRATION 100))
      else if addr = 10 \<or> addr = 11 then Inr (be_word (scaled i MEAS_RUN_HOURS 3600) (unat addr - 10))
      else if addr = 20 \<or> addr = 21 then Inr (be_word (fbits i MEAS_FLOW) (unat addr - 20))
      else if addr = 22 \<or> addr = 23 then Inr (be_word (fbits i MEAS_PRESSURE) (unat addr - 22))
      else if addr = 24 \<or> addr = 25 then Inr (be_word (fbits i MEAS_MOTOR_TEMP) (unat addr - 24))
      else Inl ENOTSUP)"

definition holding_reg_rd :: "controls \<Rightarrow> u16 \<Rightarrow> errno + u16" where
  "holding_reg_rd c addr =
     (if addr = 0 then Inr (word_of_int (g_setpoint c))
      else if addr = 1 then Inr (word_of_int (g_mode c))
      else Inl ENOTSUP)"

definition control_write_allowed :: "controls \<Rightarrow> bool" where
  "control_write_allowed c = g_local_writes c"

definition holding_reg_wr :: "control_cfg \<Rightarrow> u16 \<Rightarrow> u16 \<Rightarrow> controls \<Rightarrow> rc \<times> controls" where
  "holding_reg_wr cfg addr reg c =
     (if addr \<le> 1 \<and> \<not> control_write_allowed c then (Err EACCES, c)
      else if addr = 0 then (OK, snd (app_control_set_setpoint cfg (uint reg) c))
      else if addr = 1 then (OK, snd (app_control_set_mode (uint reg) c))
      else (Err ENOTSUP, c))"

definition coil_rd :: "controls \<Rightarrow> u16 \<Rightarrow> errno + bool" where
  "coil_rd c addr = (if addr \<noteq> 0 then Inl ENOTSUP else Inr (g_running c))"

definition coil_wr :: "u16 \<Rightarrow> bool \<Rightarrow> controls \<Rightarrow> rc \<times> controls" where
  "coil_wr addr state c =
     (if addr \<noteq> 0 then (Err ENOTSUP, c)
      else if \<not> control_write_allowed c then (Err EACCES, c)
      else (OK, app_control_set_running state c))"

definition discrete_input_rd :: "modbus_inputs \<Rightarrow> controls \<Rightarrow> u16 \<Rightarrow> errno + bool" where
  "discrete_input_rd i c addr =
     (if addr = 0 then Inr (g_running c)
      else if addr = 1 then Inr (sim_fault i)
      else if addr = 2 then Inr (net_connected i)
      else Inl ENOTSUP)"

section \<open>Cloud parameters\<close>

text \<open>
  The parameter store of the cloud client, which is not part of this repository: a getter
  returns a value, or fails and leaves its output variable as it was.
\<close>

record tedge_params =
  get_bool :: "string \<Rightarrow> bool option"
  get_int :: "string \<Rightarrow> int option"
  get_string :: "string \<Rightarrow> string option"

definition mode_names :: "string list" where
  "mode_names = [''off'', ''auto'', ''manual'']"

definition control_apply :: "control_cfg \<Rightarrow> tedge_params \<Rightarrow> controls \<Rightarrow> controls" where
  "control_apply cfg p c =
     (let running = (case get_bool p ''running'' of Some b \<Rightarrow> b | None \<Rightarrow> running_default cfg);
          local = (case get_bool p ''local_writes'' of Some b \<Rightarrow> b | None \<Rightarrow> True);
          setpoint = (case get_int p ''speed_setpoint'' of Some v \<Rightarrow> v | None \<Rightarrow> setpoint_default cfg);
          mode = (case get_string p ''mode'' of
                    None \<Rightarrow> mode_default cfg
                  | Some name \<Rightarrow> fold (\<lambda>i m. if name = mode_names ! i then int i else m)
                      [0..<length mode_names] (mode_default cfg));
          c = snd (app_control_set_mode mode c);
          c = snd (app_control_set_setpoint cfg setpoint c);
          c = app_control_set_running running c
      in app_control_set_local_writes local c)"

record telemetry_cfg =
  interval_default :: int
  type_default :: string

definition param_interval_s :: "telemetry_cfg \<Rightarrow> tedge_params \<Rightarrow> int" where
  "param_interval_s t p = (case get_int p ''interval_s'' of Some s \<Rightarrow> s | None \<Rightarrow> interval_default t)"

definition param_telemetry_on :: "tedge_params \<Rightarrow> bool" where
  "param_telemetry_on p = (case get_bool p ''telemetry'' of Some b \<Rightarrow> b | None \<Rightarrow> True)"

definition param_measurement_type :: "telemetry_cfg \<Rightarrow> tedge_params \<Rightarrow> string" where
  "param_measurement_type t p =
     (case get_string p ''measurement_type'' of
        Some s \<Rightarrow> if s \<noteq> [] then s else type_default t
      | None \<Rightarrow> type_default t)"

text \<open>
  \<open>params_changed\<close>: the verdict, and the delay the telemetry work is rescheduled with when the
  new parameters are accepted.
\<close>

definition params_changed :: "telemetry_cfg \<Rightarrow> tedge_params \<Rightarrow> rc \<times> int option" where
  "params_changed t p =
     (if list_ex (\<lambda>ch. ch = CHR '' '' \<or> ch = CHR 0x09) (param_measurement_type t p)
      then (Err EINVAL, None)
      else (OK, Some (param_interval_s t p)))"

section \<open>Every writer, as events\<close>

datatype control_event =
    HoldingWrite u16 u16
  | CoilWrite u16 bool
  | ParamsApplied tedge_params

definition control_react :: "control_cfg \<Rightarrow> control_event \<Rightarrow> controls \<Rightarrow> controls" where
  "control_react cfg e c =
     (case e of
        HoldingWrite a r \<Rightarrow> snd (holding_reg_wr cfg a r c)
      | CoilWrite a b \<Rightarrow> snd (coil_wr a b c)
      | ParamsApplied p \<Rightarrow> control_apply cfg p c)"

definition control_cfg_ok :: "control_cfg \<Rightarrow> bool" where
  "control_cfg_ok cfg \<longleftrightarrow>
     setpoint_min cfg \<le> setpoint_default cfg \<and> setpoint_default cfg \<le> setpoint_max cfg
     \<and> 0 \<le> mode_default cfg \<and> mode_default cfg \<le> 2"

text \<open>
  The invariant of the points, guarded by the configuration so that it can be stated of any.
\<close>

definition controls_ok :: "control_cfg \<Rightarrow> controls \<Rightarrow> bool" where
  "controls_ok cfg c \<longleftrightarrow>
     (control_cfg_ok cfg \<longrightarrow>
       setpoint_min cfg \<le> g_setpoint c \<and> g_setpoint c \<le> setpoint_max cfg
       \<and> 0 \<le> g_mode c \<and> g_mode c \<le> 2)"

lemma set_setpoint_ok: "controls_ok cfg c \<Longrightarrow> controls_ok cfg (snd (app_control_set_setpoint cfg v c))"
  by (auto simp: app_control_set_setpoint_def controls_ok_def control_cfg_ok_def Let_def)

lemma set_mode_ok: "controls_ok cfg c \<Longrightarrow> controls_ok cfg (snd (app_control_set_mode v c))"
  by (auto simp: app_control_set_mode_def controls_ok_def Let_def)

lemma set_flags_ok:
  "controls_ok cfg c \<Longrightarrow> controls_ok cfg (app_control_set_running b c)"
  "controls_ok cfg c \<Longrightarrow> controls_ok cfg (app_control_set_local_writes b c)"
  by (simp_all add: app_control_set_running_def app_control_set_local_writes_def controls_ok_def)

lemmas set_ok = set_setpoint_ok set_mode_ok set_flags_ok

lemma control_react_ok: "controls_ok cfg c \<Longrightarrow> controls_ok cfg (control_react cfg e c)"
  by (auto simp: control_react_def holding_reg_wr_def coil_wr_def control_apply_def Let_def set_ok
      split: control_event.split)

interpretation ctl: event_system "control_react cfg" "controls_ok cfg" for cfg
  by unfold_locales (rule control_react_ok)

text \<open>
  C37. Whatever mixture of Modbus writes and cloud parameter changes arrives, in any order, the
  setpoint stays in its configured range and the mode is off, auto or manual.
\<close>

theorem controls_always_in_range:
  assumes "control_cfg_ok cfg"
  shows "setpoint_min cfg \<le> g_setpoint (fold (control_react cfg) es (controls_init cfg))
    \<and> g_setpoint (fold (control_react cfg) es (controls_init cfg)) \<le> setpoint_max cfg
    \<and> g_mode (fold (control_react cfg) es (controls_init cfg)) \<in> {0, 1, 2}"
proof -
  have "controls_ok cfg (controls_init cfg)"
    by (simp add: controls_ok_def control_cfg_ok_def controls_init_def)
  then show ?thesis
    using ctl.run_keeps [of cfg "controls_init cfg" es] assms
    by (auto simp: ctl.run_def controls_ok_def)
qed

definition default_controls_cfg :: control_cfg where
  "default_controls_cfg =
     \<lparr>setpoint_min = -1000, setpoint_max = 1000, setpoint_default = 0, running_default = False,
      mode_default = 0\<rparr>"

theorem controls_always_in_range_witness:
  "g_setpoint (fold (control_react default_controls_cfg) [HoldingWrite 0 60000]
     (controls_init default_controls_cfg)) \<le> 1000"
  using controls_always_in_range [of default_controls_cfg "[HoldingWrite 0 60000]"]
  by (simp add: control_cfg_ok_def default_controls_cfg_def)

text \<open>
  While the cloud has taken the controls away, no Modbus write changes anything: writes to
  the three control points are refused and writes elsewhere are unsupported, and only a new
  parameter set can give the access back.
\<close>

theorem local_writes_refused:
  assumes "\<not> g_local_writes c" and "\<forall>e \<in> set es. \<forall>p. e \<noteq> ParamsApplied p"
  shows "fold (control_react cfg) es c = c
    \<and> fst (holding_reg_wr cfg a r c) = Err (if a \<le> 1 then EACCES else ENOTSUP)
    \<and> fst (coil_wr a b c) = Err (if a = 0 then EACCES else ENOTSUP)"
proof -
  have "control_react cfg e c = c" if "\<forall>p. e \<noteq> ParamsApplied p" for e
    using that assms(1) word_le_nat_alt [of a 1]
    by (cases e) (auto simp: control_react_def holding_reg_wr_def coil_wr_def control_write_allowed_def)
  then have "fold (control_react cfg) es c = c"
    using assms(2) by (induction es) auto
  then show ?thesis
    using assms(1) by (auto simp: holding_reg_wr_def coil_wr_def control_write_allowed_def)
qed

theorem local_writes_refused_witness:
  "fst (holding_reg_wr default_controls_cfg 1 2 (controls_init default_controls_cfg\<lparr>g_local_writes := False\<rparr>))
    = Err EACCES"
  using local_writes_refused [of "controls_init default_controls_cfg\<lparr>g_local_writes := False\<rparr>"
      "[]" default_controls_cfg 1 2 True]
  by simp

text \<open>
  An allowed Modbus write of the setpoint register stores the written value, clamped to the
  configured range, and a read gives that value back when it is not negative.
\<close>

theorem setpoint_write_read:
  assumes "g_local_writes c" "control_cfg_ok cfg"
    and "v = max (setpoint_min cfg) (min (setpoint_max cfg) (uint reg))" "0 \<le> v"
  shows "fst (holding_reg_wr cfg 0 reg c) = OK
    \<and> g_setpoint (snd (holding_reg_wr cfg 0 reg c)) = v
    \<and> (setpoint_max cfg < 65536 \<longrightarrow>
        map_sum id uint (holding_reg_rd (snd (holding_reg_wr cfg 0 reg c)) 0) = Inr v)"
proof -
  have v: "g_setpoint (snd (holding_reg_wr cfg 0 reg c)) = v"
    using assms
    by (auto simp: holding_reg_wr_def control_write_allowed_def app_control_set_setpoint_def
        control_cfg_ok_def Let_def max_def min_def)
  have "v < 65536" if "setpoint_max cfg < 65536" using assms(2,3) that by (auto simp: control_cfg_ok_def)
  then show ?thesis
    using assms(1,4) v
    by (auto simp: holding_reg_rd_def uint_word_of_int holding_reg_wr_def control_write_allowed_def)
qed

theorem setpoint_write_read_witness:
  "g_setpoint (snd (holding_reg_wr default_controls_cfg 0 1500 (controls_init default_controls_cfg))) = 1000"
proof -
  have "(1000 :: int) = max (setpoint_min default_controls_cfg)
      (min (setpoint_max default_controls_cfg) (uint (1500 :: u16)))"
    by (simp add: default_controls_cfg_def)
  from setpoint_write_read [OF _ _ this] show ?thesis
    by (simp add: controls_init_def control_cfg_ok_def default_controls_cfg_def)
qed

text \<open>
  The two registers of a 32-bit input value, high word first, determine it.
\<close>

theorem be_word_pair:
  "unat (be_word v 0) * 2 ^ 16 + unat (be_word v 1) = unat v"
proof -
  have hi: "unat (be_word v 0) = unat v div 2 ^ 16"
  proof -
    have "unat v < 2 ^ 16 * 2 ^ 16" using unsigned_less [of v, where 'a = nat] by simp
    then have "unat v div 2 ^ 16 < 2 ^ 16" by (rule less_mult_imp_div_less)
    then show ?thesis
      unfolding be_word_def by (simp add: unsigned_ucast_eq take_bit_nat_eq_self unat_drop_bit_eq
          drop_bit_eq_div unat_div)
  qed
  have "v AND 0xFFFF = take_bit 16 v" by (simp add: take_bit_eq_mask mask_eq_exp_minus_1)
  then have "unat (be_word v 1) = unat v mod 2 ^ 16"
    unfolding be_word_def by (simp add: unsigned_ucast_eq unsigned_take_bit_eq take_bit_eq_mod unat_mod)
  with hi show ?thesis by simp
qed

end
