(* ===== verification/Modbus.thy ===== *)
theory Modbus
  imports Controls
begin

text \<open>
  The connection side of \<^verbatim>\<open>src/lib/modbus/modbus_server.c\<close>: one request through \<open>serve_once\<close>, with
  the response handed over by the Modbus server's callback through \<open>tmp_adu\<close> and a semaphore,
  and the idle timeout of a client. Socket results, the raw Modbus server (Zephyr) and its
  timing are inputs.
\<close>

record modbus_adu =
  trans_id :: u16
  proto_id :: u16
  adu_length :: u16
  unit_id :: byte
  fc :: byte
  adu_data :: bytes

text \<open>
  \<open>tmp_adu\<close>, the count of the binary semaphore \<open>response_ready\<close>, and the log of ADUs sent.
\<close>

record server_state =
  tmp_adu :: modbus_adu
  response_ready :: bool
  replies :: "modbus_adu list"

text \<open>What an ADU is on the wire: as many bytes of its data as its length says.\<close>

definition adu_wire :: "modbus_adu \<Rightarrow> modbus_adu" where
  "adu_wire a = a\<lparr>adu_data := take (unat (adu_length a)) (adu_data a)\<rparr>"

definition server_raw_tx :: "nat \<Rightarrow> modbus_adu \<Rightarrow> server_state \<Rightarrow> server_state" where
  "server_raw_tx bufsize adu s =
     (let n = min (unat (adu_length adu)) bufsize
      in s\<lparr>tmp_adu := \<lparr>trans_id = trans_id adu, proto_id = proto_id adu, adu_length = adu_length adu,
             unit_id = unit_id adu, fc = fc adu,
             adu_data = take n (adu_data adu) @ drop n (adu_data (tmp_adu s))\<rparr>,
           response_ready := True\<rparr>)"

text \<open>The result of a socket call: an error, the peer's close (0), or data.\<close>

datatype 'a sock = SockErr errno | SockClosed | SockOk 'a

text \<open>
  The outside of one call of \<open>serve_once\<close>: responses the server delivers late, before the header
  arrives and while the data is awaited; the header (as \<open>modbus_raw_get_header\<close> decodes it) and data read; whether the raw
  submit is accepted; the responses delivered between the submit and the end of the one-second
  wait; the results of the two sends.
\<close>

record serve_io =
  io_late :: "modbus_adu list"
  io_header :: "modbus_adu sock"
  io_mid :: "modbus_adu list"
  io_data :: "bytes sock"
  io_submit_ok :: bool
  io_responses :: "modbus_adu list"
  io_send1 :: rc
  io_send2 :: rc

definition modbus_reply :: "serve_io \<Rightarrow> server_state \<Rightarrow> rc \<times> server_state" where
  "modbus_reply io s =
     (case io_send1 io of
        Err e \<Rightarrow> (Err e, s)
      | OK \<Rightarrow>
          (if adu_length (tmp_adu s) \<noteq> 0 \<and> io_send2 io \<noteq> OK then (io_send2 io, s)
           else (OK, s\<lparr>replies := replies s @ [adu_wire (tmp_adu s)]\<rparr>)))"

definition serve_once ::
  "nat \<Rightarrow> (modbus_adu \<Rightarrow> modbus_adu) \<Rightarrow> serve_io \<Rightarrow> server_state \<Rightarrow> rc \<times> server_state" where
  "serve_once bufsize set_failure io s0 =
     (let s = fold (server_raw_tx bufsize) (io_late io) s0
      in case io_header io of
        SockErr e \<Rightarrow> (Err e, s)
      | SockClosed \<Rightarrow> (Err ENOTCONN, s)
      | SockOk hdr \<Rightarrow>
          (let s = s\<lparr>tmp_adu := hdr\<lparr>adu_data := adu_data (tmp_adu s)\<rparr>\<rparr>;
               (rc, s) = (if adu_length (tmp_adu s) > 0
                  then
                    let s = fold (server_raw_tx bufsize) (io_mid io) s
                    in (case io_data io of
                          SockErr e \<Rightarrow> (Err e, s)
                        | SockClosed \<Rightarrow> (Err ENOTCONN, s)
                        | SockOk bs \<Rightarrow> (OK, s\<lparr>tmp_adu := (tmp_adu s)\<lparr>adu_data :=
                            bs @ drop (length bs) (adu_data (tmp_adu s))\<rparr>\<rparr>))
                  else (OK, s))
           in case rc of
                Err e \<Rightarrow> (Err e, s)
              | OK \<Rightarrow>
                  if \<not> io_submit_ok io then (OK, s)
                  else
                    let s = fold (server_raw_tx bufsize) (io_responses io) s;
                        s = (if response_ready s then s\<lparr>response_ready := False\<rparr>
                             else s\<lparr>tmp_adu := set_failure (tmp_adu s)\<rparr>)
                    in modbus_reply io s))"

text \<open>
  One turn of the loop over a connected client: the poll result (negative, zero, positive), the
  clock, and the result of \<open>serve_once\<close>. \<open>None\<close> closes the connection; otherwise the time of
  the last request.
\<close>

definition client_turn :: "int \<Rightarrow> int \<Rightarrow> int \<Rightarrow> int \<Rightarrow> rc \<Rightarrow> int option" where
  "client_turn idle_timeout_s prc now last_rx served =
     (if prc = 0 then
        (if idle_timeout_s > 0 \<and> now - last_rx \<ge> idle_timeout_s * 1000 then None else Some last_rx)
      else if prc < 0 \<or> served \<noteq> OK then None
      else Some now)"

section \<open>Properties\<close>

lemma tx_fields [simp]:
  "response_ready (server_raw_tx n q s)" "replies (server_raw_tx n q s) = replies s"
  by (simp_all add: server_raw_tx_def Let_def)

lemma fold_tx_ready:
  "response_ready (fold (server_raw_tx n) rs s) \<longleftrightarrow> rs \<noteq> [] \<or> response_ready s"
  by (induction rs arbitrary: s) auto

text \<open>A response as the raw server builds it: its data has the length it says, and fits.\<close>

definition adu_ok :: "nat \<Rightarrow> modbus_adu \<Rightarrow> bool" where
  "adu_ok n a \<longleftrightarrow> length (adu_data a) = unat (adu_length a) \<and> unat (adu_length a) \<le> n"

lemma tx_wire: "adu_ok n q \<Longrightarrow> adu_wire (tmp_adu (server_raw_tx n q s)) = q"
  by (simp add: server_raw_tx_def adu_wire_def adu_ok_def Let_def)

lemma fold_tx_last: "rs \<noteq> [] \<Longrightarrow> adu_ok n (last rs) \<Longrightarrow> adu_wire (tmp_adu (fold (server_raw_tx n) rs s)) = last rs"
  by (cases rs rule: rev_cases) (simp_all add: tx_wire)

lemma fold_tx_replies [simp]: "replies (fold (server_raw_tx n) rs s) = replies s"
  by (induction rs arbitrary: s) simp_all

lemma modbus_reply_ready: "response_ready (snd (modbus_reply io s)) = response_ready s"
  by (simp add: modbus_reply_def split: rc.split)

text \<open>A request read in full: its header and as many bytes of data as the header says.\<close>

definition request_read :: "serve_io \<Rightarrow> modbus_adu \<Rightarrow> bytes \<Rightarrow> bool" where
  "request_read io hdr bs \<longleftrightarrow> io_header io = SockOk hdr \<and> length bs = unat (adu_length hdr)
     \<and> (bs \<noteq> [] \<longrightarrow> io_data io = SockOk bs) \<and> io_mid io = []"

text \<open>What \<open>tmp_adu\<close> holds when the request has been read.\<close>

definition request_adu :: "modbus_adu \<Rightarrow> bytes \<Rightarrow> server_state \<Rightarrow> modbus_adu" where
  "request_adu hdr bs s = hdr\<lparr>adu_data := bs @ drop (length bs) (adu_data (tmp_adu s))\<rparr>"

lemma request_wire: "length bs = unat (adu_length hdr) \<Longrightarrow> adu_wire (request_adu hdr bs s) = hdr\<lparr>adu_data := bs\<rparr>"
  by (simp add: request_adu_def adu_wire_def)

lemma serve_once_reads:
  assumes "request_read io hdr bs" "io_submit_ok io"
  shows "serve_once n set_failure io s =
    (let t = fold (server_raw_tx n) (io_late io) s;
         u = fold (server_raw_tx n) (io_responses io) (t\<lparr>tmp_adu := request_adu hdr bs t\<rparr>)
     in modbus_reply io (if response_ready u then u\<lparr>response_ready := False\<rparr> else u\<lparr>tmp_adu := set_failure (tmp_adu u)\<rparr>))"
  using assms by (cases "bs = []") (auto simp: serve_once_def request_read_def request_adu_def Let_def
      unat_eq_zero word_gt_0)

text \<open>
  When no response is left over from an earlier request, a request is answered by exactly the
  response the server delivered for it within the wait, or by the failure ADU when it delivered
  none; and then again no response is left over.
\<close>

theorem serve_once_answers:
  fixes set_failure :: "modbus_adu \<Rightarrow> modbus_adu" and n :: nat and io :: serve_io and s :: server_state
  assumes "\<not> response_ready s" "io_late io = []" "request_read io hdr bs" "io_submit_ok io"
    and "io_send1 io = OK" "io_send2 io = OK" "list_all (adu_ok n) (io_responses io)"
  defines "r \<equiv> (if io_responses io \<noteq> [] then last (io_responses io)
      else adu_wire (set_failure (hdr\<lparr>adu_data := bs @ drop (length bs) (adu_data (tmp_adu s))\<rparr>)))"
  shows "fst (serve_once n set_failure io s) = OK
    \<and> replies (snd (serve_once n set_failure io s)) = replies s @ [r]
    \<and> \<not> response_ready (snd (serve_once n set_failure io s))"
  using assms fold_tx_last [of "io_responses io" n "s\<lparr>tmp_adu := request_adu hdr bs s\<rparr>"]
  unfolding serve_once_reads [OF assms(3,4)]
  by (cases "io_responses io = []")
    (simp_all add: fold_tx_ready modbus_reply_def request_adu_def list_all_iff)

definition sample_adu :: modbus_adu where
  "sample_adu = \<lparr>trans_id = 9, proto_id = 0, adu_length = 4, unit_id = 1, fc = 3, adu_data = []\<rparr>"

definition sample_server :: server_state where
  "sample_server = \<lparr>tmp_adu = sample_adu, response_ready = False, replies = []\<rparr>"

definition sample_response :: modbus_adu where
  "sample_response = \<lparr>trans_id = 9, proto_id = 0, adu_length = 3, unit_id = 1, fc = 3, adu_data = [2, 0, 42]\<rparr>"

definition sample_io :: serve_io where
  "sample_io =
     \<lparr>io_late = [], io_header = SockOk sample_adu, io_mid = [], io_data = SockOk [0, 1, 0, 1], io_submit_ok = True,
      io_responses = [sample_response], io_send1 = OK, io_send2 = OK\<rparr>"

theorem serve_once_answers_witness:
  "replies (snd (serve_once 256 (\<lambda>a. a\<lparr>fc := 0x83\<rparr>) sample_io sample_server)) = [sample_response]"
  using serve_once_answers [of sample_server sample_io sample_adu "[0, 1, 0, 1]" 256 "\<lambda>a. a\<lparr>fc := 0x83\<rparr>"]
  by (simp add: sample_server_def sample_io_def sample_adu_def sample_response_def request_read_def adu_ok_def)

text \<open>
  A response that arrives after its request timed out leaves the semaphore given: unless the
  server answers the next request before the listener looks, that request is answered with
  itself, not with the failure ADU the timeout branch would produce.
\<close>

theorem late_response_echoes_next_request:
  assumes "io_late io = [late]" "io_responses io = []" "request_read io hdr bs" "io_submit_ok io"
    and "io_send1 io = OK" "io_send2 io = OK"
  shows "replies (snd (serve_once n set_failure io s)) = replies s @ [hdr\<lparr>adu_data := bs\<rparr>]"
  using assms(3) unfolding serve_once_reads [OF assms(3,4)]
  by (simp add: assms modbus_reply_def request_read_def request_wire server_raw_tx_def Let_def)

theorem late_response_echoes_next_request_witness:
  "replies (snd (serve_once 256 (\<lambda>a. a\<lparr>fc := 0x83\<rparr>) (sample_io\<lparr>io_late := [sample_response], io_responses := []\<rparr>)
     sample_server)) = [sample_adu\<lparr>adu_data := [0, 1, 0, 1]\<rparr>]"
  using late_response_echoes_next_request
    [of "sample_io\<lparr>io_late := [sample_response], io_responses := []\<rparr>" sample_response sample_adu "[0, 1, 0, 1]" 256
      "\<lambda>a. a\<lparr>fc := 0x83\<rparr>" sample_server]
  by (simp add: sample_io_def sample_adu_def sample_server_def request_read_def)

text \<open>The client loop over a sequence of (poll result, clock, result of the request) turns.\<close>

fun client_loop :: "int \<Rightarrow> int \<Rightarrow> (int \<times> int \<times> rc) list \<Rightarrow> int option" where
  "client_loop idle last_rx [] = Some last_rx"
| "client_loop idle last_rx ((prc, now, served) # ts) =
     (case client_turn idle prc now last_rx served of
        None \<Rightarrow> None
      | Some t \<Rightarrow> client_loop idle t ts)"

text \<open>
  A silent client is dropped: over any run of empty polls the connection is closed exactly
  when one of them happens at or after the idle timeout since the last request.
\<close>

theorem silent_client_dropped:
  assumes "0 < idle"
  shows "client_loop idle last_rx (map (\<lambda>t. (0, t, OK)) ts) = None
    \<longleftrightarrow> (\<exists>t \<in> set ts. t - last_rx \<ge> idle * 1000)"
  using assms by (induction ts) (auto simp: client_turn_def)

theorem silent_client_dropped_witness:
  "client_loop 60 0 (map (\<lambda>t. (0, t, OK)) [5000, 60000]) = None"
  using silent_client_dropped [of 60 0 "[5000, 60000]"] by simp

end
