(* ===== verification/Modbus_Listener.thy ===== *)
theory Modbus_Listener
  imports Modbus
begin

text \<open>
  The listener thread of \<^verbatim>\<open>src/lib/modbus/modbus_server.c\<close>: opening the server socket, accepting one
  client at a time, reading its requests from a byte stream with \<^verbatim>\<open>MSG_WAITALL\<close>, and the idle
  timeout. One turn is one wait of the thread: a sleep, a poll of at most five seconds, or a blocked
  \<open>recv\<close> woken by the bytes that arrive. The socket calls' results come in with the turn.
\<close>

section \<open>Reading from a stream\<close>

text \<open>How a connection stands: open, closed by the peer, or failed.\<close>

datatype ending = Open | Closed | Failed errno

record client_conn =
  cc_inbox :: bytes
  cc_end :: ending

text \<open>
  \<^verbatim>\<open>zsock_recv(..., n, MSG_WAITALL)\<close>: blocked (\<open>None\<close>) until \<open>n\<close> bytes are there or no more can come;
  then what there is, be it less.
\<close>

definition recv_waitall :: "nat \<Rightarrow> client_conn \<Rightarrow> (bytes sock \<times> client_conn) option" where
  "recv_waitall n c =
     (if length (cc_inbox c) \<ge> n then Some (SockOk (take n (cc_inbox c)), c\<lparr>cc_inbox := drop n (cc_inbox c)\<rparr>)
      else case cc_end c of
          Open \<Rightarrow> None
        | Closed \<Rightarrow> Some (if cc_inbox c = [] then SockClosed else SockOk (cc_inbox c), c\<lparr>cc_inbox := []\<rparr>)
        | Failed e \<Rightarrow> Some (SockErr e, c))"

abbreviation (input) MODBUS_MBAP_AND_FC_LENGTH :: nat where "MODBUS_MBAP_AND_FC_LENGTH \<equiv> 8"

text \<open>
  The two reads of \<open>serve_once\<close>. \<open>get_header\<close> is \<open>modbus_raw_get_header\<close>; \<open>stale\<close> is what the stack
  holds in \<open>header\<close>, which a short read does not overwrite.
\<close>

definition read_request ::
  "(bytes \<Rightarrow> modbus_adu) \<Rightarrow> bytes \<Rightarrow> client_conn \<Rightarrow> (modbus_adu sock \<times> bytes sock \<times> client_conn) option" where
  "read_request get_header stale c =
     (case recv_waitall MODBUS_MBAP_AND_FC_LENGTH c of
        None \<Rightarrow> None
      | Some (SockErr e, c) \<Rightarrow> Some (SockErr e, SockClosed, c)
      | Some (SockClosed, c) \<Rightarrow> Some (SockClosed, SockClosed, c)
      | Some (SockOk h, c) \<Rightarrow>
          (let hdr = get_header (h @ drop (length h) (take MODBUS_MBAP_AND_FC_LENGTH stale))
           in if adu_length hdr > 0 then
                (case recv_waitall (unat (adu_length hdr)) c of
                   None \<Rightarrow> None
                 | Some (d, c) \<Rightarrow> Some (SockOk hdr, d, c))
              else Some (SockOk hdr, SockClosed, c)))"

section \<open>The thread\<close>

text \<open>
  No server socket; waiting for a client; waiting for a request of a client, with the time of its
  last; blocked in \<open>recv\<close> inside a request.
\<close>

datatype phase = NoSocket | Listening | Connected int | Reading int

record listener =
  li_phase :: phase
  li_conn :: client_conn
  li_server :: server_state

record listen_cfg =
  lc_idle_s :: int
  lc_bufsize :: nat
  lc_get_header :: "bytes \<Rightarrow> modbus_adu"
  lc_set_failure :: "modbus_adu \<Rightarrow> modbus_adu"

record turn_in =
  ti_socket :: bool
  ti_bind :: bool
  ti_poll_err :: bool
  ti_pending :: bool
  ti_accept :: bool
  ti_now :: int
  ti_bytes :: bytes
  ti_end :: ending
  ti_stale :: bytes
  ti_serve :: "modbus_adu sock \<Rightarrow> bytes sock \<Rightarrow> serve_io"

datatype listen_call = OpenServer | CloseServer | Alive | SleepMs nat | Accept | CloseClient

definition close_client :: "listen_call list \<Rightarrow> listener \<Rightarrow> listen_call list \<times> listener" where
  "close_client calls s = (calls @ [CloseClient], s\<lparr>li_phase := Listening\<rparr>)"

definition serve_turn :: "listen_cfg \<Rightarrow> turn_in \<Rightarrow> int \<Rightarrow> listen_call list \<Rightarrow> listener \<Rightarrow> listen_call list \<times> listener" where
  "serve_turn cfg ti last_rx calls s =
     (case read_request (lc_get_header cfg) (ti_stale ti) (li_conn s) of
        None \<Rightarrow> (calls, s\<lparr>li_phase := Reading last_rx\<rparr>)
      | Some (h, d, c) \<Rightarrow>
          (let io = (ti_serve ti h d)\<lparr>io_header := h, io_data := d\<rparr>;
               (rc, srv) = serve_once (lc_bufsize cfg) (lc_set_failure cfg) io (li_server s);
               s = s\<lparr>li_conn := c, li_server := srv\<rparr>
           in case client_turn (lc_idle_s cfg) 1 (ti_now ti) last_rx rc of
                None \<Rightarrow> close_client calls s
              | Some t \<Rightarrow> (calls, s\<lparr>li_phase := Connected t\<rparr>)))"

text \<open>The bytes and the end of the connection that arrive in a turn.\<close>

definition arrive :: "turn_in \<Rightarrow> listener \<Rightarrow> listener" where
  "arrive ti s = s\<lparr>li_conn := \<lparr>cc_inbox = cc_inbox (li_conn s) @ ti_bytes ti, cc_end = ti_end ti\<rparr>\<rparr>"

definition readable :: "client_conn \<Rightarrow> bool" where
  "readable c \<longleftrightarrow> cc_inbox c \<noteq> [] \<or> cc_end c \<noteq> Open"

definition listener_turn :: "listen_cfg \<Rightarrow> turn_in \<Rightarrow> listener \<Rightarrow> listen_call list \<times> listener" where
  "listener_turn cfg ti s =
     (case li_phase s of
        NoSocket \<Rightarrow>
          if \<not> ti_socket ti then ([SleepMs 1000], s)
          else if \<not> ti_bind ti then ([OpenServer, CloseServer, SleepMs 1000], s)
          else ([OpenServer], s\<lparr>li_phase := Listening\<rparr>)
      | Listening \<Rightarrow>
          if \<not> ti_pending ti \<and> \<not> ti_poll_err ti then ([Alive], s)
          else if \<not> ti_accept ti then ([Alive, SleepMs 200], s)
          else ([Alive, Accept], s\<lparr>li_phase := Connected (ti_now ti), li_conn := \<lparr>cc_inbox = [], cc_end = Open\<rparr>\<rparr>)
      | Connected last_rx \<Rightarrow>
          (let s = arrive ti s
           in if \<not> ti_poll_err ti \<and> readable (li_conn s) then serve_turn cfg ti last_rx [Alive] s
              else case client_turn (lc_idle_s cfg) (if ti_poll_err ti then -1 else 0) (ti_now ti) last_rx OK of
                  None \<Rightarrow> close_client [Alive] s
                | Some t \<Rightarrow> ([Alive], s\<lparr>li_phase := Connected t\<rparr>))
      | Reading last_rx \<Rightarrow> serve_turn cfg ti last_rx [] (arrive ti s))"

fun listener_run :: "listen_cfg \<Rightarrow> turn_in list \<Rightarrow> listener \<Rightarrow> listen_call list \<times> listener" where
  "listener_run cfg [] s = ([], s)"
| "listener_run cfg (ti # tis) s =
     (let (calls, s) = listener_turn cfg ti s; (out, s) = listener_run cfg tis s in (calls @ out, s))"

definition listener_init :: "server_state \<Rightarrow> listener" where
  "listener_init srv = \<lparr>li_phase = NoSocket, li_conn = \<lparr>cc_inbox = [], cc_end = Open\<rparr>, li_server = srv\<rparr>"

text \<open>
  \<open>modbus_server_start\<close>: the simulation runs whatever follows; the thread only when the raw
  interface is there and takes the parameters. Zephyr's results are parameters.
\<close>

datatype start_call = DataSourceInit | InitServer int | CreateThread

definition modbus_server_start :: "int \<Rightarrow> int \<Rightarrow> start_call list \<times> int" where
  "modbus_server_start iface err =
     (if iface < 0 then ([DataSourceInit], iface)
      else if err < 0 then ([DataSourceInit, InitServer iface], err)
      else ([DataSourceInit, InitServer iface, CreateThread], 0))"

section \<open>Descriptors\<close>

definition server_open :: "listener \<Rightarrow> nat" where
  "server_open s = (case li_phase s of NoSocket \<Rightarrow> 0 | _ \<Rightarrow> 1)"

definition client_open :: "listener \<Rightarrow> nat" where
  "client_open s = (case li_phase s of Connected _ \<Rightarrow> 1 | Reading _ \<Rightarrow> 1 | _ \<Rightarrow> 0)"

lemma serve_turn_sockets:
  assumes "serve_turn cfg ti last_rx calls s = (out, s')"
  shows "out = calls \<and> (\<exists>t. li_phase s' = Connected t \<or> li_phase s' = Reading t)
    \<or> out = calls @ [CloseClient] \<and> li_phase s' = Listening"
proof (cases "read_request (lc_get_header cfg) (ti_stale ti) (li_conn s)")
  case None
  then show ?thesis using assms by (auto simp: serve_turn_def)
next
  case (Some r)
  obtain h d c where r: "r = (h, d, c)" by (cases r)
  obtain rc srv where srv: "serve_once (lc_bufsize cfg) (lc_set_failure cfg)
      ((ti_serve ti h d)\<lparr>io_header := h, io_data := d\<rparr>) (li_server s) = (rc, srv)" by (metis surj_pair)
  show ?thesis
  proof (cases "client_turn (lc_idle_s cfg) 1 (ti_now ti) last_rx rc")
    case None
    then have "close_client calls (s\<lparr>li_conn := c, li_server := srv\<rparr>) = (out, s')"
      using assms by (simp add: serve_turn_def Some r srv)
    then show ?thesis by (auto simp: close_client_def)
  next
    case (Some t)
    then have "(calls, s\<lparr>li_conn := c, li_server := srv, li_phase := Connected t\<rparr>) = (out, s')"
      using assms by (simp add: serve_turn_def \<open>read_request _ _ _ = _\<close> r srv)
    then show ?thesis by auto
  qed
qed

text \<open>What the counts of calls and the sockets open before and after a turn have to do with each other.\<close>

definition balanced :: "listen_call list \<Rightarrow> listener \<Rightarrow> listener \<Rightarrow> bool" where
  "balanced out s s' \<longleftrightarrow> count_list out OpenServer + server_open s = count_list out CloseServer + server_open s'
    \<and> count_list out Accept + client_open s = count_list out CloseClient + client_open s'
    \<and> (li_phase s = NoSocket \<or> count_list out CloseServer = 0 \<and> li_phase s' \<noteq> NoSocket)"

lemma serve_balanced:
  assumes "serve_turn cfg ti last_rx calls u = (out, s')" "calls = [] \<or> calls = [Alive]"
    and "li_phase s = Connected t \<or> li_phase s = Reading t"
  shows "balanced out s s'"
  using serve_turn_sockets [OF assms(1)] assms(2,3)
  by (elim disjE conjE exE) (simp_all add: balanced_def server_open_def client_open_def)

lemma turn_sockets: "listener_turn cfg ti s = (out, s') \<Longrightarrow> balanced out s s'"
proof (cases "li_phase s")
  case (Connected t)
  assume turn: "listener_turn cfg ti s = (out, s')"
  let ?s = "arrive ti s"
  show ?thesis
  proof (cases "\<not> ti_poll_err ti \<and> readable (li_conn ?s)")
    case True
    then have "serve_turn cfg ti t [Alive] ?s = (out, s')" using turn by (simp add: listener_turn_def Connected Let_def)
    then show ?thesis using serve_balanced Connected by blast
  next
    case False
    then show ?thesis
      using turn
      by (auto simp: listener_turn_def Connected Let_def close_client_def balanced_def server_open_def client_open_def
          split: option.splits)
  qed
next
  case (Reading t)
  assume "listener_turn cfg ti s = (out, s')"
  then have "serve_turn cfg ti t [] (arrive ti s) = (out, s')" by (simp add: listener_turn_def Reading)
  then show ?thesis using serve_balanced Reading by blast
qed (auto simp: listener_turn_def balanced_def server_open_def client_open_def split: if_splits)

text \<open>
  C33. The listener leaks no socket and serves one client at a time: after any sequence of turns, whatever
  the socket calls return, the server sockets opened and not closed are one while it listens and none
  before, the clients accepted and not closed are one while it serves and none otherwise; and once it
  listens, no failing call of a client or of \<open>accept\<close> closes the server socket.
\<close>

theorem listener_sockets:
  fixes cfg :: listen_cfg and tis :: "turn_in list" and s :: listener
  defines "out \<equiv> fst (listener_run cfg tis s)" and "t \<equiv> snd (listener_run cfg tis s)"
  shows "count_list out OpenServer + server_open s = count_list out CloseServer + server_open t
    \<and> count_list out Accept + client_open s = count_list out CloseClient + client_open t
    \<and> (li_phase s = NoSocket \<or> count_list out CloseServer = 0 \<and> li_phase t \<noteq> NoSocket)"
  unfolding out_def t_def
proof (induction tis arbitrary: s)
  case Nil
  then show ?case by simp
next
  case (Cons ti tis)
  obtain o1 s1 where 1: "listener_turn cfg ti s = (o1, s1)" by fastforce
  obtain o2 s2 where 2: "listener_run cfg tis s1 = (o2, s2)" by fastforce
  show ?case using turn_sockets [OF 1] Cons.IH [of s1] by (auto simp: 1 2 balanced_def)
qed

section \<open>Requests in pieces\<close>

text \<open>A request as it is sent: the eight bytes of its header and its data.\<close>

type_synonym frame = "bytes \<times> bytes"

definition frame_ok :: "(bytes \<Rightarrow> modbus_adu) \<Rightarrow> frame \<Rightarrow> bool" where
  "frame_ok gh f \<longleftrightarrow> length (fst f) = MODBUS_MBAP_AND_FC_LENGTH \<and> length (snd f) = unat (adu_length (gh (fst f)))"

definition enc :: "frame \<Rightarrow> bytes" where "enc f = fst f @ snd f"

text \<open>What \<open>serve_once\<close> gets for its second read; without data it makes none.\<close>

definition body :: "frame \<Rightarrow> bytes sock" where
  "body f = (if snd f = [] then SockClosed else SockOk (snd f))"

lemma read_frame:
  assumes "frame_ok gh f" "cc_inbox c = enc f @ rest"
  shows "read_request gh stale c = Some (SockOk (gh (fst f)), body f, c\<lparr>cc_inbox := rest\<rparr>)"
  using assms by (cases "snd f = []")
    (auto simp: body_def read_request_def recv_waitall_def frame_ok_def enc_def Let_def unat_eq_zero word_gt_0)

lemma read_blocked:
  assumes "frame_ok gh f" "cc_inbox c @ ys = enc f @ rest" "length (cc_inbox c) < length (enc f)" "cc_end c = Open"
  shows "read_request gh stale c = None"
proof (cases "length (cc_inbox c) < 8")
  case True
  then show ?thesis using assms(4) by (simp add: read_request_def recv_waitall_def)
next
  case False
  have l: "length (fst f) = 8" using assms(1) by (simp add: frame_ok_def)
  have "take 8 (cc_inbox c) = take 8 (cc_inbox c @ ys)" using False by simp
  also have "\<dots> = fst f" using l unfolding assms(2) by (simp add: enc_def)
  finally have h: "take 8 (cc_inbox c) = fst f" .
  have "length (cc_inbox c) - 8 < unat (adu_length (gh (fst f)))"
    using assms(1,3) False by (auto simp: enc_def frame_ok_def)
  then show ?thesis
    using False h l assms(4) by (auto simp: read_request_def recv_waitall_def Let_def word_gt_0)
qed

text \<open>
  A turn in which nothing fails and the raw server answers at once with \<open>answer\<close> of what was read; \<open>t0\<close> is
  the time from which the idle timeout has not passed.
\<close>

definition fair_turn ::
  "listen_cfg \<Rightarrow> (modbus_adu sock \<Rightarrow> bytes sock \<Rightarrow> modbus_adu) \<Rightarrow> int \<Rightarrow> turn_in \<Rightarrow> bool" where
  "fair_turn cfg answer t0 ti \<longleftrightarrow> \<not> ti_poll_err ti \<and> ti_end ti = Open \<and> t0 \<le> ti_now ti
     \<and> (0 < lc_idle_s cfg \<longrightarrow> ti_now ti - t0 < lc_idle_s cfg * 1000)
     \<and> (\<forall>h d. let io = ti_serve ti h d
          in io_late io = [] \<and> io_mid io = [] \<and> io_submit_ok io \<and> io_send1 io = OK \<and> io_send2 io = OK
            \<and> io_responses io = [answer h d] \<and> adu_ok (lc_bufsize cfg) (answer h d))"

definition reply_to :: "listen_cfg \<Rightarrow> (modbus_adu sock \<Rightarrow> bytes sock \<Rightarrow> modbus_adu) \<Rightarrow> frame \<Rightarrow> modbus_adu" where
  "reply_to cfg answer f = answer (SockOk (lc_get_header cfg (fst f))) (body f)"

lemma serve_frame:
  assumes "frame_ok (lc_get_header cfg) f" "fair_turn cfg answer t0 ti" "\<not> response_ready srv"
  defines "h \<equiv> SockOk (lc_get_header cfg (fst f))"
  shows "\<exists>srv'. serve_once (lc_bufsize cfg) (lc_set_failure cfg) ((ti_serve ti h (body f))\<lparr>io_header := h, io_data := body f\<rparr>) srv
      = (OK, srv') \<and> replies srv' = replies srv @ [reply_to cfg answer f] \<and> \<not> response_ready srv'"
proof -
  let ?io = "(ti_serve ti h (body f))\<lparr>io_header := h, io_data := body f\<rparr>"
  have io: "io_late ?io = []" "io_mid ?io = []" "io_submit_ok ?io" "io_send1 ?io = OK" "io_send2 ?io = OK"
    "io_responses ?io = [answer h (body f)]" "adu_ok (lc_bufsize cfg) (answer h (body f))"
    using assms(2) by (auto simp: fair_turn_def Let_def)
  have "request_read ?io (lc_get_header cfg (fst f)) (snd f)"
    using assms(1) io(2) by (simp add: request_read_def frame_ok_def body_def h_def)
  from serve_once_reads [OF this io(3)] show ?thesis
    using io assms(3) tx_wire [OF io(7)]
    by (simp add: modbus_reply_def reply_to_def h_def Let_def)
qed

text \<open>A connection on which the frames \<open>rest\<close> are not yet served, of whose bytes \<open>fut\<close> are still to come.\<close>

definition tracks :: "int \<Rightarrow> bytes \<Rightarrow> frame list \<Rightarrow> listener \<Rightarrow> bool" where
  "tracks t0 fut rest s \<longleftrightarrow> (\<exists>t \<ge> t0. li_phase s = Connected t \<or> li_phase s = Reading t \<and> cc_inbox (li_conn s) \<noteq> [])
     \<and> cc_inbox (li_conn s) @ fut = concat (map enc rest) \<and> \<not> response_ready (li_server s)"

lemma turn_serving:
  assumes "fair_turn cfg answer t0 ti" "li_phase s = Connected t \<or> li_phase s = Reading t"
    and "cc_inbox (li_conn s) @ ti_bytes ti \<noteq> []"
  shows "snd (listener_turn cfg ti s) = snd (serve_turn cfg ti t [] (arrive ti s))"
proof -
  have "snd (serve_turn cfg ti t calls u) = snd (serve_turn cfg ti t [] u)" for calls u
    by (auto simp: serve_turn_def close_client_def Let_def split: option.split prod.split)
  then show ?thesis
    using assms by (auto simp: listener_turn_def fair_turn_def readable_def arrive_def Let_def)
qed

lemma turn_waits:
  assumes fair: "fair_turn cfg answer t0 ti" and tr: "tracks t0 (ti_bytes ti @ fut) rest s"
    and ok: "list_all (frame_ok (lc_get_header cfg)) rest"
    and short: "rest = [] \<or> length (cc_inbox (li_conn s) @ ti_bytes ti) < length (enc (hd rest))"
  shows "tracks t0 fut rest (snd (listener_turn cfg ti s)) \<and> li_server (snd (listener_turn cfg ti s)) = li_server s"
proof (cases "cc_inbox (li_conn s) @ ti_bytes ti = []")
  case True
  obtain t where t: "t \<ge> t0" "li_phase s = Connected t" using tr True by (auto simp: tracks_def)
  have "client_turn (lc_idle_s cfg) 0 (ti_now ti) t OK = Some t"
    using fair t(1) by (auto simp: client_turn_def fair_turn_def)
  then show ?thesis
    using tr True t fair by (auto simp: listener_turn_def tracks_def arrive_def readable_def fair_turn_def Let_def)
next
  case False
  obtain t where t: "t \<ge> t0" "li_phase s = Connected t \<or> li_phase s = Reading t" using tr by (auto simp: tracks_def)
  have "rest \<noteq> []" using tr False by (auto simp: tracks_def)
  then obtain f fs where f: "rest = f # fs" by (cases rest) auto
  have "read_request (lc_get_header cfg) (ti_stale ti) (li_conn (arrive ti s)) = None"
    by (rule read_blocked [of _ f _ fut "concat (map enc fs)"])
      (use ok tr short fair f in \<open>auto simp: arrive_def tracks_def fair_turn_def\<close>)
  then have "snd (listener_turn cfg ti s) = (arrive ti s)\<lparr>li_phase := Reading t\<rparr>"
    unfolding turn_serving [OF fair t(2) False] by (simp add: serve_turn_def)
  then show ?thesis using tr t False by (auto simp: tracks_def arrive_def)
qed

lemma turn_serves:
  assumes fair: "fair_turn cfg answer t0 ti" and tr: "tracks t0 (ti_bytes ti @ fut) (f # fs) s"
    and ok: "frame_ok (lc_get_header cfg) f" and full: "length (enc f) \<le> length (cc_inbox (li_conn s) @ ti_bytes ti)"
  shows "tracks t0 fut fs (snd (listener_turn cfg ti s))
    \<and> replies (li_server (snd (listener_turn cfg ti s))) = replies (li_server s) @ [reply_to cfg answer f]"
proof -
  have "enc f \<noteq> []" using ok by (auto simp: frame_ok_def enc_def)
  then have ne: "cc_inbox (li_conn s) @ ti_bytes ti \<noteq> []" using full by auto
  obtain t where t: "t \<ge> t0" "li_phase s = Connected t \<or> li_phase s = Reading t" using tr by (auto simp: tracks_def)
  obtain r where r: "cc_inbox (li_conn s) @ ti_bytes ti = enc f @ r" "r @ fut = concat (map enc fs)"
  proof -
    have "(cc_inbox (li_conn s) @ ti_bytes ti) @ fut = enc f @ concat (map enc fs)" using tr by (simp add: tracks_def)
    then obtain us where "cc_inbox (li_conn s) @ ti_bytes ti = enc f @ us \<and> us @ fut = concat (map enc fs)
        \<or> (cc_inbox (li_conn s) @ ti_bytes ti) @ us = enc f \<and> fut = us @ concat (map enc fs)"
      unfolding append_eq_append_conv2 by blast
    moreover have "us = []" if "(cc_inbox (li_conn s) @ ti_bytes ti) @ us = enc f"
      using full arg_cong [OF that, of length] by (cases us) simp_all
    ultimately show ?thesis using that by fastforce
  qed
  let ?h = "SockOk (lc_get_header cfg (fst f))"
  obtain srv' where srv: "serve_once (lc_bufsize cfg) (lc_set_failure cfg)
      ((ti_serve ti ?h (body f))\<lparr>io_header := ?h, io_data := body f\<rparr>) (li_server s) = (OK, srv')"
    "replies srv' = replies (li_server s) @ [reply_to cfg answer f]" "\<not> response_ready srv'"
    using serve_frame [OF ok fair] tr by (auto simp: tracks_def)
  have "read_request (lc_get_header cfg) (ti_stale ti) (li_conn (arrive ti s))
      = Some (?h, body f, (li_conn (arrive ti s))\<lparr>cc_inbox := r\<rparr>)"
    by (rule read_frame [OF ok]) (simp add: arrive_def r)
  then have "snd (listener_turn cfg ti s) =
      (arrive ti s)\<lparr>li_conn := (li_conn (arrive ti s))\<lparr>cc_inbox := r\<rparr>, li_server := srv', li_phase := Connected (ti_now ti)\<rparr>"
    unfolding turn_serving [OF fair t(2) ne] using srv(1)
    by (simp add: serve_turn_def client_turn_def arrive_def)
  then show ?thesis using srv r fair by (simp add: tracks_def fair_turn_def)
qed

lemma run_tracks:
  assumes "list_all (fair_turn cfg answer t0) tis" "tracks t0 (concat (map ti_bytes tis) @ fut) rest s"
    and "list_all (frame_ok (lc_get_header cfg)) rest"
  shows "\<exists>k. tracks t0 fut (drop k rest) (snd (listener_run cfg tis s))
    \<and> replies (li_server (snd (listener_run cfg tis s))) = replies (li_server s) @ map (reply_to cfg answer) (take k rest)"
  using assms
proof (induction tis arbitrary: s rest)
  case Nil
  then show ?case by (intro exI [of _ 0]) simp
next
  case (Cons ti tis)
  let ?s = "snd (listener_turn cfg ti s)"
  have run: "snd (listener_run cfg (ti # tis) s) = snd (listener_run cfg tis ?s)" by (simp add: split_beta)
  have fair: "fair_turn cfg answer t0 ti" "list_all (fair_turn cfg answer t0) tis" using Cons.prems(1) by simp_all
  have tr: "tracks t0 (ti_bytes ti @ concat (map ti_bytes tis) @ fut) rest s" using Cons.prems(2) by simp
  show ?case
  proof (cases "rest = [] \<or> length (cc_inbox (li_conn s) @ ti_bytes ti) < length (enc (hd rest))")
    case True
    from turn_waits [OF fair(1) tr Cons.prems(3) True] show ?thesis
      using Cons.IH [OF fair(2) _ Cons.prems(3), of ?s] unfolding run by simp
  next
    case False
    then obtain f fs where f: "rest = f # fs" by (cases rest) auto
    have "tracks t0 (concat (map ti_bytes tis) @ fut) fs ?s
        \<and> replies (li_server ?s) = replies (li_server s) @ [reply_to cfg answer f]"
      by (rule turn_serves [OF fair(1)]) (use tr False f Cons.prems(3) in auto)
    moreover obtain k where "tracks t0 fut (drop k fs) (snd (listener_run cfg tis ?s))"
      "replies (li_server (snd (listener_run cfg tis ?s))) = replies (li_server ?s) @ map (reply_to cfg answer) (take k fs)"
      using Cons.IH [OF fair(2), of fs ?s] calculation Cons.prems(3) f by auto
    ultimately show ?thesis unfolding run f by (intro exI [of _ "Suc k"]) simp
  qed
qed

lemma run_drains:
  assumes "list_all (fair_turn cfg answer t0) tis" "list_all (\<lambda>ti. ti_bytes ti = []) tis"
    and "tracks t0 [] rest s" "list_all (frame_ok (lc_get_header cfg)) rest" "length rest \<le> length tis"
  shows "tracks t0 [] [] (snd (listener_run cfg tis s))
    \<and> replies (li_server (snd (listener_run cfg tis s))) = replies (li_server s) @ map (reply_to cfg answer) rest"
  using assms
proof (induction tis arbitrary: s rest)
  case Nil
  then show ?case by simp
next
  case (Cons ti tis)
  let ?s = "snd (listener_turn cfg ti s)"
  have run: "snd (listener_run cfg (ti # tis) s) = snd (listener_run cfg tis ?s)" by (simp add: split_beta)
  have tr: "tracks t0 (ti_bytes ti @ []) rest s" using Cons.prems(2,3) by simp
  show ?case
  proof (cases rest)
    case Nil
    then have "tracks t0 [] [] ?s \<and> li_server ?s = li_server s"
      using turn_waits [OF _ tr, of cfg answer] Cons.prems(1,4) by simp
    then show ?thesis using Cons.IH [of "[]" ?s] Cons.prems Nil unfolding run by simp
  next
    case (Cons f fs)
    have "tracks t0 [] fs ?s \<and> replies (li_server ?s) = replies (li_server s) @ [reply_to cfg answer f]"
      by (rule turn_serves) (use tr Cons Cons.prems in \<open>auto simp: tracks_def\<close>)
    then show ?thesis using Cons.IH [of fs ?s] Cons.prems Cons unfolding run by simp
  qed
qed

text \<open>
  C15. However a client's requests are cut into pieces on the way, each is answered exactly once and in
  the order sent: after turns in which the bytes of the requests arrive, in any pieces, and as many
  more turns as there are requests, the replies sent are the raw server's answers, one per request,
  and the client is still connected.
\<close>

theorem requests_answered_in_order:
  fixes cfg :: listen_cfg and s :: listener
  assumes "list_all (frame_ok (lc_get_header cfg)) fs" "list_all (fair_turn cfg answer t0) (tis @ drain)"
    and "concat (map ti_bytes tis) = concat (map enc fs)" "list_all (\<lambda>ti. ti_bytes ti = []) drain"
    and "length fs \<le> length drain" "li_phase s = Connected t0" "cc_inbox (li_conn s) = []"
    and "\<not> response_ready (li_server s)"
  defines "t \<equiv> snd (listener_run cfg (tis @ drain) s)"
  shows "replies (li_server t) = replies (li_server s) @ map (reply_to cfg answer) fs \<and> (\<exists>u. li_phase t = Connected u)"
proof -
  have split: "snd (listener_run cfg (xs @ ys) s) = snd (listener_run cfg ys (snd (listener_run cfg xs s)))" for xs ys s
    by (induction xs arbitrary: s) (simp_all add: split_beta)
  have "tracks t0 (concat (map ti_bytes tis) @ []) fs s" using assms(3,6-8) by (simp add: tracks_def)
  then obtain k where k: "tracks t0 [] (drop k fs) (snd (listener_run cfg tis s))"
    "replies (li_server (snd (listener_run cfg tis s))) = replies (li_server s) @ map (reply_to cfg answer) (take k fs)"
    using run_tracks [of cfg answer t0 tis "[]" fs s] assms(1,2) by auto
  have "list_all (frame_ok (lc_get_header cfg)) (drop k fs)"
    using assms(1) by (auto simp: list_all_iff dest: in_set_dropD)
  then have "tracks t0 [] [] t \<and> replies (li_server t) =
      replies (li_server (snd (listener_run cfg tis s))) @ map (reply_to cfg answer) (drop k fs)"
    unfolding t_def split using run_drains [OF _ assms(4) k(1)] assms(2,5) by auto
  then show ?thesis using k(2) by (auto simp: tracks_def simp flip: map_append)
qed

definition sample_listen :: listen_cfg where
  "sample_listen = \<lparr>lc_idle_s = 60, lc_bufsize = 256,
     lc_get_header = (\<lambda>h. \<lparr>trans_id = ucast (h ! 1), proto_id = 0, adu_length = ucast (h ! 5), unit_id = h ! 6, fc = h ! 7,
       adu_data = []\<rparr>),
     lc_set_failure = (\<lambda>a. a\<lparr>fc := 0x84\<rparr>)\<rparr>"

definition sample_turn :: "int \<Rightarrow> bytes \<Rightarrow> turn_in" where
  "sample_turn now bs = \<lparr>ti_socket = True, ti_bind = True, ti_poll_err = False, ti_pending = False, ti_accept = True,
     ti_now = now, ti_bytes = bs, ti_end = Open, ti_stale = replicate 8 0, ti_serve = (\<lambda>_ _. sample_io)\<rparr>"

definition sample_listener :: listener where
  "sample_listener = \<lparr>li_phase = Connected 0, li_conn = \<lparr>cc_inbox = [], cc_end = Open\<rparr>, li_server = sample_server\<rparr>"

theorem requests_answered_in_order_witness:
  "replies (li_server (snd (listener_run sample_listen
     ([sample_turn 5 [0, 9, 0], sample_turn 10 [0, 0, 1, 1, 3, 7]] @ [sample_turn 15 []]) sample_listener))) = [sample_response]"
  using requests_answered_in_order [of sample_listen "[([0, 9, 0, 0, 0, 1, 1, 3], [7])]" "\<lambda>_ _. sample_response" 0
      "[sample_turn 5 [0, 9, 0], sample_turn 10 [0, 0, 1, 1, 3, 7]]" "[sample_turn 15 []]" sample_listener]
  by (simp add: fair_turn_def sample_turn_def sample_listener_def sample_server_def sample_listen_def frame_ok_def enc_def
      sample_io_def adu_ok_def sample_response_def reply_to_def)

section \<open>Half a request\<close>

text \<open>
  A client that sends the beginning of a header and then nothing holds the listener for ever: the
  thread stays in \<open>recv\<close>, whatever the idle timeout and however much time passes; it neither accepts
  another client, nor closes this one, nor reports progress again.
\<close>

theorem half_request_holds_listener:
  fixes cfg :: listen_cfg and s :: listener
  assumes "li_phase s = Connected t" "cc_inbox (li_conn s) = []"
    and "\<not> ti_poll_err ti" "ti_end ti = Open" "ti_bytes ti \<noteq> []" "length (ti_bytes ti) < MODBUS_MBAP_AND_FC_LENGTH"
    and "list_all (\<lambda>ti. ti_bytes ti = [] \<and> ti_end ti = Open) tis"
  shows "fst (listener_run cfg (ti # tis) s) = [Alive] \<and> li_phase (snd (listener_run cfg (ti # tis) s)) = Reading t"
proof -
  have blocked: "fst (listener_run cfg tis u) = [] \<and> li_phase (snd (listener_run cfg tis u)) = Reading t"
    if "li_phase u = Reading t" "length (cc_inbox (li_conn u)) < 8" "list_all (\<lambda>ti. ti_bytes ti = [] \<and> ti_end ti = Open) tis"
    for u tis
    using that
  proof (induction tis arbitrary: u)
    case Nil
    then show ?case by simp
  next
    case (Cons ti tis)
    then have "listener_turn cfg ti u = ([], (arrive ti u)\<lparr>li_phase := Reading t\<rparr>)"
      by (simp add: listener_turn_def serve_turn_def read_request_def recv_waitall_def arrive_def)
    then show ?case using Cons.IH [of "(arrive ti u)\<lparr>li_phase := Reading t\<rparr>"] Cons.prems by (simp add: arrive_def)
  qed
  have "listener_turn cfg ti s = ([Alive], (arrive ti s)\<lparr>li_phase := Reading t\<rparr>)"
    using assms by (simp add: listener_turn_def serve_turn_def read_request_def recv_waitall_def arrive_def readable_def Let_def)
  then show ?thesis using blocked [of "(arrive ti s)\<lparr>li_phase := Reading t\<rparr>" tis] assms by (simp add: arrive_def split_beta)
qed

theorem half_request_holds_listener_witness:
  "fst (listener_run sample_listen (sample_turn 5 [0, 9] # map (\<lambda>t. sample_turn t []) [3600000, 86400000]) sample_listener)
    = [Alive]"
  using half_request_holds_listener [of sample_listener 0 "sample_turn 5 [0, 9]"
      "map (\<lambda>t. sample_turn t []) [3600000, 86400000]" sample_listen]
  by (simp add: sample_turn_def sample_listener_def)

text \<open>
  A peer that closes inside the header is not noticed: the bytes that came are taken for a whole
  header, completed by what the stack held before.
\<close>

theorem truncated_header_accepted:
  assumes "cc_end c = Closed" "cc_inbox c \<noteq> []" "length (cc_inbox c) < MODBUS_MBAP_AND_FC_LENGTH"
    and "adu_length (get_header (cc_inbox c @ drop (length (cc_inbox c)) (take MODBUS_MBAP_AND_FC_LENGTH stale))) = 0"
  shows "read_request get_header stale c
    = Some (SockOk (get_header (cc_inbox c @ drop (length (cc_inbox c)) (take MODBUS_MBAP_AND_FC_LENGTH stale))), SockClosed, c\<lparr>cc_inbox := []\<rparr>)"
  using assms by (simp add: read_request_def recv_waitall_def Let_def)

theorem truncated_header_accepted_witness:
  "read_request (lc_get_header sample_listen) (replicate 8 0) \<lparr>cc_inbox = [0, 9], cc_end = Closed\<rparr>
    = Some (SockOk \<lparr>trans_id = 9, proto_id = 0, adu_length = 0, unit_id = 0, fc = 0, adu_data = []\<rparr>, SockClosed,
        \<lparr>cc_inbox = [], cc_end = Closed\<rparr>)"
  using truncated_header_accepted [of "\<lparr>cc_inbox = [0, 9], cc_end = Closed\<rparr>" "lc_get_header sample_listen" "replicate 8 0"]
  by (simp add: sample_listen_def)

end
