(* ===== verification/Gesture.thy ===== *)
theory Gesture
  imports Prelude
begin

text \<open>
  The sw0 button: the gesture classifier of \<^verbatim>\<open>src/lib/common/button_gesture.c\<close> and the debounced
  work item of \<^verbatim>\<open>src/lib/common/button.c\<close> that feeds it. Times are milliseconds of uptime
  (\<open>int64_t\<close>, as \<open>int\<close>); the press counter is a \<open>nat\<close>, since a sequence of \<open>2 ^ 32\<close> debounced
  presses would take years.
\<close>

datatype gesture =
  GESTURE_NONE | GESTURE_PROVISION | GESTURE_ERASE_ARMED | GESTURE_ERASE | GESTURE_IDENTIFY

record gesture_cfg =
  press_count :: nat
  identify_count :: nat
  window_ms :: int
  short_max_ms :: int
  quiet_ms :: int
  erase_ms :: int

record gesture_state =
  gcfg :: gesture_cfg
  pressed :: bool
  erase_armed :: bool
  spoiled :: bool
  presses :: nat
  first_press :: int
  press_at :: int
  last_release :: int

section \<open>The classifier\<close>

definition reset_sequence :: "gesture_state \<Rightarrow> gesture_state" where
  "reset_sequence g = g\<lparr>presses := 0, spoiled := False, erase_armed := False\<rparr>"

definition erase_on :: "gesture_state \<Rightarrow> bool" where
  "erase_on g \<longleftrightarrow> erase_ms (gcfg g) > 0"

definition gesture_init :: "gesture_cfg \<Rightarrow> gesture_state" where
  "gesture_init cfg =
     \<lparr>gcfg = cfg, pressed = False, erase_armed = False, spoiled = False, presses = 0,
      first_press = 0, press_at = 0, last_release = 0\<rparr>"

definition gesture_press :: "int \<Rightarrow> gesture_state \<Rightarrow> gesture \<times> gesture_state" where
  "gesture_press now g =
     (if pressed g then (GESTURE_NONE, g)
      else
        let g = g\<lparr>pressed := True, press_at := now\<rparr>
        in (GESTURE_NONE, if presses g = 0 then g\<lparr>first_press := now\<rparr> else g))"

definition gesture_release :: "int \<Rightarrow> gesture_state \<Rightarrow> gesture \<times> gesture_state" where
  "gesture_release now g =
     (if \<not> pressed g then (GESTURE_NONE, g)
      else
        let g = g\<lparr>pressed := False\<rparr>; held = now - press_at g
        in if erase_armed g \<or> (erase_on g \<and> held \<ge> erase_ms (gcfg g))
           then (GESTURE_ERASE, reset_sequence g)
           else
             let g = (if held \<ge> short_max_ms (gcfg g) then g\<lparr>spoiled := True\<rparr> else g);
                 g = g\<lparr>presses := presses g + 1, last_release := now\<rparr>;
                 g = (if presses g > max (press_count (gcfg g)) (identify_count (gcfg g))
                         \<or> now - first_press g > window_ms (gcfg g)
                      then g\<lparr>spoiled := True\<rparr> else g)
             in (GESTURE_NONE, g))"

definition gesture_tick :: "int \<Rightarrow> gesture_state \<Rightarrow> gesture \<times> gesture_state" where
  "gesture_tick now g =
     (if pressed g then
        (if erase_on g \<and> \<not> erase_armed g \<and> now - press_at g \<ge> erase_ms (gcfg g)
         then (GESTURE_ERASE_ARMED, g\<lparr>erase_armed := True\<rparr>) else (GESTURE_NONE, g))
      else if presses g > 0 \<and> now - last_release g \<ge> quiet_ms (gcfg g) then
        (let n = (if spoiled g then 0 else presses g); g = reset_sequence g
         in if n = 0 then (GESTURE_NONE, g)
            else if n = press_count (gcfg g) then (GESTURE_PROVISION, g)
            else if n = identify_count (gcfg g) then (GESTURE_IDENTIFY, g)
            else (GESTURE_NONE, g))
      else (GESTURE_NONE, g))"

definition gesture_busy :: "gesture_state \<Rightarrow> bool" where
  "gesture_busy g \<longleftrightarrow> pressed g \<or> presses g > 0"

section \<open>The button work item\<close>

record btn_state =
  gst :: gesture_state
  btn_level :: bool
  pressed_at :: int
  seq_active :: bool
  seq_matched :: bool

datatype btn_action = IdentifyGesture | ProvGesture gesture

text \<open>\<open>handle_gesture\<close>, with its two build options.\<close>

definition handle_gesture :: "bool \<Rightarrow> bool \<Rightarrow> gesture \<Rightarrow> btn_action list" where
  "handle_gesture app_identify app_prov_handoff g =
     (case g of
        GESTURE_NONE \<Rightarrow> []
      | GESTURE_IDENTIFY \<Rightarrow> (if app_identify then [IdentifyGesture] else [])
      | _ \<Rightarrow> (if app_prov_handoff then [ProvGesture g] else []))"

text \<open>
  One run of the work item at time \<open>now\<close> with the line at \<open>level\<close>: the gesture it handled,
  whether it rescheduled itself, and the state.
\<close>

definition btn_work_fn :: "int \<Rightarrow> bool \<Rightarrow> btn_state \<Rightarrow> gesture \<times> bool \<times> btn_state" where
  "btn_work_fn now level b =
     (let (g, b) =
            (if level \<noteq> btn_level b then
               let b = b\<lparr>btn_level := level\<rparr>;
                   b = (if level then b\<lparr>pressed_at := now, seq_active := True\<rparr> else b);
                   (g, s) = (if level then gesture_press now (gst b) else gesture_release now (gst b))
               in (g, b\<lparr>gst := s\<rparr>)
             else (GESTURE_NONE, b));
          (g, b) =
            (if g = GESTURE_NONE then let (g, s) = gesture_tick now (gst b) in (g, b\<lparr>gst := s\<rparr>)
             else (g, b));
          b = (if g \<noteq> GESTURE_NONE then b\<lparr>seq_matched := True\<rparr> else b)
      in if gesture_busy (gst b) then (g, True, b)
         else (g, False, if seq_active b then b\<lparr>seq_active := False, seq_matched := False\<rparr> else b))"

definition app_button_start :: "gesture_cfg \<Rightarrow> bool \<Rightarrow> btn_state" where
  "app_button_start cfg level =
     \<lparr>gst = gesture_init cfg, btn_level = level, pressed_at = 0, seq_active = False,
      seq_matched = False\<rparr>"

section \<open>Patterns are recognised\<close>

text \<open>A press and its release.\<close>

definition one_press :: "int \<times> int \<Rightarrow> gesture_state \<Rightarrow> gesture_state" where
  "one_press pr g = snd (gesture_release (snd pr) (snd (gesture_press (fst pr) g)))"

definition short_presses :: "gesture_cfg \<Rightarrow> int \<Rightarrow> (int \<times> int) list \<Rightarrow> bool" where
  "short_presses cfg start ps \<longleftrightarrow>
     (\<forall>(p, r) \<in> set ps. r - p < short_max_ms cfg \<and> (erase_ms cfg > 0 \<longrightarrow> r - p < erase_ms cfg)
        \<and> r - start \<le> window_ms cfg)"

definition classify :: "gesture_cfg \<Rightarrow> nat \<Rightarrow> gesture" where
  "classify cfg n =
     (if n = press_count cfg then GESTURE_PROVISION
      else if n = identify_count cfg then GESTURE_IDENTIFY else GESTURE_NONE)"

text \<open>The state in the middle of a sequence of \<open>n\<close> short presses.\<close>

definition counting :: "gesture_cfg \<Rightarrow> int \<Rightarrow> nat \<Rightarrow> gesture_state \<Rightarrow> bool" where
  "counting cfg start n g \<longleftrightarrow>
     gcfg g = cfg \<and> \<not> pressed g \<and> \<not> erase_armed g \<and> presses g = n \<and> (n > 0 \<longrightarrow> first_press g = start)
     \<and> (spoiled g \<longleftrightarrow> n > max (press_count cfg) (identify_count cfg))"

lemma one_press_counting:
  assumes "counting cfg start n g" "n = 0 \<longrightarrow> p = start" "short_presses cfg start [(p, r)]"
  shows "counting cfg start (Suc n) (one_press (p, r) g) \<and> last_release (one_press (p, r) g) = r"
proof -
  define h where "h = snd (gesture_press p g)"
  have g: "gcfg g = cfg" "\<not> pressed g" "\<not> erase_armed g" "presses g = n"
    "spoiled g \<longleftrightarrow> n > max (press_count cfg) (identify_count cfg)" "n > 0 \<longrightarrow> first_press g = start"
    using assms(1) by (simp_all add: counting_def)
  then have h: "gcfg h = cfg" "pressed h" "\<not> erase_armed h" "presses h = n" "press_at h = p"
    "spoiled h \<longleftrightarrow> n > max (press_count cfg) (identify_count cfg)" "first_press h = start"
    using assms(2) by (simp_all add: h_def gesture_press_def Let_def)
  have t: "\<not> r - p \<ge> short_max_ms cfg" "\<not> (erase_ms cfg > 0 \<and> r - p \<ge> erase_ms cfg)"
    "\<not> r - start > window_ms cfg"
    using assms(3) by (auto simp: short_presses_def)
  have ne: "(0 < erase_ms cfg \<and> erase_ms cfg \<le> r - p) = False" using t(2) by simp
  have "gesture_release r h = (GESTURE_NONE,
      let h = h\<lparr>pressed := False, presses := Suc n, last_release := r\<rparr>
      in if Suc n > max (press_count cfg) (identify_count cfg) then h\<lparr>spoiled := True\<rparr> else h)"
    unfolding gesture_release_def erase_on_def Let_def
    by (simp add: h t ne)
  then have "one_press (p, r) g =
      (let h = h\<lparr>pressed := False, presses := Suc n, last_release := r\<rparr>
       in if Suc n > max (press_count cfg) (identify_count cfg) then h\<lparr>spoiled := True\<rparr> else h)"
    by (simp add: one_press_def h_def [symmetric])
  then show ?thesis using h by (simp add: counting_def Let_def less_Suc_eq)
qed

lemma presses_counting:
  "counting cfg start n g \<Longrightarrow> ps \<noteq> [] \<Longrightarrow> (n = 0 \<longrightarrow> fst (hd ps) = start) \<Longrightarrow> short_presses cfg start ps \<Longrightarrow>
    counting cfg start (n + length ps) (fold one_press ps g)
    \<and> last_release (fold one_press ps g) = snd (last ps)"
proof (induction ps arbitrary: n g)
  case (Cons pr ps)
  obtain p r where pr: "pr = (p, r)" by (cases pr)
  have one: "counting cfg start (Suc n) (one_press pr g) \<and> last_release (one_press pr g) = r"
    using one_press_counting [of cfg start n g p r] Cons.prems by (simp add: pr short_presses_def)
  show ?case
  proof (cases "ps = []")
    case True
    then show ?thesis using one by (simp add: pr)
  next
    case False
    then show ?thesis
      using Cons.IH [of "Suc n" "one_press pr g"] one Cons.prems by (simp add: short_presses_def)
  qed
qed simp


definition default_gesture_cfg :: gesture_cfg where
  "default_gesture_cfg =
     \<lparr>press_count = 3, identify_count = 2, window_ms = 2000, short_max_ms = 1000, quiet_ms = 700,
      erase_ms = 10000\<rparr>"


section \<open>No erase without the long hold\<close>

text \<open>
  Any run of edges and ticks, each some time after the one before. The state is paired with
  the clock and the gestures reported, newest first.
\<close>

datatype btn_event = Press nat | Release nat | Tick nat

record grun =
  clock :: int
  gs :: gesture_state
  reported :: "(gesture \<times> int \<times> int) list"

text \<open>A report carries the time of the event and the time of the latest press.\<close>

definition gesture_react :: "btn_event \<Rightarrow> grun \<Rightarrow> grun" where
  "gesture_react e s =
     (let now = clock s + int (case e of Press d \<Rightarrow> d | Release d \<Rightarrow> d | Tick d \<Rightarrow> d);
          (g, st) = (case e of
             Press _ \<Rightarrow> gesture_press now (gs s)
           | Release _ \<Rightarrow> gesture_release now (gs s)
           | Tick _ \<Rightarrow> gesture_tick now (gs s))
      in \<lparr>clock = now, gs = st, reported = (g, now, press_at (gs s)) # reported s\<rparr>)"

definition erase_reports_ok :: "gesture_cfg \<Rightarrow> grun \<Rightarrow> bool" where
  "erase_reports_ok cfg s \<longleftrightarrow>
     gcfg (gs s) = cfg
     \<and> (erase_armed (gs s) \<longrightarrow> pressed (gs s) \<and> erase_ms cfg > 0 \<and> clock s - press_at (gs s) \<ge> erase_ms cfg)
     \<and> (\<forall>(g, now, at) \<in> set (reported s). g \<in> {GESTURE_ERASE, GESTURE_ERASE_ARMED} \<longrightarrow>
          erase_ms cfg > 0 \<and> now - at \<ge> erase_ms cfg)"

lemma gesture_react_ok: "erase_reports_ok cfg s \<Longrightarrow> erase_reports_ok cfg (gesture_react e s)"
  by (cases e)
    (auto simp: erase_reports_ok_def gesture_react_def gesture_press_def gesture_release_def
      gesture_tick_def erase_on_def reset_sequence_def Let_def)

interpretation gesture_run: event_system gesture_react "erase_reports_ok cfg" for cfg
  by unfold_locales (rule gesture_react_ok)

text \<open>
  Whatever edges and ticks arrive, credentials are never erased by accident: the erase
  gesture, and the warning before it, are reported only when the button has been held down for
  the configured time since its latest press, and never when the erase is switched off.
\<close>

theorem erase_needs_long_hold:
  assumes "(g, now, at) \<in> set (reported (fold gesture_react es
      \<lparr>clock = 0, gs = gesture_init cfg, reported = []\<rparr>))"
    and "g = GESTURE_ERASE \<or> g = GESTURE_ERASE_ARMED"
  shows "erase_ms cfg > 0 \<and> now - at \<ge> erase_ms cfg"
proof -
  have "erase_reports_ok cfg \<lparr>clock = 0, gs = gesture_init cfg, reported = []\<rparr>"
    by (simp add: erase_reports_ok_def gesture_init_def)
  from gesture_run.run_keeps [OF this, of es] show ?thesis
    using assms by (auto simp: gesture_run.run_def erase_reports_ok_def)
qed

theorem erase_needs_long_hold_witness:
  "(12000 :: int) - 1000 \<ge> erase_ms default_gesture_cfg"
  using erase_needs_long_hold [of GESTURE_ERASE 12000 1000 "[Press 1000, Release 11000]" default_gesture_cfg]
  by (simp add: gesture_react_def gesture_init_def gesture_press_def gesture_release_def erase_on_def
      default_gesture_cfg_def reset_sequence_def Let_def)

text \<open>
  The work item keeps itself scheduled exactly while a sequence is open, and a sequence
  never stays open: once the button is up and the quiet time has passed, the next run closes it
  and stops.
\<close>

theorem btn_work_settles:
  assumes "\<not> level" "level = btn_level b" "\<not> pressed (gst b)"
    and "now - last_release (gst b) \<ge> quiet_ms (gcfg (gst b))"
  shows "fst (snd (btn_work_fn now level b)) = False
    \<and> presses (gst (snd (snd (btn_work_fn now level b)))) = 0
    \<and> \<not> pressed (gst (snd (snd (btn_work_fn now level b))))"
  using assms
  by (auto simp: btn_work_fn_def gesture_tick_def gesture_busy_def reset_sequence_def Let_def)

theorem btn_work_settles_witness:
  "fst (snd (btn_work_fn 2000 False (app_button_start default_gesture_cfg False))) = False"
  using btn_work_settles [of False "app_button_start default_gesture_cfg False" 2000]
  by (simp add: app_button_start_def gesture_init_def default_gesture_cfg_def)

end
