(* ===== verification/Boot.thy ===== *)
theory Boot
  imports Gesture
begin

text \<open>
  The hand-over between the application, the Wi-Fi provisioner and MCUboot: the boot request
  record of \<^verbatim>\<open>src/lib/common/boot_request.c\<close>, the hooks of
  \<^verbatim>\<open>src/lib/mcuboot-hooks/prov_hooks.c\<close> that read it in the bootloader, and the gestures that
  write it (\<^verbatim>\<open>src/lib/common/prov_handoff.c\<close>). The flash map is Zephyr's: a partition is the
  bytes it holds, and every flash call's outcome is an input.
\<close>

section \<open>The flash map\<close>

text \<open>
  Whether a call succeeds, and if not, with which error and what it left in the partition (a
  power cut or a failing part can leave anything). A successful flatten leaves every byte at
  the erase value; a successful write changes the bytes it covers and no others.
\<close>

datatype flash_result = FlashOk | FlashFail errno bytes

record flash_io =
  io_open :: rc
  io_read :: rc
  io_flatten :: flash_result
  io_write :: flash_result

definition flash_area_read :: "flash_io \<Rightarrow> bytes \<Rightarrow> nat \<Rightarrow> nat \<Rightarrow> errno + bytes" where
  "flash_area_read io part off n =
     (case io_read io of OK \<Rightarrow> Inr (take n (drop off part)) | Err e \<Rightarrow> Inl e)"

definition flash_area_flatten :: "flash_io \<Rightarrow> bytes \<Rightarrow> rc \<times> bytes" where
  "flash_area_flatten io part =
     (case io_flatten io of
        FlashOk \<Rightarrow> (OK, replicate (length part) 0xFF)
      | FlashFail e left \<Rightarrow> (Err e, left))"

definition flash_area_write :: "flash_io \<Rightarrow> bytes \<Rightarrow> nat \<Rightarrow> bytes \<Rightarrow> rc \<times> bytes" where
  "flash_area_write io part off bs =
     (case io_write io of
        FlashOk \<Rightarrow> (OK, take off part @ bs @ drop (off + length bs) part)
      | FlashFail e left \<Rightarrow> (Err e, left))"

section \<open>The boot request record\<close>

definition le32 :: "u32 \<Rightarrow> bytes" where
  "le32 v = [ucast v, ucast (drop_bit 8 v), ucast (drop_bit 16 v), ucast (drop_bit 24 v)]"

definition of_le32 :: "bytes \<Rightarrow> u32" where
  "of_le32 bs = ucast (bs ! 0) OR push_bit 8 (ucast (bs ! 1)) OR push_bit 16 (ucast (bs ! 2))
     OR push_bit 24 (ucast (bs ! 3))"

definition BOOT_REQUEST_MAGIC :: u32 where "BOOT_REQUEST_MAGIC = 0x564f5250"
definition IMAGE_MAGIC :: u32 where "IMAGE_MAGIC = 0x96f3b83d"
definition BOOT_REQUEST_PROVISIONER :: u32 where "BOOT_REQUEST_PROVISIONER = 1"

datatype boot_reason = BOOT_REQUEST_NO_CREDENTIALS | BOOT_REQUEST_OPERATOR

primrec reason_value :: "boot_reason \<Rightarrow> u32" where
  "reason_value BOOT_REQUEST_NO_CREDENTIALS = 1"
| "reason_value BOOT_REQUEST_OPERATOR = 2"

record boot_request =
  br_magic :: u32
  br_target :: u32
  br_reason :: u32
  br_reserved :: u32

definition boot_request_bytes :: "boot_request \<Rightarrow> bytes" where
  "boot_request_bytes r = le32 (br_magic r) @ le32 (br_target r) @ le32 (br_reason r) @ le32 (br_reserved r)"

definition boot_request_of :: "bytes \<Rightarrow> boot_request" where
  "boot_request_of bs =
     \<lparr>br_magic = of_le32 (take 4 bs), br_target = of_le32 (take 4 (drop 4 bs)),
      br_reason = of_le32 (take 4 (drop 8 bs)), br_reserved = of_le32 (take 4 (drop 12 bs))\<rparr>"

definition boot_request_read :: "flash_io \<Rightarrow> bytes \<Rightarrow> errno + boot_request" where
  "boot_request_read io part =
     (case io_open io of
        Err e \<Rightarrow> Inl e
      | OK \<Rightarrow>
          (case flash_area_read io part 0 16 of
             Inl e \<Rightarrow> Inl e
           | Inr bs \<Rightarrow>
               (let out = boot_request_of bs
                in if br_magic out = BOOT_REQUEST_MAGIC then Inr out else Inl ENOENT)))"

definition boot_request_set :: "flash_io \<Rightarrow> u32 \<Rightarrow> boot_reason \<Rightarrow> bytes \<Rightarrow> rc \<times> bytes" where
  "boot_request_set io target reason part =
     (let req = \<lparr>br_magic = BOOT_REQUEST_MAGIC, br_target = target, br_reason = reason_value reason,
                 br_reserved = 0\<rparr>
      in case io_open io of
           Err e \<Rightarrow> (Err e, part)
         | OK \<Rightarrow>
             (let (rc, part) = flash_area_flatten io part
              in if rc = OK then flash_area_write io part 0 (boot_request_bytes req) else (rc, part)))"

definition boot_request_clear :: "flash_io \<Rightarrow> bytes \<Rightarrow> rc \<times> bytes" where
  "boot_request_clear io part =
     (case io_open io of Err e \<Rightarrow> (Err e, part) | OK \<Rightarrow> flash_area_flatten io part)"

definition boot_request_provisioner_present :: "flash_io \<Rightarrow> bytes \<Rightarrow> bool" where
  "boot_request_provisioner_present io prov =
     (case io_open io of
        Err e \<Rightarrow> False
      | OK \<Rightarrow> (case flash_area_read io prov 0 4 of Inl e \<Rightarrow> False | Inr bs \<Rightarrow> of_le32 bs = IMAGE_MAGIC))"

text \<open>How a device resets itself: on the ESP32 the whole digital system, elsewhere a cold reboot.\<close>

datatype reset_kind = ESP_ROM_SOFTWARE_RESET | SYS_REBOOT_COLD

definition boot_request_reboot :: "bool \<Rightarrow> reset_kind" where
  "boot_request_reboot esp32 = (if esp32 then ESP_ROM_SOFTWARE_RESET else SYS_REBOOT_COLD)"

section \<open>The MCUboot hooks\<close>

definition provisioner_requested :: "flash_io \<Rightarrow> bytes \<Rightarrow> bool" where
  "provisioner_requested io part =
     (case io_open io of
        Err e \<Rightarrow> False
      | OK \<Rightarrow>
          (case flash_area_read io part 0 16 of
             Inl e \<Rightarrow> False
           | Inr bs \<Rightarrow> br_magic (boot_request_of bs) = BOOT_REQUEST_MAGIC
               \<and> br_target (boot_request_of bs) = BOOT_REQUEST_PROVISIONER))"

text \<open>
  The bootutil calls of \<open>boot_go_hook\<close> as results: opening the provisioner partition, loading
  its header, reading the slot layout, validating the image.
\<close>

record boot_io =
  bo_req :: flash_io
  bo_prov_open :: bool
  bo_header_ok :: bool
  bo_layout_ok :: bool
  bo_valid :: bool

datatype boot_verdict = BootHookRegular | BootProvisioner

text \<open>The verdict and \<open>prov_launch\<close> after the call.\<close>

definition boot_go_hook :: "boot_io \<Rightarrow> bytes \<Rightarrow> bool \<Rightarrow> boot_verdict \<times> bool" where
  "boot_go_hook io part prov_launch =
     (if \<not> provisioner_requested (bo_req io) part then (BootHookRegular, prov_launch)
      else if \<not> bo_prov_open io then (BootHookRegular, prov_launch)
      else if \<not> bo_header_ok io then (BootHookRegular, prov_launch)
      else if \<not> bo_layout_ok io then (BootHookRegular, prov_launch)
      else if \<not> bo_valid io then (BootHookRegular, prov_launch)
      else (BootProvisioner, True))"

text \<open>The slot lookup: the provisioner's partition while its launch is in progress.\<close>

definition flash_area_id_from_multi_image_slot_hook :: "bool \<Rightarrow> 'id \<Rightarrow> 'id option" where
  "flash_area_id_from_multi_image_slot_hook prov_launch prov_id =
     (if prov_launch then Some prov_id else None)"

section \<open>The application's side\<close>

datatype prov_action =
    LedFlash string nat
  | EraseCredentials
  | Reboot

definition request_provisioner :: "flash_io \<Rightarrow> bytes \<Rightarrow> boot_reason \<Rightarrow> bytes \<Rightarrow> bool \<times> bytes" where
  "request_provisioner io prov reason part =
     (if \<not> boot_request_provisioner_present io prov then (False, part)
      else
        let (rc, part) = boot_request_set io BOOT_REQUEST_PROVISIONER reason part
        in (rc = OK, part))"

definition ack_and_reboot :: "prov_action list" where
  "ack_and_reboot = [LedFlash ''identify'' 1000, Reboot]"

definition app_prov_handoff_no_credentials :: "flash_io \<Rightarrow> bytes \<Rightarrow> bytes \<Rightarrow> prov_action list \<times> bytes" where
  "app_prov_handoff_no_credentials io prov part =
     (let (ok, part) = request_provisioner io prov BOOT_REQUEST_NO_CREDENTIALS part
      in (if ok then [Reboot] else [], part))"

text \<open>\<open>have\<close>: whether credentials still resolve after the stored ones were erased.\<close>

definition app_prov_handle_gesture ::
  "flash_io \<Rightarrow> bytes \<Rightarrow> bool \<Rightarrow> gesture \<Rightarrow> bytes \<Rightarrow> prov_action list \<times> bytes" where
  "app_prov_handle_gesture io prov have_creds g part =
     (case g of
        GESTURE_PROVISION \<Rightarrow>
          (let (ok, part) = request_provisioner io prov BOOT_REQUEST_OPERATOR part
           in (if ok then ack_and_reboot else [], part))
      | GESTURE_ERASE_ARMED \<Rightarrow> ([LedFlash ''erase_armed'' 120000], part)
      | GESTURE_ERASE \<Rightarrow>
          (let (ok, part) = request_provisioner io prov
                 (if have_creds then BOOT_REQUEST_OPERATOR else BOOT_REQUEST_NO_CREDENTIALS) part
           in (EraseCredentials # (if ok then ack_and_reboot else [Reboot]), part))
      | _ \<Rightarrow> ([], part))"

section \<open>The record survives\<close>

lemma length_le32 [simp]: "length (le32 v) = 4"
  by (simp add: le32_def)

lemma of_le32_le32 [simp]: "of_le32 (le32 v) = v"
  unfolding of_le32_def le32_def
  apply (rule bit_word_eqI)
  subgoal for n by (cases "n < 8"; cases "n < 16"; cases "n < 24") (auto simp: bit_simps)
  done

lemma le32_of_le32:
  assumes "length bs = 4" shows "le32 (of_le32 bs) = bs"
proof -
  from assms obtain a b c d where bs: "bs = [a, b, c, d]"
    by (auto simp: numeral_eq_Suc length_Suc_conv)
  show ?thesis
    unfolding bs le32_def of_le32_def
    by (simp, intro conjI; rule bit_word_eqI) (auto simp: bit_simps dest: bit_imp_le_length)
qed

lemma replicate_4: "replicate 4 x = [x, x, x, x]"
  by (simp add: eval_nat_numeral)

lemma boot_request_roundtrip [simp]: "boot_request_of (boot_request_bytes r) = r"
  by (simp add: boot_request_of_def boot_request_bytes_def)

lemma length_boot_request [simp]: "length (boot_request_bytes r) = 16"
  by (simp add: boot_request_bytes_def)

definition all_ok :: flash_io where
  "all_ok = \<lparr>io_open = OK, io_read = OK, io_flatten = FlashOk, io_write = FlashOk\<rparr>"

text \<open>A partition at least as long as the record, as on every board.\<close>

definition part_ok :: "bytes \<Rightarrow> bool" where
  "part_ok part \<longleftrightarrow> 16 \<le> length part"

lemma set_ok_part:
  assumes "io_open io = OK" "io_flatten io = FlashOk" "io_write io = FlashOk"
  shows "boot_request_set io t r part =
    (OK, boot_request_bytes \<lparr>br_magic = BOOT_REQUEST_MAGIC, br_target = t, br_reason = reason_value r,
       br_reserved = 0\<rparr> @ replicate (length part - 16) 0xFF)"
  using assms by (simp add: boot_request_set_def flash_area_flatten_def flash_area_write_def Let_def)

lemma requested_iff:
  "io_open io = OK \<Longrightarrow> io_read io = OK \<Longrightarrow> provisioner_requested io part \<longleftrightarrow>
    br_magic (boot_request_of (take 16 part)) = BOOT_REQUEST_MAGIC
    \<and> br_target (boot_request_of (take 16 part)) = BOOT_REQUEST_PROVISIONER"
  by (simp add: provisioner_requested_def flash_area_read_def)

lemma erased_not_requested:
  assumes "part_ok part"
  shows "\<not> provisioner_requested io (replicate (length part) 0xFF)"
    and "io_open io = OK \<Longrightarrow> io_read io = OK \<Longrightarrow>
      boot_request_read io (replicate (length part) 0xFF) = Inl ENOENT"
proof -
  have "of_le32 (replicate 4 0xFF) \<noteq> BOOT_REQUEST_MAGIC"
    by (simp add: of_le32_def BOOT_REQUEST_MAGIC_def replicate_4)
  moreover have "take 4 (take 16 (replicate (length part) 0xFF)) = replicate 4 (0xFF :: byte)"
    using assms by (simp add: part_ok_def min_def)
  ultimately have m: "br_magic (boot_request_of (take 16 (replicate (length part) 0xFF))) \<noteq> BOOT_REQUEST_MAGIC"
    by (simp add: boot_request_of_def)
  then show "\<not> provisioner_requested io (replicate (length part) 0xFF)"
    by (simp add: provisioner_requested_def flash_area_read_def split: rc.split)
  show "io_open io = OK \<Longrightarrow> io_read io = OK \<Longrightarrow>
      boot_request_read io (replicate (length part) 0xFF) = Inl ENOENT"
    using m by (simp add: boot_request_read_def flash_area_read_def Let_def)
qed

text \<open>
  C7. A boot request that was written is acted on until it is cleared: every later boot that can
  read the partition and validate the provisioner launches it, the provisioner reads back the
  reason it was given, and after a successful clear every boot runs the application.
\<close>

theorem boot_request_lifecycle:
  assumes "part_ok part" "boot_request_set all_ok BOOT_REQUEST_PROVISIONER reason part = (OK, part')"
    and "bo_req io = all_ok" "bo_prov_open io" "bo_header_ok io" "bo_layout_ok io" "bo_valid io"
  shows "boot_go_hook io part' launch = (BootProvisioner, True)
    \<and> map_sum id br_reason (boot_request_read all_ok part') = Inr (reason_value reason)
    \<and> fst (boot_request_clear all_ok part') = OK
    \<and> boot_go_hook io (snd (boot_request_clear all_ok part')) launch = (BootHookRegular, launch)
    \<and> boot_request_read all_ok (snd (boot_request_clear all_ok part')) = Inl ENOENT"
proof -
  let ?r = "\<lparr>br_magic = BOOT_REQUEST_MAGIC, br_target = BOOT_REQUEST_PROVISIONER,
      br_reason = reason_value reason, br_reserved = 0\<rparr>"
  have part': "part' = boot_request_bytes ?r @ replicate (length part - 16) 0xFF"
    using assms(2) by (simp add: set_ok_part all_ok_def)
  then have rec: "boot_request_of (take 16 part') = ?r" and ok: "part_ok part'"
    by (simp_all add: part_ok_def)
  have clear: "boot_request_clear all_ok part' = (OK, replicate (length part') 0xFF)"
    by (simp add: boot_request_clear_def flash_area_flatten_def all_ok_def)
  have "provisioner_requested all_ok part'"
    using rec by (simp add: requested_iff all_ok_def)
  then show ?thesis
    using assms(3-) rec erased_not_requested [OF ok, of all_ok]
    by (simp add: boot_go_hook_def clear) (simp add: boot_request_read_def flash_area_read_def all_ok_def Let_def)
qed

theorem boot_request_lifecycle_witness:
  "boot_go_hook \<lparr>bo_req = all_ok, bo_prov_open = True, bo_header_ok = True, bo_layout_ok = True, bo_valid = True\<rparr>
     (snd (boot_request_set all_ok BOOT_REQUEST_PROVISIONER BOOT_REQUEST_OPERATOR (replicate 16 0)))
     False = (BootProvisioner, True)"
proof -
  have "boot_request_set all_ok BOOT_REQUEST_PROVISIONER BOOT_REQUEST_OPERATOR (replicate 16 0) =
      (OK, snd (boot_request_set all_ok BOOT_REQUEST_PROVISIONER BOOT_REQUEST_OPERATOR (replicate 16 0)))"
    by (simp add: set_ok_part all_ok_def)
  from boot_request_lifecycle [OF _ this] show ?thesis by (simp add: part_ok_def)
qed

text \<open>
  The bootloader never launches anything but a requested and validated provisioner: whatever
  the flash holds and whichever call fails, the hook either leaves MCUboot's own logic to boot
  the application, or the record asked for the provisioner and its image was validated.
\<close>

theorem boot_hook_fail_safe:
  "fst (boot_go_hook io part launch) = BootProvisioner \<longleftrightarrow>
    io_open (bo_req io) = OK \<and> io_read (bo_req io) = OK
    \<and> br_magic (boot_request_of (take 16 part)) = BOOT_REQUEST_MAGIC
    \<and> br_target (boot_request_of (take 16 part)) = BOOT_REQUEST_PROVISIONER
    \<and> bo_prov_open io \<and> bo_header_ok io \<and> bo_layout_ok io \<and> bo_valid io"
  by (auto simp: boot_go_hook_def provisioner_requested_def flash_area_read_def split: rc.splits)

text \<open>
  A power cut while a request is written cannot produce a half request: after the erase,
  the first \<open>k\<close> bytes of the record count as a request exactly when they reach past the target
  field, that is when magic and target are both complete.
\<close>

theorem torn_request_ignored:
  assumes "part_ok part" "k \<le> 16" "io_open io = OK" "io_flatten io = FlashOk"
    and "io_write io = FlashFail e (take k (boot_request_bytes \<lparr>br_magic = BOOT_REQUEST_MAGIC,
        br_target = BOOT_REQUEST_PROVISIONER, br_reason = reason_value reason, br_reserved = 0\<rparr>)
        @ replicate (length part - k) 0xFF)"
  shows "provisioner_requested all_ok (snd (boot_request_set io BOOT_REQUEST_PROVISIONER reason part))
    \<longleftrightarrow> 8 \<le> k"
proof -
  let ?rec = "boot_request_bytes \<lparr>br_magic = BOOT_REQUEST_MAGIC, br_target = BOOT_REQUEST_PROVISIONER,
      br_reason = reason_value reason, br_reserved = 0\<rparr>"
  let ?part = "take k ?rec @ replicate (length part - k) 0xFF"
  have set: "snd (boot_request_set io BOOT_REQUEST_PROVISIONER reason part) = ?part"
    using assms(3-5) by (simp add: boot_request_set_def flash_area_flatten_def flash_area_write_def Let_def)
  show ?thesis
  proof (cases "8 \<le> k")
    case True
    then have "\<exists>rest. ?part = le32 BOOT_REQUEST_MAGIC @ le32 BOOT_REQUEST_PROVISIONER @ rest"
      by (simp add: boot_request_bytes_def)
    then obtain rest where "?part = le32 BOOT_REQUEST_MAGIC @ le32 BOOT_REQUEST_PROVISIONER @ rest" ..
    then show ?thesis using True
      by (simp only: set requested_iff all_ok_def flash_io.simps boot_request_of_def boot_request.simps) simp
  next
    case False
    have len: "length ?part = length part" using assms(1,2) by (simp add: part_ok_def)
    have "?part ! 7 = 0xFF" using False assms(1) by (simp add: nth_append part_ok_def)
    moreover have "?part ! 7 = 0" if "br_target (boot_request_of (take 16 ?part)) = BOOT_REQUEST_PROVISIONER"
    proof -
      let ?t = "take 4 (drop 4 (take 16 ?part))"
      have "?t = le32 BOOT_REQUEST_PROVISIONER"
        using that assms(1) len le32_of_le32 [of ?t]
        by (simp only: boot_request_of_def boot_request.simps) (simp add: part_ok_def)
      then have "?t ! 3 = 0" by (simp add: le32_def BOOT_REQUEST_PROVISIONER_def)
      moreover have "take 4 (drop 4 (take 16 p)) ! 3 = p ! 7" if "16 \<le> length p" for p :: bytes
        using that by simp
      ultimately show ?thesis using assms(1) len by (metis part_ok_def)
    qed
    ultimately show ?thesis using False by (auto simp: set requested_iff all_ok_def)
  qed
qed

theorem torn_request_ignored_witness:
  "\<not> provisioner_requested all_ok (snd (boot_request_set
      (all_ok\<lparr>io_write := FlashFail EIO (take 7 (boot_request_bytes \<lparr>br_magic = BOOT_REQUEST_MAGIC,
        br_target = BOOT_REQUEST_PROVISIONER, br_reason = 2, br_reserved = 0\<rparr>)
        @ replicate (16 - 7) 0xFF)\<rparr>) BOOT_REQUEST_PROVISIONER BOOT_REQUEST_OPERATOR (replicate 16 0)))"
  by (subst torn_request_ignored [where k = 7 and e = EIO]) (simp_all add: part_ok_def all_ok_def)

text \<open>
  The provisioning gesture reboots only into a provisioner: when it reboots, the record in
  flash asks for it; when no provisioner is flashed or the record cannot be written, the
  application keeps running. The erase gesture always erases and reboots.
\<close>

theorem provision_gesture_reboots_into_provisioner:
  assumes "part_ok part"
  shows "(Reboot \<in> set (fst (app_prov_handle_gesture io prov have_creds GESTURE_PROVISION part)) \<longrightarrow>
      provisioner_requested all_ok (snd (app_prov_handle_gesture io prov have_creds GESTURE_PROVISION part)))
    \<and> (\<not> boot_request_provisioner_present io prov \<longrightarrow>
      app_prov_handle_gesture io prov have_creds GESTURE_PROVISION part = ([], part))
    \<and> EraseCredentials \<in> set (fst (app_prov_handle_gesture io prov have_creds GESTURE_ERASE part))
    \<and> Reboot \<in> set (fst (app_prov_handle_gesture io prov have_creds GESTURE_ERASE part))"
proof -
  have "provisioner_requested all_ok part'"
    if ok: "boot_request_set io BOOT_REQUEST_PROVISIONER r part = (OK, part')" for r part'
  proof -
    have "io_open io = OK" "io_flatten io = FlashOk" "io_write io = FlashOk"
      using ok by (auto simp: boot_request_set_def flash_area_flatten_def flash_area_write_def Let_def
          split: rc.splits flash_result.splits)
    from set_ok_part [OF this, of BOOT_REQUEST_PROVISIONER r part] ok show ?thesis
      by (auto simp: requested_iff all_ok_def)
  qed
  then show ?thesis
    by (auto simp: app_prov_handle_gesture_def request_provisioner_def ack_and_reboot_def Let_def
        split: prod.split)
qed

theorem provision_gesture_reboots_into_provisioner_witness:
  "app_prov_handle_gesture all_ok (replicate 16 0xFF) True GESTURE_PROVISION (replicate 16 0xFF)
    = ([], replicate 16 0xFF)"
proof -
  have "\<not> boot_request_provisioner_present all_ok (replicate 16 0xFF)"
    by (simp add: boot_request_provisioner_present_def flash_area_read_def all_ok_def of_le32_def
        IMAGE_MAGIC_def replicate_4)
  then show ?thesis
    using provision_gesture_reboots_into_provisioner [of "replicate 16 0xFF" all_ok "replicate 16 0xFF" True]
    by (simp add: part_ok_def)
qed

end
