(* ===== verification/Net.thy ===== *)
theory Net
  imports Prelude
begin

text \<open>
  Connectivity, \<^verbatim>\<open>src/lib/common/net.c\<close> with \<^verbatim>\<open>CONFIG_APP_WIFI\<close>: which credentials are
  used, the reactions to network events, the watchdog tick with its reachability gate and
  escalation, the reconnect work, and the provisioner's test of candidate credentials. The Wi-Fi
  driver, the IP stack and the credential store are inputs; what a handler asks of them is an
  action in its result. The display is left out.
\<close>

section \<open>Credentials\<close>

record app_wifi_creds =
  ssid :: string
  psk :: string

definition no_creds :: app_wifi_creds where "no_creds = \<lparr>ssid = [], psk = []\<rparr>"

text \<open>
  \<open>prov_mode\<close> is true in the provisioner image; \<open>reboot_timeout_s\<close> is set when the last-resort
  reboot is configured; \<open>ping_gate\<close> when the native IPv4 stack is in use.
\<close>

record net_cfg =
  prov_mode :: bool
  cred_store :: bool
  cfg_ssid :: string
  cfg_psk :: string
  reboot_timeout_s :: "nat option"
  ping_gate :: bool

text \<open>The credential store: its SSIDs in order, and the password stored for one.\<close>

record wifi_store =
  ws_ssids :: "string list"
  ws_password :: "string \<Rightarrow> string option"

definition stored_ssid_cb :: "string \<Rightarrow> app_wifi_creds \<Rightarrow> app_wifi_creds" where
  "stored_ssid_cb name out = (if ssid out = [] \<and> length name < 33 then out\<lparr>ssid := name\<rparr> else out)"

definition stored_creds :: "wifi_store \<Rightarrow> app_wifi_creds option" where
  "stored_creds ws =
     (let out = fold stored_ssid_cb (ws_ssids ws) no_creds
      in if ssid out = [] then None
         else case ws_password ws (ssid out) of
           None \<Rightarrow> None
         | Some pw \<Rightarrow> if length pw \<ge> 65 then None else Some (out\<lparr>psk := pw\<rparr>))"

definition app_wifi_creds_resolve :: "net_cfg \<Rightarrow> wifi_store \<Rightarrow> errno + app_wifi_creds" where
  "app_wifi_creds_resolve cfg ws =
     (case if cred_store cfg then stored_creds ws else None of
        Some c \<Rightarrow> Inr c
      | None \<Rightarrow>
          if cfg_ssid cfg = [] \<or> length (cfg_ssid cfg) \<ge> 33 \<or> length (cfg_psk cfg) \<ge> 65 then Inl ENOENT
          else Inr \<lparr>ssid = cfg_ssid cfg, psk = cfg_psk cfg\<rparr>)"

text \<open>\<open>iface\<close>: there is a Wi-Fi interface. \<open>req\<close>: what the driver answers a connect request.\<close>

definition wifi_connect :: "bool \<Rightarrow> (app_wifi_creds \<Rightarrow> rc) \<Rightarrow> app_wifi_creds \<Rightarrow> rc" where
  "wifi_connect iface req c =
     (if \<not> iface then Err ENODEV else if ssid c = [] then Err EINVAL else req c)"

section \<open>State and events\<close>

record net_state =
  connected :: bool
  current_ipv4 :: u32
  net_connected_sem :: bool
  g_last_reason :: int
  led_connected :: bool
  try_active :: bool
  try_result :: rc
  try_sem :: bool
  bad_ticks :: u32
  last_ping_ok :: u32
  ping_stall :: u32
  ping_proven :: bool

definition net_init :: net_state where
  "net_init = \<lparr>connected = False, current_ipv4 = 0, net_connected_sem = False, g_last_reason = -1,
     led_connected = False, try_active = False, try_result = OK, try_sem = False, bad_ticks = 0,
     last_ping_ok = 0, ping_stall = 0, ping_proven = False\<rparr>"

text \<open>What a handler asks for: a reconnect after so many seconds, a Wi-Fi disconnect, a reboot.\<close>

datatype net_action = Reconnect nat | WifiDisconnect | RebootCold

definition try_done :: "rc \<Rightarrow> net_state \<Rightarrow> net_state" where
  "try_done r s = (if try_active s then s\<lparr>try_active := False, try_result := r, try_sem := True\<rparr> else s)"

text \<open>\<open>ip\<close> is what \<open>read_iface_ipv4\<close> returns.\<close>

definition mark_connected :: "net_cfg \<Rightarrow> u32 \<Rightarrow> bool \<Rightarrow> net_state \<Rightarrow> net_state" where
  "mark_connected cfg ip up s =
     (let s = s\<lparr>connected := up\<rparr>;
          s = (if \<not> prov_mode cfg then s\<lparr>led_connected := up\<rparr> else s)
      in if up then
           (let s = s\<lparr>current_ipv4 := ip, net_connected_sem := True\<rparr>
            in if prov_mode cfg then try_done OK s else s)
         else s)"

datatype l4_event = L4_CONNECTED | L4_DISCONNECTED

definition l4_event_handler :: "net_cfg \<Rightarrow> u32 \<Rightarrow> l4_event \<Rightarrow> net_state \<Rightarrow> net_action list \<times> net_state" where
  "l4_event_handler cfg ip e s =
     (case e of
        L4_CONNECTED \<Rightarrow> ([], mark_connected cfg ip True s)
      | L4_DISCONNECTED \<Rightarrow>
          (if prov_mode cfg then [] else [Reconnect 2], mark_connected cfg ip False s))"

text \<open>A disconnect with its reason, or the result of a connect: 0, or the failure status.\<close>

datatype wifi_event = DisconnectResult int | ConnectResult int

definition wifi_event_handler :: "net_cfg \<Rightarrow> u32 \<Rightarrow> wifi_event \<Rightarrow> net_state \<Rightarrow> net_action list \<times> net_state" where
  "wifi_event_handler cfg ip e s =
     (case e of
        DisconnectResult reason \<Rightarrow>
          (let s = mark_connected cfg ip False (s\<lparr>g_last_reason := reason\<rparr>)
           in if prov_mode cfg then ([], try_done (Err ECONNREFUSED) s) else ([Reconnect 2], s))
      | ConnectResult st \<Rightarrow>
          (if st \<noteq> 0 then
             (let s = s\<lparr>g_last_reason := st\<rparr>
              in if prov_mode cfg then ([], try_done (Err ECONNREFUSED) s) else ([Reconnect 2], s))
           else ([], s)))"

text \<open>The reconnect work: whether it calls the driver, and the retry it schedules.\<close>

definition reconnect_handler ::
  "net_cfg \<Rightarrow> wifi_store \<Rightarrow> bool \<Rightarrow> (app_wifi_creds \<Rightarrow> rc) \<Rightarrow> net_state \<Rightarrow> net_action list" where
  "reconnect_handler cfg ws iface req s =
     (if connected s \<or> prov_mode cfg then []
      else
        let c = (case app_wifi_creds_resolve cfg ws of Inr c \<Rightarrow> c | Inl _ \<Rightarrow> no_creds)
        in if wifi_connect iface req c \<noteq> OK then [Reconnect 2] else [])"

section \<open>The watchdog\<close>

abbreviation (input) WD_TRIGGER_TICKS :: u32 where "WD_TRIGGER_TICKS \<equiv> 2"
abbreviation (input) WD_PING_STALL_MAX :: u32 where "WD_PING_STALL_MAX \<equiv> 5"

definition reachability :: "u32 \<Rightarrow> net_state \<Rightarrow> net_state" where
  "reachability now_ok s =
     (if now_ok \<noteq> last_ping_ok s
      then s\<lparr>ping_proven := True, ping_stall := 0, last_ping_ok := now_ok\<rparr>
      else s\<lparr>ping_stall := ping_stall s + 1\<rparr>)"

definition escalation :: "net_cfg \<Rightarrow> bool \<Rightarrow> u32 \<Rightarrow> net_action list" where
  "escalation cfg iface n =
     (if n mod WD_TRIGGER_TICKS = 0
      then (if n = 10 \<and> iface then [WifiDisconnect] else []) @ [Reconnect 0] else [])
     @ (case reboot_timeout_s cfg of
          Some t \<Rightarrow> if n * 3 \<ge> of_nat t then [RebootCold] else []
        | None \<Rightarrow> [])"

definition connectivity_watchdog ::
  "net_cfg \<Rightarrow> bool \<Rightarrow> u32 \<Rightarrow> u32 \<Rightarrow> net_state \<Rightarrow> net_action list \<times> net_state" where
  "connectivity_watchdog cfg iface ip now_ok s =
     (if prov_mode cfg then ([], s)
      else
        let healthy = ip \<noteq> 0;
            s = (if ping_gate cfg then reachability now_ok s else s);
            healthy = (if ping_gate cfg \<and> ping_proven s \<and> ping_stall s \<ge> WD_PING_STALL_MAX then False
                       else healthy)
        in if healthy then
             ([], (if \<not> connected s then mark_connected cfg ip True s else s)\<lparr>bad_ticks := 0\<rparr>)
           else
             (let s = (if connected s then mark_connected cfg ip False s else s);
                  s = s\<lparr>bad_ticks := bad_ticks s + 1\<rparr>
              in (escalation cfg iface (bad_ticks s), s)))"

section \<open>Waiting and testing\<close>

text \<open>
  \<open>app_net_wait_connected\<close>: \<open>given\<close> tells whether the semaphore is given before the timeout.
\<close>

definition app_net_wait_connected :: "bool \<Rightarrow> net_state \<Rightarrow> rc \<times> net_state" where
  "app_net_wait_connected given s =
     (if connected s then (OK, s)
      else if net_connected_sem s \<or> given then (OK, s\<lparr>net_connected_sem := False\<rparr>)
      else (Err ETIMEDOUT, s))"

text \<open>
  The wake-ups of the wait in \<open>app_net_try_credentials\<close> until its timepoint: for each, what the
  semaphore brought (\<open>None\<close>: the 500 ms passed) and whether the interface has an address then.
  The result and the number of connect requests.
\<close>

fun try_wait :: "(rc option \<times> bool) list \<Rightarrow> nat \<Rightarrow> rc \<times> nat" where
  "try_wait [] attempts = (Err ETIMEDOUT, attempts)"
| "try_wait ((woken, ip) # ws) attempts =
     (if woken \<noteq> None \<and> woken \<noteq> Some OK then
        (if attempts \<ge> 3 then (the woken, attempts) else try_wait ws (attempts + 1))
      else if ip then (OK, attempts)
      else try_wait ws attempts)"

definition app_net_try_credentials ::
  "bool \<Rightarrow> (app_wifi_creds \<Rightarrow> rc) \<Rightarrow> (rc option \<times> bool) list \<Rightarrow> app_wifi_creds
    \<Rightarrow> net_state \<Rightarrow> rc \<times> net_action list \<times> net_state" where
  "app_net_try_credentials iface req wakes c s =
     (let rc0 = wifi_connect iface req c;
          rc = (if rc0 = OK then fst (try_wait wakes 1) else rc0);
          s = s\<lparr>try_sem := False, try_active := False\<rparr>
      in (rc, if rc \<noteq> OK \<and> iface then [WifiDisconnect] else [], s))"


section \<open>An outage\<close>

text \<open>A run of watchdog ticks, each with the interface address and the count of ping replies.\<close>

fun watch_run ::
  "net_cfg \<Rightarrow> bool \<Rightarrow> (u32 \<times> u32) list \<Rightarrow> net_state \<Rightarrow> net_action list \<times> net_state" where
  "watch_run cfg iface [] s = ([], s)"
| "watch_run cfg iface ((ip, ok) # ts) s =
     (let (a, s) = connectivity_watchdog cfg iface ip ok s;
          (as, s) = watch_run cfg iface ts s
      in (a @ as, s))"

lemma watchdog_offline:
  assumes "\<not> prov_mode cfg"
  shows "\<exists>s'. connectivity_watchdog cfg iface 0 ok s = (escalation cfg iface (bad_ticks s + 1), s')
    \<and> bad_ticks s' = bad_ticks s + 1 \<and> \<not> connected s'"
  using assms by (auto simp: connectivity_watchdog_def reachability_def mark_connected_def Let_def)

lemma watch_run_offline:
  assumes "\<not> prov_mode cfg" "list_all (\<lambda>t. fst t = 0) ts"
  shows "fst (watch_run cfg iface ts s)
    = concat (map (\<lambda>i. escalation cfg iface (bad_ticks s + of_nat i)) [1..<length ts + 1])
    \<and> bad_ticks (snd (watch_run cfg iface ts s)) = bad_ticks s + of_nat (length ts)
    \<and> (ts \<noteq> [] \<longrightarrow> \<not> connected (snd (watch_run cfg iface ts s)))"
  using assms(2)
proof (induction ts arbitrary: s)
  case (Cons t ts)
  obtain ok where t: "t = (0, ok)" using Cons.prems by (cases t) auto
  obtain s' where w: "connectivity_watchdog cfg iface 0 ok s = (escalation cfg iface (bad_ticks s + 1), s')"
    "bad_ticks s' = bad_ticks s + 1" "\<not> connected s'" using watchdog_offline [OF assms(1)] by blast
  have ih: "fst (watch_run cfg iface ts s')
      = concat (map (\<lambda>i. escalation cfg iface (bad_ticks s' + of_nat i)) [1..<length ts + 1])"
    "bad_ticks (snd (watch_run cfg iface ts s')) = bad_ticks s' + of_nat (length ts)"
    "ts \<noteq> [] \<longrightarrow> \<not> connected (snd (watch_run cfg iface ts s'))"
    using Cons.IH [of s'] Cons.prems by auto
  have upt: "[1..<length (t # ts) + 1] = 1 # map Suc [1..<length ts + 1]"
    unfolding map_Suc_upt by (simp add: upt_conv_Cons del: upt_Suc)
  obtain a u where r: "watch_run cfg iface ts s' = (a, u)" by fastforce
  show ?case
    unfolding upt using ih w(2, 3) r
    by (cases "ts = []") (simp_all add: t w(1) comp_def algebra_simps del: upt_Suc)
qed simp

lemma reboot_in_escalation:
  assumes "reboot_timeout_s cfg = Some T" "i \<le> 100000" "T \<le> 86400"
  shows "RebootCold \<in> set (escalation cfg iface (of_nat i)) \<longleftrightarrow> T \<le> 3 * i"
proof -
  have i: "unat ((of_nat i :: u32) * 3) = 3 * i"
    using assms(2) by (simp add: unat_word_ariths unat_of_nat take_bit_eq_mod mod_mult_left_eq)
  have T: "unat (of_nat T :: u32) = T" using assms(3) by (simp add: unat_of_nat take_bit_eq_mod)
  have "(of_nat T :: u32) \<le> of_nat i * 3 \<longleftrightarrow> T \<le> 3 * i"
    unfolding word_le_nat_alt i T ..
  then show ?thesis using assms(1) by (auto simp: escalation_def)
qed

text \<open>
  C6. The last-resort reboot comes exactly when it should: in an outage without an address, with
  whatever pings, the watchdog asks for the reboot within \<open>n\<close> ticks of three seconds if and only
  if the configured timeout has passed, for every timeout the option allows; and the device counts as
  offline from the first tick.
\<close>

theorem outage_reboots_on_time:
  assumes "\<not> prov_mode cfg" "reboot_timeout_s cfg = Some T" "0 < T" "T \<le> 86400"
    "list_all (\<lambda>t. fst t = 0) ts" "ts \<noteq> []" "length ts \<le> 100000" "bad_ticks s = 0"
  shows "(RebootCold \<in> set (fst (watch_run cfg iface ts s)) \<longleftrightarrow> T \<le> 3 * length ts)
    \<and> \<not> connected (snd (watch_run cfg iface ts s))"
proof -
  have acts: "set (fst (watch_run cfg iface ts s))
      = (\<Union>i \<in> {1..length ts}. set (escalation cfg iface (of_nat i)))"
    using watch_run_offline [OF assms(1, 5), of iface s] assms(8) by (auto simp: less_Suc_eq_le simp del: upt_Suc)
  have "RebootCold \<in> set (fst (watch_run cfg iface ts s)) \<longleftrightarrow> (\<exists>i \<in> {1..length ts}. T \<le> 3 * i)"
    using acts reboot_in_escalation [OF assms(2) _ assms(4)] assms(7) by auto
  also have "\<dots> \<longleftrightarrow> T \<le> 3 * length ts" using assms(6)
    by (auto intro: order_trans intro!: bexI [of _ "length ts"] simp: Suc_le_eq)
  finally show ?thesis using watch_run_offline [OF assms(1, 5), of iface s] assms(6) by blast
qed

definition sample_net_cfg :: net_cfg where
  "sample_net_cfg = \<lparr>prov_mode = False, cred_store = True, cfg_ssid = [], cfg_psk = [],
     reboot_timeout_s = Some 30, ping_gate = True\<rparr>"

theorem outage_reboots_on_time_witness:
  "RebootCold \<notin> set (fst (watch_run sample_net_cfg True (replicate 9 (0, 0)) net_init))
   \<and> RebootCold \<in> set (fst (watch_run sample_net_cfg True (replicate 10 (0, 0)) net_init))"
  using outage_reboots_on_time [of sample_net_cfg 30 "replicate 9 (0, 0)" net_init True]
    outage_reboots_on_time [of sample_net_cfg 30 "replicate 10 (0, 0)" net_init True]
  by (simp add: sample_net_cfg_def net_init_def list_all_iff)

section \<open>The reachability gate\<close>

lemma reachability_silent:
  "reachability (last_ping_ok s) s = s\<lparr>ping_stall := ping_stall s + 1\<rparr>"
  by (simp add: reachability_def)

definition proven_online :: "net_cfg \<Rightarrow> net_state \<Rightarrow> bool" where
  "proven_online cfg s \<longleftrightarrow>
     \<not> prov_mode cfg \<and> ping_gate cfg \<and> ping_proven s \<and> ping_stall s = 0 \<and> connected s"

lemma watch_run_snoc:
  "watch_run cfg iface (xs @ [(a, b)]) u = (case watch_run cfg iface xs u of (as, v) \<Rightarrow>
     case connectivity_watchdog cfg iface a b v of (bs, w) \<Rightarrow> (as @ bs, w))"
  by (induction xs arbitrary: u) (auto simp: Let_def split: prod.splits)

lemma silent_tick:
  assumes "\<not> prov_mode cfg" "ping_gate cfg" "connected v" "ip \<noteq> 0" "\<not> WD_PING_STALL_MAX \<le> ping_stall v + 1"
  shows "connectivity_watchdog cfg iface ip (last_ping_ok v) v
    = ([], v\<lparr>ping_stall := ping_stall v + 1, bad_ticks := 0\<rparr>)"
  using assms by (simp add: connectivity_watchdog_def reachability_def)

lemma silent_ticks:
  assumes "proven_online cfg s" "ip \<noteq> 0" "n \<le> 4"
  shows "watch_run cfg iface (replicate n (ip, last_ping_ok s)) s
    = ([], s\<lparr>ping_stall := of_nat n, bad_ticks := if n = 0 then bad_ticks s else 0\<rparr>)"
  using assms(3)
proof (induction n)
  case 0
  then show ?case using assms(1) by (simp add: proven_online_def)
next
  case (Suc n)
  have split: "replicate (Suc n) x = replicate n x @ [x]" for x :: "u32 \<times> u32"
    by (simp add: replicate_append_same)
  have n: "of_nat (Suc n) = (of_nat n :: u32) + 1" by simp
  have u: "unat (of_nat (Suc n) :: u32) = Suc n"
    unfolding unat_of_nat using Suc.prems by (simp add: take_bit_eq_mod)
  have five: "unat (5 :: u32) = 5" by simp
  have lt: "\<not> WD_PING_STALL_MAX \<le> (of_nat n :: u32) + 1"
    unfolding n [symmetric] word_le_nat_alt u five using Suc.prems by simp
  let ?v = "s\<lparr>ping_stall := of_nat n, bad_ticks := if n = 0 then bad_ticks s else 0\<rparr>"
  have pc: "\<not> prov_mode cfg" "ping_gate cfg" "connected ?v" using assms(1) by (simp_all add: proven_online_def)
  have "connectivity_watchdog cfg iface ip (last_ping_ok s) ?v
      = ([], ?v\<lparr>ping_stall := of_nat n + 1, bad_ticks := 0\<rparr>)"
    using silent_tick [OF pc(1, 2, 3) assms(2)] lt by simp
  then show ?case
    unfolding split watch_run_snoc n using Suc by simp
qed


text \<open>
  The data path is judged by ping replies, not by holding an address: once the target has
  answered, four silent ticks change nothing, the fifth marks the device offline, and the first
  reply after that brings it back with the outage counter cleared.
\<close>

theorem reachability_gate:
  fixes iface :: bool
  assumes "proven_online cfg s" "ip \<noteq> 0" "ok' \<noteq> last_ping_ok s"
  defines "off \<equiv> snd (watch_run cfg iface (replicate 5 (ip, last_ping_ok s)) s)"
  shows "connected (snd (watch_run cfg iface (replicate 4 (ip, last_ping_ok s)) s))
    \<and> \<not> connected off
    \<and> fst (connectivity_watchdog cfg iface ip ok' off) = []
    \<and> connected (snd (connectivity_watchdog cfg iface ip ok' off))
    \<and> bad_ticks (snd (connectivity_watchdog cfg iface ip ok' off)) = 0"
proof -
  have five: "replicate 5 x = replicate 4 x @ [x]" for x :: "u32 \<times> u32"
    by (simp add: numeral_eq_Suc)
  have four: "watch_run cfg iface (replicate 4 (ip, last_ping_ok s)) s = ([], s\<lparr>ping_stall := 4, bad_ticks := 0\<rparr>)"
    using silent_ticks [OF assms(1, 2), of 4 iface] by simp
  have pc: "\<not> prov_mode cfg" "ping_gate cfg" "ping_proven s" "connected s"
    using assms(1) by (simp_all add: proven_online_def)
  have off: "\<not> connected off" "last_ping_ok off = last_ping_ok s" "ping_proven off"
    unfolding off_def five watch_run_snoc four
    using pc by (auto simp: connectivity_watchdog_def reachability_def mark_connected_def Let_def)
  show ?thesis
    using four pc off assms(2, 3)
    by (auto simp: connectivity_watchdog_def reachability_def mark_connected_def Let_def)
qed

theorem reachability_gate_witness:
  "\<not> connected (snd (watch_run sample_net_cfg True (replicate 5 (7, 3))
      (net_init\<lparr>connected := True, ping_proven := True, last_ping_ok := 3\<rparr>)))"
  using reachability_gate [where cfg = sample_net_cfg and ip = 7 and ok' = 4 and iface = True
      and s = "net_init\<lparr>connected := True, ping_proven := True, last_ping_ok := 3\<rparr>"]
  by (simp add: proven_online_def sample_net_cfg_def net_init_def)

section \<open>Events\<close>

datatype net_event =
    L4 u32 l4_event
  | Wifi u32 wifi_event
  | Tick bool u32 u32
  | Waited bool
  | Tried bool bool

definition net_react :: "net_cfg \<Rightarrow> net_event \<Rightarrow> net_state \<Rightarrow> net_state" where
  "net_react cfg e s =
     (case e of
        L4 ip l \<Rightarrow> snd (l4_event_handler cfg ip l s)
      | Wifi ip w \<Rightarrow> snd (wifi_event_handler cfg ip w s)
      | Tick iface ip ok \<Rightarrow> snd (connectivity_watchdog cfg iface ip ok s)
      | Waited given \<Rightarrow> snd (app_net_wait_connected given s)
      | Tried iface ip \<Rightarrow> snd (snd (app_net_try_credentials iface (\<lambda>_. OK) [(None, ip)] no_creds s)))"

text \<open>
  In an application image the LED always shows the connection state, and an online device has
  been given the semaphore its start-up waits for or has had it taken.
\<close>

definition net_ok :: "net_cfg \<Rightarrow> net_state \<Rightarrow> bool" where
  "net_ok cfg s \<longleftrightarrow>
     (\<not> prov_mode cfg \<longrightarrow> led_connected s = connected s \<and> \<not> try_sem s)
     \<and> (prov_mode cfg \<longrightarrow> bad_ticks s = 0 \<and> \<not> led_connected s)"

lemma try_done_simps [simp]:
  "connected (try_done r s) = connected s" "led_connected (try_done r s) = led_connected s"
  "bad_ticks (try_done r s) = bad_ticks s"
  by (simp_all add: try_done_def)

interpretation net: event_system "net_react cfg" "net_ok cfg" for cfg
proof
  fix s e assume ok: "net_ok cfg s"
  show "net_ok cfg (net_react cfg e s)"
  proof (cases e)
    case (L4 ip l)
    then show ?thesis
      using ok by (cases l) (auto simp: net_react_def net_ok_def l4_event_handler_def mark_connected_def Let_def)
  next
    case (Wifi ip w)
    then show ?thesis
      using ok by (cases w) (auto simp: net_react_def net_ok_def wifi_event_handler_def mark_connected_def Let_def)
  next
    case (Tick iface ip ok')
    then show ?thesis
      using ok by (auto simp: net_react_def net_ok_def connectivity_watchdog_def reachability_def mark_connected_def Let_def)
  next
    case (Waited given)
    then show ?thesis using ok by (auto simp: net_react_def net_ok_def app_net_wait_connected_def)
  next
    case (Tried iface ip)
    then show ?thesis using ok by (simp add: net_react_def net_ok_def app_net_try_credentials_def Let_def)
  qed
qed

text \<open>
  In an application image the status LED agrees with the connection state after any sequence of
  network events, watchdog ticks and waits; in the provisioner image no event counts towards the
  last-resort reboot.
\<close>

theorem led_shows_connection:
  "(\<not> prov_mode cfg \<longrightarrow> led_connected (net.run cfg es net_init) = connected (net.run cfg es net_init))
   \<and> (prov_mode cfg \<longrightarrow> bad_ticks (net.run cfg es net_init) = 0)"
proof -
  have "net_ok cfg net_init" by (simp add: net_ok_def net_init_def)
  then have "net_ok cfg (net.run cfg es net_init)" by (rule net.run_keeps)
  then show ?thesis by (simp add: net_ok_def)
qed

theorem led_shows_connection_witness:
  "led_connected (net.run sample_net_cfg [L4 5 L4_CONNECTED] net_init)
    = connected (net.run sample_net_cfg [L4 5 L4_CONNECTED] net_init)"
  by (rule led_shows_connection [THEN conjunct1, THEN mp]) (simp add: sample_net_cfg_def)

text \<open>
  A caller that waits for the network can be told it is there when it is not: nothing takes back
  the semaphore a past connection gave, so the first wait after the connection was lost returns
  success at once, with no new connection.
\<close>

theorem wait_connected_stale:
  assumes "\<not> connected s" "\<not> prov_mode cfg"
  shows "(let t = net.run cfg [L4 ip L4_CONNECTED, Wifi ip' (DisconnectResult r)] s
          in \<not> connected t \<and> fst (app_net_wait_connected False t) = OK)"
  using assms
  by (simp add: net.run_def net_react_def l4_event_handler_def wifi_event_handler_def mark_connected_def
      app_net_wait_connected_def Let_def)

theorem wait_connected_stale_witness:
  "fst (app_net_wait_connected False
     (net.run sample_net_cfg [L4 5 L4_CONNECTED, Wifi 0 (DisconnectResult 8)] net_init)) = OK"
  using wait_connected_stale [of net_init sample_net_cfg 5 0 8] by (simp add: net_init_def sample_net_cfg_def Let_def)

section \<open>Credentials\<close>

lemma stored_ssid_fold:
  "ssid (fold stored_ssid_cb names c) =
     (if ssid c \<noteq> [] then ssid c
      else case find (\<lambda>n. n \<noteq> [] \<and> length n < 33) names of Some n \<Rightarrow> n | None \<Rightarrow> [])"
  by (induction names arbitrary: c) (auto simp: stored_ssid_cb_def)

lemma stored_ssid_psk: "psk (fold stored_ssid_cb names c) = psk c"
  by (induction names arbitrary: c) (auto simp: stored_ssid_cb_def)

text \<open>
  The credentials the device joins with: the first stored network whose name fits, with the
  password stored for it, else the compiled-in ones, else none; and whatever is stored, both values
  fit their buffers.
\<close>

theorem creds_resolved:
  "app_wifi_creds_resolve cfg ws =
     (case (if cred_store cfg
            then Option.bind (find (\<lambda>n. n \<noteq> [] \<and> length n < 33) (ws_ssids ws))
                   (\<lambda>n. Option.bind (ws_password ws n) (\<lambda>p. if length p < 65 then Some \<lparr>ssid = n, psk = p\<rparr> else None))
            else None) of
        Some c \<Rightarrow> Inr c
      | None \<Rightarrow> if cfg_ssid cfg \<noteq> [] \<and> length (cfg_ssid cfg) < 33 \<and> length (cfg_psk cfg) < 65
                then Inr \<lparr>ssid = cfg_ssid cfg, psk = cfg_psk cfg\<rparr> else Inl ENOENT)
   \<and> (case app_wifi_creds_resolve cfg ws of
        Inr c \<Rightarrow> ssid c \<noteq> [] \<and> length (ssid c) \<le> 32 \<and> length (psk c) \<le> 64 | Inl e \<Rightarrow> e = ENOENT)"
proof -
  have st: "stored_creds ws = Option.bind (find (\<lambda>n. n \<noteq> [] \<and> length n < 33) (ws_ssids ws))
      (\<lambda>n. Option.bind (ws_password ws n) (\<lambda>p. if length p < 65 then Some \<lparr>ssid = n, psk = p\<rparr> else None))"
  proof (cases "find (\<lambda>n. n \<noteq> [] \<and> length n < 33) (ws_ssids ws)")
    case None
    then show ?thesis by (simp add: stored_creds_def stored_ssid_fold no_creds_def Let_def)
  next
    case (Some n)
    then have "n \<noteq> []" by (auto simp: find_Some_iff)
    then show ?thesis
      using Some by (auto simp: stored_creds_def stored_ssid_fold no_creds_def Let_def split: option.split)
  qed
  have bounds: "ssid c \<noteq> [] \<and> length (ssid c) \<le> 32 \<and> length (psk c) \<le> 64" if "stored_creds ws = Some c" for c
    using that unfolding st by (auto simp: find_Some_iff bind_eq_Some_conv split: if_splits)
  show ?thesis
    using bounds by (auto simp: app_wifi_creds_resolve_def simp flip: st split: option.split)
qed

section \<open>Testing credentials\<close>

definition failed :: "rc option \<times> bool \<Rightarrow> bool" where
  "failed w \<longleftrightarrow> fst w \<noteq> None \<and> fst w \<noteq> Some OK"

lemma split_Cons:
  "(\<exists>pre w post. x # xs = pre @ w # post \<and> P pre w) \<longleftrightarrow>
    P [] x \<or> (\<exists>pre w post. xs = pre @ w # post \<and> P (x # pre) w)"
  by (auto simp: Cons_eq_append_conv)

lemma try_wait_ok:
  "k \<le> 3 \<Longrightarrow> fst (try_wait ws k) = OK \<longleftrightarrow>
    (\<exists>pre w post. ws = pre @ w # post \<and> \<not> failed w \<and> snd w \<and> length (filter failed pre) + k \<le> 3)"
proof (induction ws k rule: try_wait.induct)
  case (2 woken ip ws k)
  show ?case
  proof (cases "failed (woken, ip)")
    case f: True
    then have w: "woken \<noteq> None \<and> woken \<noteq> Some OK" "the woken \<noteq> OK" by (auto simp: failed_def)
    show ?thesis
    proof (cases "k = 3")
      case True
      then show ?thesis using f w unfolding split_Cons by simp
    next
      case False
      then have "\<not> 3 \<le> k" "Suc k \<le> 3" using "2.prems" by simp_all
      then show ?thesis using "2.IH"(1) f w unfolding split_Cons by simp
    qed
  next
    case False
    then have w: "\<not> (woken \<noteq> None \<and> woken \<noteq> Some OK)" by (auto simp: failed_def)
    show ?thesis
    proof (cases ip)
      case True
      then show ?thesis using False w unfolding split_Cons by (auto simp: "2.prems")
    next
      case no: False
      then show ?thesis using False w "2.prems" "2.IH"(2) unfolding split_Cons by auto
    qed
  qed
qed simp

text \<open>
  The test of candidate credentials succeeds exactly when the driver takes the request and the
  interface has an address at some wake-up before the third failed association; on every other
  path, the timeout included, the station is disconnected again, and the test is over.
\<close>

theorem credentials_test:
  "fst (app_net_try_credentials iface req wakes c s) = OK \<longleftrightarrow>
     iface \<and> ssid c \<noteq> [] \<and> req c = OK \<and>
     (\<exists>pre w post. wakes = pre @ w # post \<and> \<not> failed w \<and> snd w \<and> length (filter failed pre) \<le> 2)"
  using try_wait_ok [of 1 wakes]
  by (auto simp: app_net_try_credentials_def wifi_connect_def Let_def)

end
