(* ===== verification/Settings.thy ===== *)
theory Settings
  imports Prelude
begin

text \<open>
  Data kept in Zephyr's settings store: the identity record of
  \<^verbatim>\<open>src/lib/common/prov_identity.c\<close> and the Cumulocity onboarding data of
  \<^verbatim>\<open>src/lib/common/prov_c8y.c\<close>. The store is a map from keys to values, and the outcome of
  every settings call is an input: a call that fails leaves the store as it was.
\<close>

type_synonym settings = "string \<rightharpoonup> string"

record settings_io =
  io_init :: rc
  io_save :: "string \<Rightarrow> rc"
  io_delete :: "string \<Rightarrow> rc"

definition settings_save_one :: "settings_io \<Rightarrow> string \<Rightarrow> string \<Rightarrow> settings \<Rightarrow> rc \<times> settings" where
  "settings_save_one io k v s =
     (case io_save io k of OK \<Rightarrow> (OK, s(k \<mapsto> v)) | Err e \<Rightarrow> (Err e, s))"

definition settings_delete :: "settings_io \<Rightarrow> string \<Rightarrow> settings \<Rightarrow> rc \<times> settings" where
  "settings_delete io k s =
     (case io_delete io k of OK \<Rightarrow> (OK, s(k := None)) | Err e \<Rightarrow> (Err e, s))"

text \<open>The string a C function reads from a buffer: the bytes before the first NUL.\<close>

definition cstr :: "string \<Rightarrow> string" where
  "cstr s = takeWhile (\<lambda>c. c \<noteq> CHR 0x00) s"

lemma cstr_idem [simp]: "cstr (cstr s) = cstr s"
  by (simp add: cstr_def takeWhile_takeWhile)

section \<open>Identity record\<close>

record prov_identity =
  id_hostname :: string
  id_service :: string
  id_port :: u16

text \<open>What is stored under the identity key: nothing, a value of another size, or a record.\<close>

datatype ident_slot = NoIdent | OtherSize | Ident prov_identity

definition prov_identity_load :: "rc \<Rightarrow> ident_slot \<Rightarrow> errno + prov_identity" where
  "prov_identity_load init slot =
     (if init \<noteq> OK then Inl ENOENT
      else
        let out = (case slot of Ident i \<Rightarrow> i
                     | _ \<Rightarrow> \<lparr>id_hostname = [], id_service = [], id_port = 0\<rparr>)
        in if id_hostname out = [] then Inl ENOENT
           else Inr (out\<lparr>id_hostname := take 32 (id_hostname out), id_service := take 23 (id_service out)\<rparr>))"

text \<open>The result, the slot afterwards, and whether flash was written.\<close>

definition prov_identity_store :: "rc \<Rightarrow> rc \<Rightarrow> prov_identity \<Rightarrow> ident_slot \<Rightarrow> rc \<times> ident_slot \<times> bool" where
  "prov_identity_store init save i slot =
     (if prov_identity_load init slot = Inr i then (OK, slot, False)
      else case save of OK \<Rightarrow> (OK, Ident i, True) | Err e \<Rightarrow> (Err e, slot, True))"

section \<open>Cumulocity onboarding data\<close>

record prov_c8y =
  url :: string
  tenant :: string
  external_id :: string
  otp :: string

definition c8y_empty :: prov_c8y where
  "c8y_empty = \<lparr>url = [], tenant = [], external_id = [], otp = []\<rparr>"

text \<open>The \<open>fields\<close> table: name, accessor, update and buffer size.\<close>

definition c8y_fields :: "(string \<times> (prov_c8y \<Rightarrow> string) \<times> (string \<Rightarrow> prov_c8y \<Rightarrow> prov_c8y) \<times> nat) list" where
  "c8y_fields =
     [(''url'', url, \<lambda>v c. c\<lparr>url := v\<rparr>, 128),
      (''tenant'', tenant, \<lambda>v c. c\<lparr>tenant := v\<rparr>, 32),
      (''external_id'', external_id, \<lambda>v c. c\<lparr>external_id := v\<rparr>, 64),
      (''otp'', otp, \<lambda>v c. c\<lparr>otp := v\<rparr>, 65)]"

definition c8y_key :: "string \<Rightarrow> string" where
  "c8y_key name = ''prov/c8y/'' @ name"

text \<open>
  \<open>load_cb\<close> for the entry \<open>name\<close> with value \<open>v\<close>. The read copies the whole value, since it is
  shorter than the field.
\<close>

definition load_cb :: "string \<Rightarrow> string \<Rightarrow> prov_c8y \<Rightarrow> prov_c8y" where
  "load_cb name v c =
     (case find (\<lambda>f. fst f = name) c8y_fields of
        None \<Rightarrow> c
      | Some (_, _, upd, sz) \<Rightarrow> if length v \<ge> sz then c else upd (cstr v) c)"

text \<open>\<open>prov_c8y_store\<close>: its loop over the fields, stopping at the first failed save.\<close>

fun store_fields ::
  "settings_io \<Rightarrow> prov_c8y \<Rightarrow> (string \<times> (prov_c8y \<Rightarrow> string) \<times> (string \<Rightarrow> prov_c8y \<Rightarrow> prov_c8y) \<times> nat) list
    \<Rightarrow> settings \<Rightarrow> rc \<times> settings" where
  "store_fields io c [] s = (OK, s)"
| "store_fields io c ((name, get, upd, sz) # fs) s =
     (let v = cstr (get c)
      in if v = [] then store_fields io c fs s
         else case settings_save_one io (c8y_key name) v s of
           (OK, s) \<Rightarrow> store_fields io c fs s
         | (Err e, s) \<Rightarrow> (Err e, s))"

definition prov_c8y_store :: "settings_io \<Rightarrow> prov_c8y \<Rightarrow> settings \<Rightarrow> rc \<times> settings" where
  "prov_c8y_store io c s =
     (case io_init io of Err e \<Rightarrow> (Err e, s) | OK \<Rightarrow> store_fields io c c8y_fields s)"

text \<open>\<open>prov_c8y_load\<close>: the result and the filled structure.\<close>

definition load_field :: "settings \<Rightarrow> string \<Rightarrow> prov_c8y \<Rightarrow> prov_c8y" where
  "load_field s name c = (case s (c8y_key name) of None \<Rightarrow> c | Some v \<Rightarrow> load_cb name v c)"

definition prov_c8y_load :: "settings_io \<Rightarrow> settings \<Rightarrow> rc \<times> prov_c8y" where
  "prov_c8y_load io s =
     (case io_init io of
        Err e \<Rightarrow> (Err ENOENT, c8y_empty)
      | OK \<Rightarrow>
          (let out = fold (load_field s) (map fst c8y_fields) c8y_empty
           in (if url out \<noteq> [] \<or> otp out \<noteq> [] then OK else Err ENOENT, out)))"

definition prov_c8y_clear :: "settings_io \<Rightarrow> settings \<Rightarrow> settings" where
  "prov_c8y_clear io s =
     fold (\<lambda>name s. if name = ''external_id'' then s else snd (settings_delete io (c8y_key name) s))
       (map fst c8y_fields) s"

definition prov_c8y_external_id :: "settings_io \<Rightarrow> settings \<Rightarrow> nat \<Rightarrow> errno + string" where
  "prov_c8y_external_id io s sz =
     (let c = snd (prov_c8y_load io s)
      in if external_id c = [] \<or> length (external_id c) \<ge> sz then Inl ENOENT else Inr (external_id c))"

text \<open>The text after the first occurrence of a separator (\<open>strstr\<close>).\<close>

fun after_first :: "string \<Rightarrow> string \<Rightarrow> string option" where
  "after_first sep s =
     (if take (length sep) s = sep then Some (drop (length sep) s)
      else case s of [] \<Rightarrow> None | _ # s' \<Rightarrow> after_first sep s')"

definition url_to_host :: "string \<Rightarrow> string" where
  "url_to_host u =
     (let u = (case after_first ''://'' u of Some p \<Rightarrow> p | None \<Rightarrow> u)
      in takeWhile (\<lambda>c. c \<noteq> CHR ''/'') u)"

text \<open>The client's API: which hosts and passwords it accepts. Calls are logged.\<close>

record tedge_client =
  accept_url :: "string \<Rightarrow> rc"
  accept_otp :: "string \<Rightarrow> rc"

datatype tedge_call = SetUrl string | SetOtp string

definition prov_c8y_handoff ::
  "settings_io \<Rightarrow> tedge_client \<Rightarrow> settings \<Rightarrow> rc \<times> tedge_call list \<times> settings" where
  "prov_c8y_handoff io cl s =
     (let (rc0, c) = prov_c8y_load io s
      in if rc0 \<noteq> OK then (OK, [], s)
         else
           let (rc, calls) = (if url c \<noteq> [] then (accept_url cl (url_to_host (url c)), [SetUrl (url_to_host (url c))])
                              else (OK, []));
               (rc, calls) = (if rc = OK \<and> otp c \<noteq> [] then (accept_otp cl (otp c), calls @ [SetOtp (otp c)])
                              else (rc, calls));
               s = (if rc = OK then prov_c8y_clear io s else s)
           in (rc, calls, s))"

section \<open>Properties of the onboarding data\<close>

definition settings_work :: settings_io where
  "settings_work = \<lparr>io_init = OK, io_save = (\<lambda>k. OK), io_delete = (\<lambda>k. OK)\<rparr>"

text \<open>Fields that fit their buffers and hold no NUL, as the parsers of this firmware produce them.\<close>

definition c8y_fits :: "prov_c8y \<Rightarrow> bool" where
  "c8y_fits c \<longleftrightarrow>
     length (url c) < 128 \<and> length (tenant c) < 32 \<and> length (external_id c) < 64 \<and> length (otp c) < 65
     \<and> cstr (url c) = url c \<and> cstr (tenant c) = tenant c \<and> cstr (external_id c) = external_id c
     \<and> cstr (otp c) = otp c"

lemma c8y_key_inj [simp]: "c8y_key a = c8y_key b \<longleftrightarrow> a = b"
  by (simp add: c8y_key_def)

lemma load_field_simps:
  "load_field s ''url'' c = (case s (c8y_key ''url'') of None \<Rightarrow> c
     | Some v \<Rightarrow> if length v \<ge> 128 then c else c\<lparr>url := cstr v\<rparr>)"
  "load_field s ''tenant'' c = (case s (c8y_key ''tenant'') of None \<Rightarrow> c
     | Some v \<Rightarrow> if length v \<ge> 32 then c else c\<lparr>tenant := cstr v\<rparr>)"
  "load_field s ''external_id'' c = (case s (c8y_key ''external_id'') of None \<Rightarrow> c
     | Some v \<Rightarrow> if length v \<ge> 64 then c else c\<lparr>external_id := cstr v\<rparr>)"
  "load_field s ''otp'' c = (case s (c8y_key ''otp'') of None \<Rightarrow> c
     | Some v \<Rightarrow> if length v \<ge> 65 then c else c\<lparr>otp := cstr v\<rparr>)"
  by (simp_all add: load_field_def load_cb_def c8y_fields_def split: option.split)

text \<open>The value of one field as \<open>prov_c8y_load\<close> reads it.\<close>

definition stored :: "nat \<Rightarrow> settings \<Rightarrow> string \<Rightarrow> string" where
  "stored sz s name =
     (case s (c8y_key name) of None \<Rightarrow> [] | Some v \<Rightarrow> if length v \<ge> sz then [] else cstr v)"

lemma load_stored:
  "io_init io = OK \<Longrightarrow> snd (prov_c8y_load io s) =
    \<lparr>url = stored 128 s ''url'', tenant = stored 32 s ''tenant'',
     external_id = stored 64 s ''external_id'', otp = stored 65 s ''otp''\<rparr>"
  by (simp add: prov_c8y_load_def Let_def c8y_fields_def load_field_simps stored_def c8y_empty_def
      split: option.split)

lemma load_rc:
  "io_init io = OK \<Longrightarrow> fst (prov_c8y_load io s) =
    (if stored 128 s ''url'' \<noteq> [] \<or> stored 65 s ''otp'' \<noteq> [] then OK else Err ENOENT)"
  using load_stored [of io s] by (simp add: prov_c8y_load_def Let_def)

lemma store_works:
  "prov_c8y_store settings_work c s = (OK, \<lambda>k.
     if k = c8y_key ''otp'' \<and> cstr (otp c) \<noteq> [] then Some (cstr (otp c))
     else if k = c8y_key ''external_id'' \<and> cstr (external_id c) \<noteq> [] then Some (cstr (external_id c))
     else if k = c8y_key ''tenant'' \<and> cstr (tenant c) \<noteq> [] then Some (cstr (tenant c))
     else if k = c8y_key ''url'' \<and> cstr (url c) \<noteq> [] then Some (cstr (url c))
     else s k)"
  by (auto simp: prov_c8y_store_def settings_work_def c8y_fields_def settings_save_one_def fun_eq_iff Let_def)

text \<open>
  What the provisioner stores is what the application loads, field by field; a field the
  bundle left empty is not written, so it keeps the value an earlier bundle stored.
\<close>

theorem c8y_store_load:
  assumes "c8y_fits c"
  shows "snd (prov_c8y_load settings_work (snd (prov_c8y_store settings_work c s))) =
    (let old = snd (prov_c8y_load settings_work s)
     in \<lparr>url = (if url c \<noteq> [] then url c else url old),
         tenant = (if tenant c \<noteq> [] then tenant c else tenant old),
         external_id = (if external_id c \<noteq> [] then external_id c else external_id old),
         otp = (if otp c \<noteq> [] then otp c else otp old)\<rparr>)"
proof -
  have i: "io_init settings_work = OK" by (simp add: settings_work_def)
  show ?thesis
    using assms by (simp add: load_stored [OF i] store_works stored_def c8y_fits_def Let_def)
qed

theorem c8y_store_load_witness:
  "otp (snd (prov_c8y_load settings_work (snd (prov_c8y_store settings_work
      \<lparr>url = ''https://t.example'', tenant = [], external_id = ''dev'', otp = []\<rparr>
      [c8y_key ''otp'' \<mapsto> ''old'']))))  = ''old''"
  using c8y_store_load [of "\<lparr>url = ''https://t.example'', tenant = [], external_id = ''dev'', otp = []\<rparr>"
      "[c8y_key ''otp'' \<mapsto> ''old'']"]
  by (simp add: c8y_fits_def cstr_def load_stored settings_work_def stored_def Let_def)

lemma clear_works:
  "prov_c8y_clear settings_work s =
    s(c8y_key ''url'' := None, c8y_key ''tenant'' := None, c8y_key ''otp'' := None)"
  by (simp add: prov_c8y_clear_def c8y_fields_def settings_delete_def settings_work_def)

text \<open>
  The hand-over to the cloud client loses nothing and repeats nothing: an error keeps every
  stored field for the next boot, success clears the password, URL and tenant but keeps the
  external ID, and a second hand-over then makes no call.
\<close>

theorem c8y_handoff_once:
  "(case prov_c8y_handoff settings_work cl s of (rc, calls, s') \<Rightarrow>
     (rc \<noteq> OK \<longrightarrow> s' = s)
     \<and> (rc = OK \<longrightarrow> snd (prov_c8y_load settings_work s') =
          c8y_empty\<lparr>external_id := external_id (snd (prov_c8y_load settings_work s))\<rparr>
        \<or> calls = [])
     \<and> (rc = OK \<longrightarrow> prov_c8y_handoff settings_work cl s' = (OK, [], s')))"
proof -
  have i: "io_init settings_work = OK" by (simp add: settings_work_def)
  have cleared: "snd (prov_c8y_load settings_work (prov_c8y_clear settings_work s)) =
      c8y_empty\<lparr>external_id := external_id (snd (prov_c8y_load settings_work s))\<rparr>"
    by (simp add: load_stored [OF i] clear_works stored_def c8y_empty_def)
  have quiet: "prov_c8y_handoff settings_work cl (prov_c8y_clear settings_work s) =
      (OK, [], prov_c8y_clear settings_work s)"
  proof -
    have "fst (prov_c8y_load settings_work (prov_c8y_clear settings_work s)) = Err ENOENT"
      using load_rc [OF i, of "prov_c8y_clear settings_work s"] by (simp add: stored_def clear_works)
    then obtain c where "prov_c8y_load settings_work (prov_c8y_clear settings_work s) = (Err ENOENT, c)"
      by (metis prod.collapse)
    then show ?thesis by (simp add: prov_c8y_handoff_def)
  qed
  show ?thesis
  proof (cases "fst (prov_c8y_load settings_work s) = OK")
    case True
    then show ?thesis using cleared quiet
      by (auto simp: prov_c8y_handoff_def Let_def split: prod.splits if_splits)
  next
    case False
    then show ?thesis by (auto simp: prov_c8y_handoff_def split: prod.splits)
  qed
qed

theorem c8y_handoff_once_witness:
  "case prov_c8y_handoff settings_work \<lparr>accept_url = (\<lambda>_. OK), accept_otp = (\<lambda>_. Err EACCES)\<rparr>
       [c8y_key ''otp'' \<mapsto> ''pw''] of (rc, calls, s') \<Rightarrow>
     rc = Err EACCES \<and> calls = [SetOtp ''pw''] \<and> s' = [c8y_key ''otp'' \<mapsto> ''pw'']"
proof -
  let ?cl = "\<lparr>accept_url = (\<lambda>_. OK), accept_otp = (\<lambda>_. Err EACCES)\<rparr>"
  let ?s = "[c8y_key ''otp'' \<mapsto> ''pw'']"
  have i: "io_init settings_work = OK" by (simp add: settings_work_def)
  have l: "prov_c8y_load settings_work ?s = (OK, \<lparr>url = [], tenant = [], external_id = [], otp = ''pw''\<rparr>)"
    by (rule prod_eqI) (simp_all add: load_rc [OF i] load_stored [OF i] stored_def cstr_def)
  obtain s' where r: "prov_c8y_handoff settings_work ?cl ?s = (Err EACCES, [SetOtp ''pw''], s')"
    by (simp add: prov_c8y_handoff_def l)
  then show ?thesis using c8y_handoff_once [where cl = ?cl and s = ?s] by simp
qed

lemma after_first_append:
  "after_first ''://'' (scheme @ ''://'' @ rest) = Some rest" if "CHR '':'' \<notin> set scheme"
  using that by (induction scheme) auto

text \<open>
  For a server URL with an optional scheme and a host without a slash, the client is given
  exactly the host, whatever path follows, as long as the scheme separator does not occur in
  the host itself.
\<close>

theorem url_to_host_strips:
  assumes "CHR '':'' \<notin> set scheme" "CHR ''/'' \<notin> set host"
  shows "url_to_host (scheme @ ''://'' @ host @ ''/'' @ path) = host
    \<and> url_to_host (scheme @ ''://'' @ host) = host"
proof -
  have tw: "takeWhile (\<lambda>c. c \<noteq> CHR ''/'') host = host" using assms(2) by (auto simp: takeWhile_eq_all_conv)
  have "takeWhile (\<lambda>c. c \<noteq> CHR ''/'') (host @ ''/'' @ path) = host"
    using assms(2) by (auto simp: takeWhile_append)
  then show ?thesis
    using after_first_append [OF assms(1)] tw by (simp add: url_to_host_def del: after_first.simps)
qed

theorem url_to_host_strips_witness:
  "url_to_host ''https://t.example/login'' = ''t.example''"
  using url_to_host_strips [of "''https''" "''t.example''" "''login''"] by simp

text \<open>
  The identity record is written to flash only when it changed, and what is stored is loaded
  back, provided host name and service fit their buffers.
\<close>

theorem identity_store_load:
  assumes "id_hostname i \<noteq> []" "length (id_hostname i) \<le> 32" "length (id_service i) \<le> 23"
  shows "prov_identity_load OK (fst (snd (prov_identity_store OK OK i slot))) = Inr i
    \<and> prov_identity_store OK OK i (fst (snd (prov_identity_store OK OK i slot)))
      = (OK, fst (snd (prov_identity_store OK OK i slot)), False)"
  using assms by (auto simp: prov_identity_store_def prov_identity_load_def Let_def)

theorem identity_store_load_witness:
  "prov_identity_load OK (fst (snd (prov_identity_store OK OK
     \<lparr>id_hostname = ''pump'', id_service = ''_modbus'', id_port = 502\<rparr> NoIdent)))
   = Inr \<lparr>id_hostname = ''pump'', id_service = ''_modbus'', id_port = 502\<rparr>"
  using identity_store_load [of "\<lparr>id_hostname = ''pump'', id_service = ''_modbus'', id_port = 502\<rparr>" NoIdent]
  by simp

end
