(* ===== verification/Improv.thy ===== *)
theory Improv
  imports Net Settings Boot
begin

text \<open>
  Improv Wi-Fi over BLE, \<^verbatim>\<open>src/apps/wifi-provisioner/src/improv.c\<close>: reassembly and validation of
  RPC frames in Bluetooth context, the queue to the main thread, the test and storing of
  credentials, the RPC result, and the loop with its window and authorization deadlines.
\<close>

section \<open>State\<close>

datatype improv_state = ST_AUTH_REQUIRED | ST_AUTHORIZED | ST_PROVISIONING | ST_PROVISIONED

datatype improv_error =
    ERR_NONE | ERR_INVALID_RPC | ERR_UNKNOWN_RPC | ERR_UNABLE_TO_CONNECT | ERR_NOT_AUTHORIZED | ERR_UNKNOWN

datatype prov_msg = MSG_SETTINGS app_wifi_creds | MSG_SW0

abbreviation (input) CMD_WIFI_SETTINGS :: byte where "CMD_WIFI_SETTINGS \<equiv> 1"
abbreviation (input) CMD_IDENTIFY :: byte where "CMD_IDENTIFY \<equiv> 2"
abbreviation (input) FRAME_MAX :: nat where "FRAME_MAX \<equiv> 3 + 1 + 32 + 1 + 64"
abbreviation (input) PROV_Q_MAX :: nat where "PROV_Q_MAX \<equiv> 2"
abbreviation (input) AUTH_PERIOD_MS :: int where "AUTH_PERIOD_MS \<equiv> 60000"

record improv_cfg =
  require_auth :: bool
  prov_window_s :: int

record improv =
  cur_state :: improv_state
  cur_error :: improv_error
  result_buf :: bytes
  i_rx :: bytes
  rx_last :: int
  prov_q :: "prov_msg list"
  i_adv_wanted :: bool
  i_adv_running :: bool
  i_conn :: bool
  i_deadline :: int
  auth_until :: int
  i_idle :: bool
  i_return :: bool
  i_led :: bool
  identifies :: nat
  i_ident :: "prov_identity option"
  i_creds :: "app_wifi_creds list"
  i_part :: bytes

text \<open>
  One turn of the main thread: uptime when it runs and when the credentials test is over, the test
  and the credential store, whether other credentials resolve, and the radio and flash calls.
\<close>

record improv_io =
  i_now :: int
  i_after :: int
  i_join :: "app_wifi_creds \<Rightarrow> rc"
  i_set_personal :: "app_wifi_creds \<Rightarrow> rc"
  i_resolve :: rc
  i_adv :: rc
  i_flash :: flash_io

section \<open>Advertising\<close>

definition imp_adv_start :: "rc \<Rightarrow> improv \<Rightarrow> improv" where
  "imp_adv_start err s =
     (if \<not> i_adv_wanted s \<or> i_adv_running s \<or> i_conn s then s
      else if err \<noteq> OK then s
      else s\<lparr>i_adv_running := True\<rparr>)"

definition imp_adv_stop :: "improv \<Rightarrow> improv" where
  "imp_adv_stop s = s\<lparr>i_adv_wanted := False, i_adv_running := False\<rparr>"

definition imp_on_connected :: "bool \<Rightarrow> improv \<Rightarrow> improv" where
  "imp_on_connected err s = (if err then s else s\<lparr>i_adv_running := False, i_conn := True\<rparr>)"

definition imp_on_disconnected :: "improv \<Rightarrow> improv" where
  "imp_on_disconnected s = s\<lparr>i_conn := False, i_rx := []\<rparr>"

definition set_state :: "improv_state \<Rightarrow> improv \<Rightarrow> improv" where
  "set_state st s = s\<lparr>cur_state := st\<rparr>"

definition set_error :: "improv_error \<Rightarrow> improv \<Rightarrow> improv" where
  "set_error e s = s\<lparr>cur_error := e\<rparr>"

section \<open>Frames\<close>

text \<open>The low byte of the sum.\<close>

definition checksum :: "bytes \<Rightarrow> byte" where
  "checksum p = sum_list p"

definition msgq_put :: "prov_msg \<Rightarrow> improv \<Rightarrow> bool \<times> improv" where
  "msgq_put m s =
     (if length (prov_q s) < PROV_Q_MAX then (True, s\<lparr>prov_q := prov_q s @ [m]\<rparr>) else (False, s))"

definition imp_btn_work_fn :: "bool \<Rightarrow> bool \<Rightarrow> improv \<Rightarrow> bool \<times> improv" where
  "imp_btn_work_fn prev level s =
     (if level \<noteq> prev then (level, if level then snd (msgq_put MSG_SW0 s) else s) else (prev, s))"

definition handle_settings :: "nat \<Rightarrow> bytes \<Rightarrow> improv \<Rightarrow> improv" where
  "handle_settings len d s =
     (let ssid_len = (if len \<ge> 1 then unat (d ! 0) else 0)
      in if len < 2 \<or> ssid_len = 0 \<or> ssid_len > 32 \<or> ssid_len + 2 > len then set_error ERR_INVALID_RPC s
         else
           let psk_len = unat (d ! (1 + ssid_len))
           in if psk_len > 64 \<or> ssid_len + psk_len + 2 \<noteq> len then set_error ERR_INVALID_RPC s
              else if cur_state s = ST_AUTH_REQUIRED then set_error ERR_NOT_AUTHORIZED s
              else if cur_state s \<noteq> ST_AUTHORIZED then s
              else
                let c = \<lparr>ssid = chars (take ssid_len (drop 1 d)),
                         psk = chars (take psk_len (drop (2 + ssid_len) d))\<rparr>;
                    s = set_state ST_PROVISIONING (set_error ERR_NONE s);
                    (put, s) = msgq_put (MSG_SETTINGS c) s
                in if put then s else set_error ERR_UNKNOWN (set_state ST_AUTHORIZED s))"

definition handle_frame :: "bytes \<Rightarrow> improv \<Rightarrow> improv" where
  "handle_frame f s =
     (let cmd = f ! 0; len = unat (f ! 1); d = drop 2 f; n = length f
      in if n \<noteq> len + 3 \<or> checksum (take (n - 1) f) \<noteq> f ! (n - 1) then set_error ERR_INVALID_RPC s
         else if cmd = CMD_IDENTIFY then (set_error ERR_NONE s)\<lparr>identifies := identifies s + 1\<rparr>
         else if cmd = CMD_WIFI_SETTINGS then handle_settings len d s
         else set_error ERR_UNKNOWN_RPC s)"

definition frame_complete :: "bytes \<Rightarrow> bool" where
  "frame_complete rx \<longleftrightarrow> 2 \<le> length rx \<and> unat (rx ! 1) + 3 \<le> length rx"

definition write_rpc :: "bool \<Rightarrow> bool \<Rightarrow> nat \<Rightarrow> bytes \<Rightarrow> int \<Rightarrow> improv \<Rightarrow> att \<times> improv" where
  "write_rpc prepare execute off buf now s =
     (if prepare then (Took 0, s)
      else
        let continuing = 2 \<le> length (i_rx s) \<and> length (i_rx s) < unat (i_rx s ! 1) + 3
              \<and> now - rx_last s < 2000 \<and> \<not> execute
        in if off \<noteq> 0 \<and> off \<noteq> length (i_rx s) then (INVALID_OFFSET, s)
           else
             let s = (if off = 0 \<and> \<not> continuing then s\<lparr>i_rx := []\<rparr> else s);
                 s = s\<lparr>rx_last := now\<rparr>
             in if length (i_rx s) + length buf > FRAME_MAX
                then (Took (length buf), set_error ERR_INVALID_RPC (s\<lparr>i_rx := []\<rparr>))
                else
                  let s = s\<lparr>i_rx := i_rx s @ buf\<rparr>
                  in if frame_complete (i_rx s)
                     then (Took (length buf), (handle_frame (i_rx s) s)\<lparr>i_rx := []\<rparr>)
                     else (Took (length buf), s))"

section \<open>The result\<close>

definition url_scheme :: "string \<Rightarrow> string" where
  "url_scheme t =
     (if t = ''_opcua-tcp'' then ''opc.tcp''
      else if t \<noteq> [] \<and> hd t = CHR ''_'' then tl t else t)"

definition service_url :: "prov_identity \<Rightarrow> string" where
  "service_url i = url_scheme (id_service i) @ ''://'' @ id_hostname i @ ''.local:'' @ dec (unat (id_port i))"

definition set_result_url :: "improv \<Rightarrow> improv" where
  "set_result_url s =
     (let url = (case i_ident s of None \<Rightarrow> [] | Some i \<Rightarrow> service_url i);
          n = (if length url \<ge> 80 then 0 else length url);
          r = (if n > 0 then [CMD_WIFI_SETTINGS, of_nat (n + 1), of_nat n] @ ascii url
               else [CMD_WIFI_SETTINGS, 0])
      in s\<lparr>result_buf := r @ [checksum r]\<rparr>)"

section \<open>Main thread\<close>

definition idle_state :: "improv_cfg \<Rightarrow> improv_state" where
  "idle_state cfg = (if require_auth cfg then ST_AUTH_REQUIRED else ST_AUTHORIZED)"

datatype improv_exit = StayImprov | LeaveImprov

definition imp_reboot_now :: "improv_io \<Rightarrow> improv \<Rightarrow> improv_exit \<times> improv" where
  "imp_reboot_now io s = (LeaveImprov, s\<lparr>i_part := snd (boot_request_clear (i_flash io) (i_part s))\<rparr>)"

definition try_settings :: "improv_cfg \<Rightarrow> improv_io \<Rightarrow> app_wifi_creds \<Rightarrow> improv \<Rightarrow> improv_exit \<times> improv" where
  "try_settings cfg io c s =
     (if i_join io c \<noteq> OK then
        (StayImprov,
         set_state (if auth_until s \<noteq> 0 \<and> i_after io < auth_until s \<or> \<not> require_auth cfg
                    then ST_AUTHORIZED else ST_AUTH_REQUIRED)
           (set_error ERR_UNABLE_TO_CONNECT s))
      else
        let s = s\<lparr>i_creds := []\<rparr>
        in case i_set_personal io c of
             Err e \<Rightarrow> (StayImprov, set_state (idle_state cfg) (set_error ERR_UNKNOWN s))
           | OK \<Rightarrow> imp_reboot_now io
               (set_result_url (set_state ST_PROVISIONED (imp_adv_stop (s\<lparr>i_creds := [c]\<rparr>)))))"

definition imp_button :: "improv_cfg \<Rightarrow> improv_io \<Rightarrow> improv \<Rightarrow> improv" where
  "imp_button cfg io s =
     (if i_idle s then
        imp_adv_start (i_adv io)
          (s\<lparr>i_idle := False, i_deadline := i_now io + prov_window_s cfg * 1000, i_led := True,
             i_adv_wanted := True\<rparr>)
      else if cur_state s = ST_AUTH_REQUIRED \<or> cur_state s = ST_AUTHORIZED \<and> require_auth cfg then
        set_state ST_AUTHORIZED (s\<lparr>auth_until := i_now io + AUTH_PERIOD_MS\<rparr>)
      else s)"

definition imp_timeout :: "improv_cfg \<Rightarrow> improv_io \<Rightarrow> improv \<Rightarrow> improv_exit \<times> improv" where
  "imp_timeout cfg io s =
     (let s = (if auth_until s \<noteq> 0 \<and> i_now io \<ge> auth_until s
               then (let s = s\<lparr>auth_until := 0\<rparr>
                     in if cur_state s = ST_AUTHORIZED then set_state ST_AUTH_REQUIRED s else s)
               else s)
      in if \<not> i_idle s \<and> i_now io \<ge> i_deadline s then
           (if i_return s \<or> i_resolve io = OK then imp_reboot_now io s
            else (StayImprov, (imp_adv_stop s)\<lparr>i_led := False, i_idle := True\<rparr>))
         else (StayImprov, s))"

text \<open>
  One turn of \<open>improv_run\<close>'s loop. An empty queue is read with a timeout at the earlier of the two
  deadlines, so a turn before both changes nothing.
\<close>

definition improv_turn :: "improv_cfg \<Rightarrow> improv_io \<Rightarrow> improv \<Rightarrow> improv_exit \<times> improv" where
  "improv_turn cfg io s =
     (case prov_q s of
        [] \<Rightarrow> imp_timeout cfg io s
      | m # q \<Rightarrow>
          (let s = s\<lparr>prov_q := q\<rparr>
           in case m of
                MSG_SETTINGS c \<Rightarrow> if \<not> i_idle s then try_settings cfg io c s else (StayImprov, s)
              | MSG_SW0 \<Rightarrow> (StayImprov, imp_button cfg io s)))"

definition improv_start ::
  "improv_cfg \<Rightarrow> improv_io \<Rightarrow> rc \<Rightarrow> prov_identity option \<Rightarrow> app_wifi_creds list \<Rightarrow> bytes \<Rightarrow> improv option" where
  "improv_start cfg io bt ident wifi part =
     (let s = \<lparr>cur_state = idle_state cfg, cur_error = ERR_NONE, result_buf = [], i_rx = [], rx_last = 0,
               prov_q = [], i_adv_wanted = False, i_adv_running = False, i_conn = False,
               i_deadline = i_now io + prov_window_s cfg * 1000, auth_until = 0, i_idle = False,
               i_return = (case boot_request_read (i_flash io) part of
                  Inr r \<Rightarrow> br_reason r = reason_value BOOT_REQUEST_OPERATOR | Inl e \<Rightarrow> False),
               i_led = True, identifies = 0, i_ident = ident, i_creds = wifi, i_part = part\<rparr>
      in if bt \<noteq> OK then None else Some (imp_adv_start (i_adv io) (s\<lparr>i_adv_wanted := True\<rparr>)))"

section \<open>Events\<close>

datatype improv_event =
    RpcWrite bool bool nat bytes int
  | ImpConnected bool
  | ImpDisconnected
  | ImpRecycled rc
  | ImpPressed
  | ImpMain improv_io

definition improv_react :: "improv_cfg \<Rightarrow> improv_event \<Rightarrow> improv \<Rightarrow> improv" where
  "improv_react cfg e s =
     (case e of
        RpcWrite p x off buf now \<Rightarrow> snd (write_rpc p x off buf now s)
      | ImpConnected err \<Rightarrow> imp_on_connected err s
      | ImpDisconnected \<Rightarrow> imp_on_disconnected s
      | ImpRecycled err \<Rightarrow> imp_adv_start err s
      | ImpPressed \<Rightarrow> snd (imp_btn_work_fn False True s)
      | ImpMain io \<Rightarrow> snd (improv_turn cfg io s))"


section \<open>Frames accepted\<close>

definition creds_fit :: "app_wifi_creds \<Rightarrow> bool" where
  "creds_fit c \<longleftrightarrow> ssid c \<noteq> [] \<and> length (ssid c) \<le> 32 \<and> length (psk c) \<le> 64"

definition settings_body :: "app_wifi_creds \<Rightarrow> bytes" where
  "settings_body c = of_nat (length (ssid c)) # ascii (ssid c) @ of_nat (length (psk c)) # ascii (psk c)"

text \<open>The RPC frame a client sends for credentials.\<close>

definition settings_frame :: "app_wifi_creds \<Rightarrow> bytes" where
  "settings_frame c =
     (let f = [CMD_WIFI_SETTINGS, of_nat (length (settings_body c))] @ settings_body c in f @ [checksum f])"

lemma unat_small: "n < 256 \<Longrightarrow> unat (of_nat n :: byte) = n"
  by (simp add: unat_of_nat take_bit_eq_mod)

lemma ascii_chars [simp]: "ascii (chars bs) = bs"
proof -
  have "of_char (char_of (unat b) :: char) = b" for b :: byte
  proof -
    have n: "(of_char (char_of (unat b) :: char) :: nat) = unat b"
      using unat_byte_less [of b] by (simp add: of_char_of)
    have "of_char (char_of (unat b) :: char) = (of_nat (of_char (char_of (unat b) :: char)) :: byte)"
      by (rule of_nat_of_char [symmetric])
    then show ?thesis unfolding n by simp
  qed
  then show ?thesis by (simp add: chars_def ascii_def comp_def)
qed

lemma length_chars [simp]: "length (chars bs) = length bs"
  by (simp add: chars_def)

lemma frame_parts:
  assumes "creds_fit c"
  shows "length (settings_body c) = length (ssid c) + length (psk c) + 2"
    "unat (settings_frame c ! 1) = length (settings_body c)" "settings_frame c ! 0 = CMD_WIFI_SETTINGS"
    "length (settings_frame c) = length (settings_body c) + 3"
    "drop 2 (settings_frame c) = settings_body c @ [checksum (butlast (settings_frame c))]"
    "checksum (take (length (settings_frame c) - 1) (settings_frame c))
       = settings_frame c ! (length (settings_frame c) - 1)"
proof -
  show b: "length (settings_body c) = length (ssid c) + length (psk c) + 2"
    by (simp add: settings_body_def)
  then have "length (settings_body c) < 256" using assms by (simp add: creds_fit_def)
  then show "unat (settings_frame c ! 1) = length (settings_body c)"
    by (simp add: settings_frame_def Let_def unat_small)
  show "settings_frame c ! 0 = CMD_WIFI_SETTINGS" "length (settings_frame c) = length (settings_body c) + 3"
    "drop 2 (settings_frame c) = settings_body c @ [checksum (butlast (settings_frame c))]"
    by (simp_all add: settings_frame_def Let_def butlast_append)
  show "checksum (take (length (settings_frame c) - 1) (settings_frame c))
       = settings_frame c ! (length (settings_frame c) - 1)"
    by (simp add: settings_frame_def Let_def nth_append)
qed

lemma body_parts:
  fixes rest :: bytes
  assumes "creds_fit c"
  defines "d \<equiv> settings_body c @ rest"
  shows "unat (d ! 0) = length (ssid c)" "unat (d ! (1 + length (ssid c))) = length (psk c)"
    "take (length (ssid c)) (drop 1 d) = ascii (ssid c)"
    "take (length (psk c)) (drop (2 + length (ssid c)) d) = ascii (psk c)"
  using assms(1) by (auto simp: d_def settings_body_def creds_fit_def unat_small nth_append)

lemma handle_settings_frame:
  assumes "creds_fit c"
  shows "handle_frame (settings_frame c) s =
    (if cur_state s = ST_AUTH_REQUIRED then set_error ERR_NOT_AUTHORIZED s
     else if cur_state s \<noteq> ST_AUTHORIZED then s
     else if length (prov_q s) < PROV_Q_MAX
     then s\<lparr>cur_error := ERR_NONE, cur_state := ST_PROVISIONING, prov_q := prov_q s @ [MSG_SETTINGS c]\<rparr>
     else s\<lparr>cur_state := ST_AUTHORIZED, cur_error := ERR_UNKNOWN\<rparr>)"
proof -
  note fp = frame_parts [OF assms]
  let ?n = "length (settings_body c)" and ?d = "drop 2 (settings_frame c)"
  have frame: "handle_frame (settings_frame c) s = handle_settings ?n ?d s"
  proof -
    have ok: "\<not> (length (settings_frame c) \<noteq> unat (settings_frame c ! 1) + 3
        \<or> checksum (take (length (settings_frame c) - 1) (settings_frame c))
          \<noteq> settings_frame c ! (length (settings_frame c) - 1))"
      using fp(2) fp(4) fp(6) by metis
    show ?thesis unfolding handle_frame_def Let_def if_not_P [OF ok] by (simp add: fp(2, 3) [unfolded One_nat_def])
  qed
  note bp = body_parts [OF assms, of "[checksum (butlast (settings_frame c))]", folded fp(5)]
  have lens: "\<not> (?n < 2 \<or> length (ssid c) = 0 \<or> length (ssid c) > 32 \<or> length (ssid c) + 2 > ?n)" "1 \<le> ?n"
    "\<not> (length (psk c) > 64 \<or> length (ssid c) + length (psk c) + 2 \<noteq> ?n)"
    using assms fp(1) by (auto simp: creds_fit_def)
  have same: "\<lparr>ssid = chars (ascii (ssid c)), psk = chars (ascii (psk c))\<rparr> = c" by (simp add: chars_ascii)
  show ?thesis
    unfolding frame handle_settings_def Let_def if_P [OF lens(2)] bp if_not_P [OF lens(1)] if_not_P [OF lens(3)] same
    by (simp add: set_error_def set_state_def msgq_put_def)
qed

text \<open>A write in pieces, as the queued writes of a long attribute value arrive.\<close>

fun write_at :: "nat \<Rightarrow> bytes list \<Rightarrow> int \<Rightarrow> improv \<Rightarrow> improv" where
  "write_at off [] now s = s"
| "write_at off (p # ps) now s = write_at (off + length p) ps now (snd (write_rpc False True off p now s))"

lemma write_at_frame:
  assumes "i_rx s @ concat ps = f" "length f = unat (f ! 1) + 3" "length f \<le> FRAME_MAX" "\<forall>p \<in> set ps. p \<noteq> []"
    "ps \<noteq> []"
  shows "write_at (length (i_rx s)) ps now s = (handle_frame f (s\<lparr>rx_last := now, i_rx := f\<rparr>))\<lparr>i_rx := []\<rparr>"
  using assms
proof (induction ps arbitrary: s)
  case (Cons p ps)
  let ?rx = "i_rx s @ p"
  have keep: "(if length (i_rx s) = 0 \<and> b then s\<lparr>i_rx := []\<rparr> else s) = s" for b
    by (cases s) auto
  have "length ?rx \<le> length f" using Cons.prems(1) by auto
  then have fits: "\<not> length (i_rx s) + length p > FRAME_MAX" using Cons.prems(3) by simp
  have off: "\<not> (length (i_rx s) \<noteq> 0 \<and> length (i_rx s) \<noteq> length (i_rx s))" by simp
  have step: "snd (write_rpc False True (length (i_rx s)) p now s) =
      (if frame_complete ?rx then (handle_frame ?rx (s\<lparr>rx_last := now, i_rx := ?rx\<rparr>))\<lparr>i_rx := []\<rparr>
       else s\<lparr>rx_last := now, i_rx := ?rx\<rparr>)"
    unfolding write_rpc_def Let_def if_not_P [OF off] keep using fits by simp
  show ?case
  proof (cases "ps = []")
    case True
    then have "?rx = f" using Cons.prems(1) by simp
    moreover have "frame_complete f" using Cons.prems(2) by (simp add: frame_complete_def)
    ultimately show ?thesis using step True by simp
  next
    case False
    then have shorter: "length ?rx < length f"
      using Cons.prems(1, 4) by (cases ps) auto
    have "\<not> frame_complete ?rx"
    proof
      assume fc: "frame_complete ?rx"
      then have "?rx ! 1 = f ! 1"
        using Cons.prems(1) by (auto simp: frame_complete_def nth_append simp flip: Cons.prems(1))
      then show False using fc shorter Cons.prems(2) by (simp add: frame_complete_def)
    qed
    then show ?thesis
      using step Cons.IH [of "s\<lparr>rx_last := now, i_rx := ?rx\<rparr>"] Cons.prems False by simp
  qed
qed simp

lemma settings_received_aux:
  assumes "creds_fit c" "concat ps = settings_frame c" "\<forall>p \<in> set ps. p \<noteq> []" "i_rx s = []"
    "cur_state s = ST_AUTHORIZED" "length (prov_q s) < PROV_Q_MAX"
  shows "write_at 0 ps now s = s\<lparr>rx_last := now, cur_error := ERR_NONE, cur_state := ST_PROVISIONING,
     prov_q := prov_q s @ [MSG_SETTINGS c]\<rparr>"
proof -
  note fp = frame_parts [OF assms(1)]
  have "length (settings_frame c) \<le> FRAME_MAX" "ps \<noteq> []"
    using fp assms(1, 2) by (auto simp: creds_fit_def)
  then have "write_at 0 ps now s
      = (handle_frame (settings_frame c) (s\<lparr>rx_last := now, i_rx := settings_frame c\<rparr>))\<lparr>i_rx := []\<rparr>"
    using write_at_frame [of s ps "settings_frame c" now] fp assms(2, 3, 4) by simp
  then show ?thesis
    using assms(4-6) by (simp add: handle_settings_frame [OF assms(1)])
qed



definition sample_improv_cfg :: improv_cfg where
  "sample_improv_cfg = \<lparr>require_auth = True, prov_window_s = 900\<rparr>"

text \<open>At uptime \<open>now\<close>: no network can be joined and no credentials resolve.\<close>

definition sample_improv_io :: "int \<Rightarrow> improv_io" where
  "sample_improv_io now = \<lparr>i_now = now, i_after = now, i_join = (\<lambda>_. Err ECONNREFUSED),
     i_set_personal = (\<lambda>_. OK), i_resolve = Err ENOENT, i_adv = OK, i_flash = all_ok\<rparr>"

definition sample_improv :: "improv_cfg \<Rightarrow> improv" where
  "sample_improv cfg = the (improv_start cfg (sample_improv_io 0) OK None [] (replicate 16 0xFF))"

lemma sample_improv_simps:
  "i_rx (sample_improv cfg) = []" "cur_state (sample_improv cfg) = idle_state cfg" "prov_q (sample_improv cfg) = []"
  "\<not> i_idle (sample_improv cfg)" "auth_until (sample_improv cfg) = 0" "i_creds (sample_improv cfg) = []"
  by (simp_all add: sample_improv_def improv_start_def sample_improv_io_def imp_adv_start_def Let_def)


lemma parsed_settings:
  assumes "handle_settings len d s = t" "prov_q t \<noteq> prov_q s" "length d = len + 1"
  shows "cur_state s = ST_AUTHORIZED \<and> length (prov_q s) < PROV_Q_MAX
    \<and> (\<exists>c. creds_fit c \<and> prov_q t = prov_q s @ [MSG_SETTINGS c] \<and> take len d = settings_body c)"
proof -
  define n where "n = (if len \<ge> 1 then unat (d ! 0) else 0)"
  define m where "m = unat (d ! (1 + n))"
  define c where "c = \<lparr>ssid = chars (take n (drop 1 d)), psk = chars (take m (drop (2 + n) d))\<rparr>"
  have t: "t = (if len < 2 \<or> n = 0 \<or> n > 32 \<or> n + 2 > len then set_error ERR_INVALID_RPC s
      else if m > 64 \<or> n + m + 2 \<noteq> len then set_error ERR_INVALID_RPC s
      else if cur_state s = ST_AUTH_REQUIRED then set_error ERR_NOT_AUTHORIZED s
      else if cur_state s \<noteq> ST_AUTHORIZED then s
      else if length (prov_q s) < PROV_Q_MAX
      then s\<lparr>cur_error := ERR_NONE, cur_state := ST_PROVISIONING, prov_q := prov_q s @ [MSG_SETTINGS c]\<rparr>
      else s\<lparr>cur_state := ST_AUTHORIZED, cur_error := ERR_UNKNOWN\<rparr>)"
    unfolding assms(1) [symmetric] handle_settings_def Let_def n_def [symmetric] m_def [symmetric] c_def [symmetric]
    by (simp add: set_error_def set_state_def msgq_put_def)
  have ok: "\<not> (len < 2 \<or> n = 0 \<or> n > 32 \<or> n + 2 > len)" "\<not> (m > 64 \<or> n + m + 2 \<noteq> len)"
    "cur_state s = ST_AUTHORIZED" "length (prov_q s) < PROV_Q_MAX"
    using assms(2) unfolding t by (auto simp: set_error_def split: if_splits)
  have q: "prov_q t = prov_q s @ [MSG_SETTINGS c]" using ok by (simp add: t)
  have lens: "length (take n (drop 1 d)) = n" "length (take m (drop (2 + n) d)) = m" using assms(3) ok by auto
  have nz: "unat (d ! 0) = n" using ok(1) by (auto simp: n_def split: if_splits)
  have "len = Suc (n + m + 1)" using ok(2) by simp
  then have "take len d = d ! 0 # take (n + m + 1) (drop 1 d)"
    using assms(3) by (cases d) auto
  also have "take (n + m + 1) (drop 1 d) = take n (drop 1 d) @ take (m + 1) (drop (1 + n) d)"
    using take_add [of n "m + 1" "drop 1 d"] by (simp add: add.commute)
  also have "take (m + 1) (drop (1 + n) d) = d ! (1 + n) # take m (drop (2 + n) d)"
  proof -
    have "1 + n < length d" using assms(3) ok(1, 2) by simp
    then have "drop (1 + n) d = d ! (1 + n) # drop (2 + n) d"
      using Cons_nth_drop_Suc [of "1 + n" d] by simp
    then show ?thesis by simp
  qed
  finally have parts: "take len d = d ! 0 # take n (drop 1 d) @ d ! (1 + n) # take m (drop (2 + n) d)" .
  have "d ! 0 = of_nat n" unfolding nz [symmetric] by simp
  moreover have "d ! (1 + n) = of_nat m" unfolding m_def by simp
  ultimately have "take len d = settings_body c"
    using parts lens by (simp add: settings_body_def c_def)
  moreover have "length (ssid c) = n" "length (psk c) = m" unfolding c_def using lens by simp_all
  then have "creds_fit c" using ok by (auto simp: creds_fit_def)
  ultimately show ?thesis using ok(3, 4) q by blast
qed

text \<open>
  Nothing but a well-formed settings frame, with a right length, checksum and both values within
  their limits, and only while the device is authorized and idle, ever puts credentials before the
  main thread; and those credentials are the ones in the frame.
\<close>

theorem only_valid_frames_queued:
  assumes "frame_complete f" "prov_q (handle_frame f s) \<noteq> prov_q s"
  shows "cur_state s = ST_AUTHORIZED
    \<and> (\<exists>c. creds_fit c \<and> f = settings_frame c \<and> prov_q (handle_frame f s) = prov_q s @ [MSG_SETTINGS c])"
proof -
  let ?len = "unat (f ! 1)"
  have ok: "length f = ?len + 3" "checksum (take (length f - 1) f) = f ! (length f - 1)" "f ! 0 = CMD_WIFI_SETTINGS"
    and hf: "handle_frame f s = handle_settings ?len (drop 2 f) s"
    using assms(2) by (auto simp: handle_frame_def set_error_def Let_def split: if_splits)
  obtain c where c: "creds_fit c" "prov_q (handle_frame f s) = prov_q s @ [MSG_SETTINGS c]"
    "take ?len (drop 2 f) = settings_body c" "cur_state s = ST_AUTHORIZED"
    using parsed_settings [OF hf [symmetric] assms(2)] ok(1) by auto
  have len: "length (settings_body c) = ?len" using arg_cong [OF c(3), of length] ok(1) by simp
  have cmd: "f ! 1 = of_nat (length (settings_body c))" unfolding len by simp
  obtain a b d where f: "f = a # b # d" using ok(1) by (cases f; cases "tl f") auto
  have "take (length f - 1) f = [f ! 0, f ! 1] @ take ?len (drop 2 f)"
    using ok(1) unfolding f by (simp add: take_Cons')
  then have g: "take (length f - 1) f = [CMD_WIFI_SETTINGS, of_nat (length (settings_body c))] @ settings_body c"
    unfolding c(3) using ok(3) cmd by simp
  have "f = take (length f - 1) f @ [f ! (length f - 1)]"
    using ok(1) by (metis add_Suc_right diff_Suc_1 lessI numeral_3_eq_3 take_Suc_conv_app_nth take_all_iff order_refl)
  then have "f = settings_frame c" unfolding ok(2) [symmetric] g by (simp add: settings_frame_def Let_def)
  then show ?thesis using c by blast
qed

theorem only_valid_frames_queued_witness:
  "\<exists>c. creds_fit c \<and> settings_frame \<lparr>ssid = ''lab'', psk = []\<rparr> = settings_frame c
    \<and> prov_q (handle_frame (settings_frame \<lparr>ssid = ''lab'', psk = []\<rparr>)
        (sample_improv \<lparr>require_auth = False, prov_window_s = 900\<rparr>))
      = prov_q (sample_improv \<lparr>require_auth = False, prov_window_s = 900\<rparr>) @ [MSG_SETTINGS c]"
proof -
  let ?c = "\<lparr>ssid = ''lab'', psk = []\<rparr>" and ?s = "sample_improv \<lparr>require_auth = False, prov_window_s = 900\<rparr>"
  have c: "creds_fit ?c" by (simp add: creds_fit_def)
  have "prov_q (handle_frame (settings_frame ?c) ?s) \<noteq> prov_q ?s"
    by (simp add: handle_settings_frame [OF c] sample_improv_simps idle_state_def)
  moreover have "frame_complete (settings_frame ?c)"
    using frame_parts [OF c] by (simp add: frame_complete_def)
  ultimately show ?thesis using only_valid_frames_queued [of "settings_frame ?c" ?s] by blast
qed

section \<open>Authorization\<close>

lemmas improv_defs = improv_react_def imp_on_connected_def imp_on_disconnected_def imp_adv_start_def
  imp_btn_work_fn_def set_state_def set_error_def

lemma write_rpc_effect:
  fixes f :: "improv \<Rightarrow> 'a"
  assumes rx: "\<And>u x. f (u\<lparr>i_rx := x\<rparr>) = f u" and last: "\<And>u x. f (u\<lparr>rx_last := x\<rparr>) = f u"
    and err: "\<And>u e. f (set_error e u) = f u"
    and frame: "\<And>g u. frame_complete g \<Longrightarrow> cur_state u = cur_state s \<Longrightarrow> prov_q u = prov_q s \<Longrightarrow> f u = f s
      \<Longrightarrow> f (handle_frame g u) = f s"
  shows "f (snd (write_rpc p x off buf now s)) = f s"
  using frame by (auto simp: write_rpc_def Let_def rx last err)

text \<open>With authorization required and no button press, nothing a client sends is ever tested.\<close>

definition locked :: "improv_cfg \<Rightarrow> app_wifi_creds list \<Rightarrow> improv \<Rightarrow> bool" where
  "locked cfg before s \<longleftrightarrow>
     require_auth cfg \<and> cur_state s = ST_AUTH_REQUIRED \<and> prov_q s = [] \<and> i_creds s = before"

lemma locked_frame:
  "locked cfg before s \<Longrightarrow> locked cfg before (handle_frame f s)"
  by (auto simp: locked_def handle_frame_def handle_settings_def set_error_def set_state_def Let_def)


lemma locked_write: "locked cfg before s \<Longrightarrow> locked cfg before (snd (write_rpc p x off buf now s))"
proof -
  assume l: "locked cfg before s"
  have frame: "locked cfg before (u\<lparr>i_rx := r\<rparr>) = locked cfg before u"
    "locked cfg before (u\<lparr>rx_last := t\<rparr>) = locked cfg before u" for u r t
    by (simp_all add: locked_def)
  show ?thesis
    using l by (auto simp: write_rpc_def Let_def frame set_error_def locked_def [of cfg before "u\<lparr>cur_error := e\<rparr>" for u e]
        intro!: locked_frame) (simp_all add: locked_def)
qed

lemma locked_turn:
  "locked cfg before s \<Longrightarrow> locked cfg before (snd (improv_turn cfg io s))"
  by (auto simp: locked_def improv_turn_def imp_timeout_def imp_reboot_now_def imp_adv_stop_def Let_def)

interpretation lock: guarded_system "improv_react cfg" "\<lambda>e. e \<noteq> ImpPressed" "locked cfg before" for cfg before
proof
  fix e s assume "e \<noteq> ImpPressed" "locked cfg before s"
  then show "locked cfg before (improv_react cfg e s)"
    by (cases e) (auto simp: improv_react_def locked_write locked_turn,
      auto simp: locked_def improv_defs)
qed




section \<open>Proven credentials\<close>

text \<open>Every main turn's join test tells the truth about the networks in \<open>joins\<close>.\<close>

definition honest :: "app_wifi_creds set \<Rightarrow> improv_event \<Rightarrow> bool" where
  "honest joins e \<longleftrightarrow> (case e of ImpMain io \<Rightarrow> \<forall>c. i_join io c = OK \<longrightarrow> c \<in> joins | _ \<Rightarrow> True)"

definition improv_proven :: "app_wifi_creds set \<Rightarrow> app_wifi_creds list \<Rightarrow> improv \<Rightarrow> bool" where
  "improv_proven joins before s \<longleftrightarrow> i_creds s = before \<or> set (i_creds s) \<subseteq> joins"

lemma handle_frame_creds [simp]: "i_creds (handle_frame f s) = i_creds s"
  by (simp add: handle_frame_def handle_settings_def set_error_def set_state_def msgq_put_def Let_def)

lemma write_rpc_creds: "i_creds (snd (write_rpc p x off buf now s)) = i_creds s"
  by (simp add: write_rpc_def set_error_def Let_def)

lemma improv_turn_creds:
  "i_creds (snd (improv_turn cfg io s)) = i_creds s
   \<or> (\<exists>c. i_join io c = OK \<and> i_creds (snd (improv_turn cfg io s)) \<in> {[], [c]})"
proof (cases "prov_q s")
  case Nil
  then show ?thesis
    by (simp add: improv_turn_def imp_timeout_def imp_reboot_now_def imp_adv_stop_def set_state_def Let_def)
next
  case (Cons m q)
  show ?thesis
  proof (cases m)
    case (MSG_SETTINGS c)
    then show ?thesis
      using Cons
      by (auto simp: improv_turn_def try_settings_def imp_reboot_now_def imp_adv_stop_def set_result_url_def
          set_state_def set_error_def Let_def split: rc.splits)
  next
    case MSG_SW0
    then show ?thesis
      using Cons by (simp add: improv_turn_def imp_button_def imp_adv_start_def set_state_def Let_def)
  qed
qed

interpretation proven: guarded_system "improv_react cfg" "honest joins" "improv_proven joins before"
  for cfg joins before
proof
  fix e s assume h: "honest joins e" and p: "improv_proven joins before s"
  show "improv_proven joins before (improv_react cfg e s)"
  proof (cases e)
    case (ImpMain io)
    then show ?thesis
      using h p improv_turn_creds [of cfg io s] by (auto simp: honest_def improv_proven_def improv_react_def)
  qed (use p in \<open>auto simp: improv_proven_def improv_defs write_rpc_creds msgq_put_def\<close>)
qed

text \<open>
  Through Improv too, working credentials are only ever replaced by those of a network the device
  has joined, whatever a client writes and in whatever order.
\<close>

theorem improv_stores_only_joined:
  assumes "list_all (honest joins) es"
  shows "i_creds (proven.run cfg es s) = i_creds s \<or> set (i_creds (proven.run cfg es s)) \<subseteq> joins"
proof -
  have "improv_proven joins (i_creds s) (proven.run cfg es s)"
    by (rule proven.run_keeps_ok [OF assms]) (simp add: improv_proven_def)
  then show ?thesis by (simp add: improv_proven_def)
qed

theorem improv_stores_only_joined_witness:
  "set (i_creds (proven.run sample_improv_cfg [ImpPressed, ImpMain (sample_improv_io 10),
      RpcWrite False False 0 (settings_frame \<lparr>ssid = ''lab'', psk = []\<rparr>) 20, ImpMain (sample_improv_io 30)]
      (sample_improv sample_improv_cfg))) \<subseteq> {}"
proof -
  let ?es = "[ImpPressed, ImpMain (sample_improv_io 10),
      RpcWrite False False 0 (settings_frame \<lparr>ssid = ''lab'', psk = []\<rparr>) 20, ImpMain (sample_improv_io 30)]"
  have "list_all (honest {}) ?es" by (simp add: honest_def sample_improv_io_def)
  from improv_stores_only_joined [OF this, of sample_improv_cfg "sample_improv sample_improv_cfg"]
  show ?thesis by (auto simp: sample_improv_simps)
qed

section \<open>A lost request\<close>

definition lost :: "app_wifi_creds list \<Rightarrow> improv \<Rightarrow> bool" where
  "lost before s \<longleftrightarrow> cur_state s = ST_PROVISIONING \<and> set (prov_q s) \<subseteq> {MSG_SW0} \<and> i_creds s = before"

lemma lost_frame: "lost before s \<Longrightarrow> lost before (handle_frame f s)"
  by (simp add: lost_def handle_frame_def handle_settings_def set_error_def Let_def)

lemma lost_write: "lost before s \<Longrightarrow> lost before (snd (write_rpc p x off buf now s))"
proof -
  assume l: "lost before s"
  have frame: "lost before (u\<lparr>i_rx := r\<rparr>) = lost before u" "lost before (u\<lparr>rx_last := t\<rparr>) = lost before u"
    "lost before (set_error e u) = lost before u" for u r t e
    by (simp_all add: lost_def set_error_def)
  show ?thesis using l by (auto simp: write_rpc_def Let_def frame intro!: lost_frame)
qed

lemma lost_turn: "lost before s \<Longrightarrow> lost before (snd (improv_turn cfg io s))"
proof (cases "prov_q s")
  case Nil
  assume "lost before s"
  with Nil show ?thesis
    by (auto simp: lost_def improv_turn_def imp_timeout_def imp_reboot_now_def imp_adv_stop_def Let_def)
next
  case (Cons m q)
  assume "lost before s"
  with Cons show ?thesis
    by (auto simp: lost_def improv_turn_def imp_button_def imp_adv_start_def Let_def)
qed

interpretation lost: event_system "improv_react cfg" "lost before" for cfg before
proof
  fix s e assume l: "lost before s"
  show "lost before (improv_react cfg e s)"
    using l by (cases e) (auto simp: improv_react_def lost_write lost_turn,
      auto simp: lost_def improv_defs msgq_put_def)
qed

text \<open>
  Settings written between the end of the window and the disconnection it causes are lost, and the
  device cannot be provisioned any more: the main thread drops the message without taking the state
  back, so in every later state, also after the button has started a new window, the device reports
  provisioning, tests nothing and stores nothing, until it reboots.
\<close>

theorem settings_at_expiry_lost:
  fixes now :: int and io :: improv_io and cfg :: improv_cfg
  assumes "i_idle s" "cur_state s = ST_AUTHORIZED" "prov_q s = []" "i_rx s = []" "creds_fit c"
  defines "t \<equiv> improv_react cfg (ImpMain io) (write_at 0 [settings_frame c] now s)"
  shows "cur_state (lost.run cfg es t) = ST_PROVISIONING
    \<and> set (prov_q (lost.run cfg es t)) \<subseteq> {MSG_SW0} \<and> i_creds (lost.run cfg es t) = i_creds s"
proof -
  have "settings_frame c \<noteq> []" by (simp add: settings_frame_def Let_def)
  then have w: "write_at 0 [settings_frame c] now s = s\<lparr>rx_last := now, cur_error := ERR_NONE,
      cur_state := ST_PROVISIONING, prov_q := prov_q s @ [MSG_SETTINGS c]\<rparr>"
    using settings_received_aux [OF assms(5), of "[settings_frame c]" s now] assms by simp
  have "lost (i_creds s) t"
    unfolding t_def w using assms(1, 3) by (simp add: improv_react_def improv_turn_def lost_def)
  then have "lost (i_creds s) (lost.run cfg es t)" by (rule lost.run_keeps)
  then show ?thesis by (simp add: lost_def)
qed

theorem settings_at_expiry_lost_witness:
  "cur_state (lost.run sample_improv_cfg [ImpDisconnected, ImpPressed, ImpMain (sample_improv_io 7)]
     (improv_react sample_improv_cfg (ImpMain (sample_improv_io 6))
        (write_at 0 [settings_frame \<lparr>ssid = ''lab'', psk = []\<rparr>] 5
           ((sample_improv sample_improv_cfg)\<lparr>i_idle := True, cur_state := ST_AUTHORIZED\<rparr>)))) = ST_PROVISIONING"
  by (rule settings_at_expiry_lost [THEN conjunct1]) (simp_all add: sample_improv_simps creds_fit_def)

end
