(* ===== verification/Liveness.thy ===== *)
theory Liveness
  imports Prelude
begin

text \<open>
  The liveness watchdog (\<^verbatim>\<open>src/lib/common/liveness.c\<close>, \<open>progress.c\<close>): one task watchdog channel per
  context, fed when the context makes progress, and the reset record that survives the reset so
  that the next boot can name the context that stalled. The task watchdog, the reset cause and
  the record's memory are Zephyr's and the SoC's: results come in as arguments and calls go out as a
  list.
\<close>

section \<open>Contexts and steps\<close>

definition APP_CTX_SYSWQ :: nat where "APP_CTX_SYSWQ = 0"
definition APP_CTX_NETWQ :: nat where "APP_CTX_NETWQ = 1"
definition APP_CTX_COUNT :: nat where "APP_CTX_COUNT = 4"

definition app_ctx_name :: "nat \<Rightarrow> string" where
  "app_ctx_name ctx =
     (if ctx < APP_CTX_COUNT then [''wq'', ''netwq'', ''proto'', ''trap''] ! ctx else ''?'')"

text \<open>\<open>None\<close> is the null pointer a context has before its first step.\<close>

type_synonym steps = "string option list"

definition app_step :: "nat \<Rightarrow> string \<Rightarrow> steps \<Rightarrow> steps" where
  "app_step ctx what st = (if ctx < APP_CTX_COUNT then st[ctx := Some what] else st)"

definition app_step_get :: "steps \<Rightarrow> nat \<Rightarrow> string" where
  "app_step_get st ctx =
     (let s = (if ctx < APP_CTX_COUNT then st ! ctx else None)
      in case s of Some w \<Rightarrow> w | None \<Rightarrow> ''?'')"

section \<open>Feeding\<close>

record live_cfg =
  live_timeout_s :: nat
  netwq_timeout_s :: nat

definition ctx_timeout_ms :: "live_cfg \<Rightarrow> nat \<Rightarrow> nat" where
  "ctx_timeout_ms cfg ctx =
     (if ctx = APP_CTX_NETWQ then netwq_timeout_s cfg * 1000 else live_timeout_s cfg * 1000)"

definition FEED_MIN_MS :: int where "FEED_MIN_MS = 1000"

record live_state =
  live_ready :: bool
  chan :: "int list"
  last_feed :: "int list"

definition live_init :: live_state where
  "live_init = \<lparr>live_ready = True, chan = replicate APP_CTX_COUNT (-1), last_feed = replicate APP_CTX_COUNT 0\<rparr>"

text \<open>Calls into the task watchdog: timeout and context, or the channel fed.\<close>

datatype wdt_call = TaskWdtAdd nat nat | TaskWdtFeed int

text \<open>\<open>got\<close> is what \<open>task_wdt_add\<close> returns when it is called: a channel, or a negative errno.\<close>

definition app_liveness_feed ::
  "live_cfg \<Rightarrow> int \<Rightarrow> int \<Rightarrow> nat \<Rightarrow> live_state \<Rightarrow> wdt_call list \<times> live_state" where
  "app_liveness_feed cfg got now ctx s =
     (if \<not> live_ready s \<or> ctx \<ge> APP_CTX_COUNT then ([], s)
      else if chan s ! ctx < 0 then
        let s = s\<lparr>chan := (chan s)[ctx := got]\<rparr>;
            calls = [TaskWdtAdd (ctx_timeout_ms cfg ctx) ctx]
        in if got < 0 then (calls, s\<lparr>live_ready := False\<rparr>)
           else (calls, s\<lparr>last_feed := (last_feed s)[ctx := now]\<rparr>)
      else if now - last_feed s ! ctx < FEED_MIN_MS then ([], s)
      else ([TaskWdtFeed (chan s ! ctx)], s\<lparr>last_feed := (last_feed s)[ctx := now]\<rparr>))"

section \<open>The reset record\<close>

definition REC_MAGIC :: u32 where "REC_MAGIC = 0x4C495645"
definition REC_NONE :: u32 where "REC_NONE = 0xFF"

record reset_record =
  rr_magic :: u32
  rr_boots :: u32
  rr_ctx :: u32
  rr_uptime_s :: u32
  rr_step :: bytes
  rr_check :: u32

text \<open>One round of the loop over the step.\<close>

definition rec_mix :: "u32 \<Rightarrow> byte \<Rightarrow> u32" where
  "rec_mix h b = push_bit 1 h XOR ucast b"

definition rec_check :: "reset_record \<Rightarrow> u32" where
  "rec_check r =
     (let h = rr_magic r XOR rr_boots r XOR push_bit 8 (rr_ctx r) XOR rr_uptime_s r
      in NOT (foldl rec_mix h (rr_step r)))"

definition rec_seal :: "reset_record \<Rightarrow> reset_record" where
  "rec_seal r = r\<lparr>rr_check := rec_check r\<rparr>"

text \<open>\<open>strncpy\<close> into 15 of the 16 bytes, padded with zeros, and a terminator.\<close>

definition step_field :: "string \<Rightarrow> bytes" where
  "step_field w = (let c = take 15 (ascii w) in c @ replicate (16 - length c) 0)"

definition channel_expired :: "steps \<Rightarrow> u32 \<Rightarrow> nat \<Rightarrow> reset_record \<Rightarrow> reset_record" where
  "channel_expired st uptime ctx r =
     rec_seal (r\<lparr>rr_ctx := of_nat ctx, rr_uptime_s := uptime, rr_step := step_field (app_step_get st ctx)\<rparr>)"

section \<open>The next boot\<close>

datatype reset_flag = RESET_PIN | RESET_SOFTWARE | RESET_BROWNOUT | RESET_POR | RESET_WATCHDOG | RESET_CPU_LOCKUP

definition cause_str :: "reset_flag list \<Rightarrow> string" where
  "cause_str cause =
     (if RESET_POR \<in> set cause then ''power-on''
      else if RESET_BROWNOUT \<in> set cause then ''brownout''
      else if RESET_WATCHDOG \<in> set cause then ''watchdog''
      else if RESET_CPU_LOCKUP \<in> set cause then ''panic''
      else if RESET_SOFTWARE \<in> set cause then ''software''
      else if RESET_PIN \<in> set cause then ''pin''
      else ''other'')"

text \<open>\<open>snprintf\<close> into a line of 17 bytes.\<close>

definition boot_text :: "string \<Rightarrow> string" where
  "boot_text t = take 16 t"

definition c_string :: "bytes \<Rightarrow> string" where
  "c_string bs = chars (takeWhile (\<lambda>b. b \<noteq> 0) bs)"

definition rec_load :: "reset_flag list \<Rightarrow> reset_record \<Rightarrow> reset_record" where
  "rec_load cause r =
     (let valid = rr_magic r = REC_MAGIC \<and> rr_check r = rec_check r \<and> RESET_POR \<notin> set cause;
          r = (if valid then r
               else r\<lparr>rr_magic := REC_MAGIC, rr_boots := 0, rr_ctx := REC_NONE, rr_uptime_s := 0,
                      rr_step := (rr_step r)[0 := 0]\<rparr>)
      in r\<lparr>rr_boots := rr_boots r + 1\<rparr>)"

definition boot_lines :: "reset_flag list \<Rightarrow> int \<Rightarrow> reset_record \<Rightarrow> string list" where
  "boot_lines cause esp_reason r =
     [boot_text (''BOOT b'' @ dec (unat (rr_boots r)) @ '' r'' @ dec_int esp_reason),
      boot_text (''CAUSE '' @ (if RESET_WATCHDOG \<in> set cause then ''hw-wdt'' else cause_str cause))]
     @ (if rr_ctx r \<noteq> REC_NONE
        then [boot_text (''STALL '' @ app_ctx_name (unat (rr_ctx r)) @ '' '' @ take 6 (c_string (rr_step r)))]
        else [])"

text \<open>
  \<open>liveness_init\<close>: the lines for the display, the record it leaves behind, and the state of the
  watchdog. \<open>wdt\<close> is what \<open>task_wdt_init\<close> returns.
\<close>

definition liveness_init ::
  "reset_flag list \<Rightarrow> int \<Rightarrow> rc \<Rightarrow> reset_record \<Rightarrow> string list \<times> reset_record \<times> live_state" where
  "liveness_init cause esp_reason wdt r =
     (let r = rec_load cause r;
          out = boot_lines cause esp_reason r;
          r = rec_seal (r\<lparr>rr_ctx := REC_NONE, rr_uptime_s := 0, rr_step := replicate 16 0\<rparr>)
      in (out, r, live_init\<lparr>live_ready := (wdt = OK)\<rparr>))"

definition app_liveness_boot_lines :: "string list \<Rightarrow> nat \<Rightarrow> string list" where
  "app_liveness_boot_lines ls room = take room ls"

section \<open>Feeding follows progress\<close>

text \<open>Calls of \<open>app_liveness_feed\<close>: time, what \<open>task_wdt_add\<close> would return, context.\<close>

fun feed_run :: "live_cfg \<Rightarrow> (int \<times> int \<times> nat) list \<Rightarrow> live_state \<Rightarrow> (int \<times> wdt_call) list \<times> live_state" where
  "feed_run cfg [] s = ([], s)"
| "feed_run cfg ((now, got, ctx) # es) s =
     (let (calls, s) = app_liveness_feed cfg got now ctx s;
          (log, s) = feed_run cfg es s
      in (map (Pair now) calls @ log, s))"

definition feed_times :: "int \<Rightarrow> (int \<times> wdt_call) list \<Rightarrow> int list" where
  "feed_times k log = map fst (filter (\<lambda>e. snd e = TaskWdtFeed k) log)"

definition progress_times :: "nat \<Rightarrow> (int \<times> int \<times> nat) list \<Rightarrow> int list" where
  "progress_times c es = map fst (filter (\<lambda>e. snd (snd e) = c) es)"

lemma times_simps [simp]:
  "feed_times k [] = []" "progress_times c [] = []" "feed_times k (a @ b) = feed_times k a @ feed_times k b"
  "progress_times c ((now, got, x) # es) = (if x = c then [now] else []) @ progress_times c es"
  "feed_times k (e # log) = (if snd e = TaskWdtFeed k then [fst e] else []) @ feed_times k log"
  by (simp_all add: feed_times_def progress_times_def)

text \<open>Context \<open>c\<close> is watched on channel \<open>k\<close>, which is its own.\<close>

definition watched :: "nat \<Rightarrow> int \<Rightarrow> live_state \<Rightarrow> bool" where
  "watched c k s \<longleftrightarrow> live_ready s \<and> c < APP_CTX_COUNT \<and> 0 \<le> k \<and> chan s ! c = k
     \<and> length (chan s) = APP_CTX_COUNT \<and> length (last_feed s) = APP_CTX_COUNT
     \<and> (\<forall>x < APP_CTX_COUNT. x \<noteq> c \<longrightarrow> chan s ! x \<noteq> k)"

lemma feed_other:
  assumes "watched c k s" "0 \<le> got" "got \<noteq> k" "x \<noteq> c" "app_liveness_feed cfg got now x s = (calls, t)"
  shows "watched c k t" "last_feed t ! c = last_feed s ! c" "TaskWdtFeed k \<notin> set calls"
proof -
  have own: "chan s ! x \<noteq> k" if "x < APP_CTX_COUNT" using assms(1, 4) that by (auto simp: watched_def)
  have "watched c k t \<and> last_feed t ! c = last_feed s ! c"
    using assms by (auto simp: app_liveness_feed_def watched_def Let_def nth_list_update split: if_splits)
  moreover have "TaskWdtFeed k \<notin> set calls"
    using assms(5) own by (auto simp: app_liveness_feed_def Let_def split: if_splits)
  ultimately show "watched c k t" "last_feed t ! c = last_feed s ! c" "TaskWdtFeed k \<notin> set calls" by simp_all
qed

lemma feed_own:
  assumes "watched c k s" "app_liveness_feed cfg got now c s = (calls, t)"
  shows "watched c k t"
    "if now - last_feed s ! c < 1000 then calls = [] \<and> t = s
     else calls = [TaskWdtFeed k] \<and> last_feed t ! c = now"
  using assms
  by (auto simp: app_liveness_feed_def watched_def Let_def FEED_MIN_MS_def split: if_splits)

lemma feeding_tracks_progress_aux:
  fixes cfg :: live_cfg
  assumes "watched c k s" "sorted (map fst es)" "\<forall>e \<in> set es. last_feed s ! c \<le> fst e"
    "\<forall>e \<in> set es. 0 \<le> fst (snd e) \<and> fst (snd e) \<noteq> k"
  defines "fs \<equiv> feed_times k (fst (feed_run cfg es s))"
  shows "set fs \<subseteq> set (progress_times c es)
    \<and> sorted_wrt (\<lambda>a b. a + 1000 \<le> b) (last_feed s ! c # fs)
    \<and> (\<forall>u \<in> set (progress_times c es). \<exists>f \<in> set (last_feed s ! c # fs). f \<le> u \<and> u < f + 1000)"
  using assms(1-4) unfolding fs_def
proof (induction es arbitrary: s)
  case Nil
  then show ?case by simp
next
  case (Cons e es)
  obtain now got x where e: "e = (now, got, x)" by (metis prod_cases3)
  obtain calls t where f: "app_liveness_feed cfg got now x s = (calls, t)" by fastforce
  let ?fs = "feed_times k (fst (feed_run cfg es t))"
  have run: "feed_times k (fst (feed_run cfg (e # es) s)) = feed_times k (map (Pair now) calls) @ ?fs"
    by (simp add: e f split: prod.split)
  have times: "\<forall>e \<in> set es. now \<le> fst e" "last_feed s ! c \<le> now" "0 \<le> got" "got \<noteq> k" "sorted (map fst es)"
    using Cons.prems by (auto simp: e)
  show ?case
  proof (cases "x = c")
    case False
    note o = feed_other [OF Cons.prems(1) times(3, 4) False f]
    have "feed_times k (map (Pair now) calls) = []"
      using o(3) by (auto simp: feed_times_def filter_empty_conv)
    then show ?thesis
      using Cons.IH [OF o(1) times(5)] Cons.prems(3, 4) o(2) False unfolding run by (simp add: e)
  next
    case True
    note o = feed_own [OF Cons.prems(1) f [unfolded True]]
    show ?thesis
    proof (cases "now - last_feed s ! c < 1000")
      case True
      then have "calls = []" "t = s" using o(2) by simp_all
      then show ?thesis
        using Cons.IH [OF Cons.prems(1) times(5)] Cons.prems(3, 4) times(2) True \<open>x = c\<close>
        unfolding run by (auto simp: e)
    next
      case False
      then have t: "calls = [TaskWdtFeed k]" "last_feed t ! c = now" using o(2) by simp_all
      have ih: "set ?fs \<subseteq> set (progress_times c es)
          \<and> sorted_wrt (\<lambda>a b. a + 1000 \<le> b) (now # ?fs)
          \<and> (\<forall>u \<in> set (progress_times c es). \<exists>f \<in> set (now # ?fs). f \<le> u \<and> u < f + 1000)"
        using Cons.IH [OF o(1) times(5)] Cons.prems(4) times(1) by (simp add: t(2))
      then show ?thesis
        using False \<open>x = c\<close> unfolding run by (fastforce simp: e t(1))
    qed
  qed
qed

text \<open>
  C22. The watchdog watches progress, no more and no less. For a context on its own channel, whatever
  the others do: the channel is fed only when the context itself reports progress (so a context
  that stalls is reset), at most once a second, and every report is backed by a feed less than a
  second older (so one that keeps reporting within its timeout less a second is never reset).
\<close>

theorem feeding_tracks_progress:
  fixes cfg :: live_cfg
  assumes "watched c k s" "sorted (map fst es)" "\<forall>e \<in> set es. last_feed s ! c \<le> fst e"
    "\<forall>e \<in> set es. 0 \<le> fst (snd e) \<and> fst (snd e) \<noteq> k"
  defines "fs \<equiv> feed_times k (fst (feed_run cfg es s))"
  shows "set fs \<subseteq> set (progress_times c es)
    \<and> sorted_wrt (\<lambda>a b. a + 1000 \<le> b) (last_feed s ! c # fs)
    \<and> (\<forall>u \<in> set (progress_times c es). \<exists>f \<in> set (last_feed s ! c # fs). f \<le> u \<and> u < f + 1000)"
  using assms(1-4) unfolding fs_def by (rule feeding_tracks_progress_aux)

theorem feeding_tracks_progress_witness:
  "\<exists>f \<in> set (0 # feed_times 7 (fst (feed_run \<lparr>live_timeout_s = 30, netwq_timeout_s = 120\<rparr>
      [(300, 0, 2), (900, 0, 2), (1000, 0, 3), (1800, 0, 2)]
      \<lparr>live_ready = True, chan = [-1, -1, 7, -1], last_feed = [0, 0, 0, 0]\<rparr>))). f \<le> 1800 \<and> 1800 < f + 1000"
  using feeding_tracks_progress [of 2 7 "\<lparr>live_ready = True, chan = [-1, -1, 7, -1], last_feed = [0, 0, 0, 0]\<rparr>"
      "[(300, 0, 2), (900, 0, 2), (1000, 0, 3), (1800, 0, 2)]" "\<lparr>live_timeout_s = 30, netwq_timeout_s = 120\<rparr>"]
  by (simp add: watched_def APP_CTX_COUNT_def less_Suc_eq numeral_eq_Suc)

text \<open>
  One registration that fails switches the feeding off for good: the task watchdog keeps running
  with the channels it has, but no context is ever fed again, so the device is reset although
  every context makes progress.
\<close>

lemma feed_run_off: "\<not> live_ready s \<Longrightarrow> feed_run cfg es s = ([], s)"
  by (induction cfg es s rule: feed_run.induct) (auto simp: app_liveness_feed_def Let_def)

theorem failed_registration_stops_feeding:
  assumes "live_ready s" "c < APP_CTX_COUNT" "chan s ! c < 0" "got < 0"
  shows "fst (feed_run cfg ((now, got, c) # es) s) = [(now, TaskWdtAdd (ctx_timeout_ms cfg c) c)]"
  using assms by (simp add: app_liveness_feed_def feed_run_off)

theorem failed_registration_stops_feeding_witness:
  "feed_times 7 (fst (feed_run \<lparr>live_timeout_s = 30, netwq_timeout_s = 120\<rparr>
      [(1000, -12, 3), (2000, 0, 2), (3000, 0, 2)]
      \<lparr>live_ready = True, chan = [-1, -1, 7, -1], last_feed = [0, 0, 0, 0]\<rparr>)) = []"
  using failed_registration_stops_feeding [of "\<lparr>live_ready = True, chan = [-1, -1, 7, -1], last_feed = [0, 0, 0, 0]\<rparr>"
      3 "-12" "\<lparr>live_timeout_s = 30, netwq_timeout_s = 120\<rparr>" 1000 "[(2000, 0, 2), (3000, 0, 2)]"]
  by (simp add: APP_CTX_COUNT_def)

section \<open>What the check word covers\<close>

lemma rec_mix_xor: "rec_mix (a XOR c) b = push_bit 1 a XOR rec_mix c b"
  by (simp only: rec_mix_def push_bit_xor xor.assoc)

lemma fold_mix_xor:
  "foldl rec_mix (a XOR c) bs = push_bit (length bs) a XOR foldl rec_mix c bs"
proof (induction bs arbitrary: a c)
  case (Cons b bs)
  show ?case
    using Cons.IH [of "push_bit 1 a" "rec_mix c b"] by (simp only: foldl_Cons rec_mix_xor push_bit_push_bit list.size add.commute One_nat_def)
qed simp

lemma push_bit_eq_low:
  "k \<le> 32 \<Longrightarrow> push_bit k (a :: u32) = push_bit k b \<longleftrightarrow> take_bit (32 - k) a = take_bit (32 - k) b"
proof
  assume k: "k \<le> 32" and eq: "push_bit k a = push_bit k b"
  show "take_bit (32 - k) a = take_bit (32 - k) b"
  proof (rule bit_eqI)
    fix n
    assume "possible_bit TYPE(u32) n"
    have "bit (push_bit k a) (n + k) = bit (push_bit k b) (n + k)" using eq by simp
    then show "bit (take_bit (32 - k) a) n = bit (take_bit (32 - k) b) n"
      using k by (auto simp: bit_simps)
  qed
next
  assume k: "k \<le> 32" and eq: "take_bit (32 - k) a = take_bit (32 - k) b"
  show "push_bit k a = push_bit k b"
  proof (rule bit_eqI)
    fix n
    assume n: "possible_bit TYPE(u32) n"
    have "bit (take_bit (32 - k) a) (n - k) = bit (take_bit (32 - k) b) (n - k)" using eq by simp
    then show "bit (push_bit k a) n = bit (push_bit k b) n" using n k by (auto simp: bit_simps)
  qed
qed

lemma xor_swap: "a XOR x = a XOR y \<longleftrightarrow> x = (y :: u32)"
  by (metis xor.left_commute xor_self_eq xor.right_neutral)

lemma xor_swap_right: "x XOR a = y XOR a \<longleftrightarrow> x = (y :: u32)"
  using xor_swap [of a x y] by (simp only: xor.commute)

lemmas push_bit_16_eq = push_bit_eq_low [of 16, simplified]

text \<open>Of the words the fold starts from, only the low half of their combination counts.\<close>

lemma rec_check_head:
  assumes "length (rr_step r) = 16" "rr_step r' = rr_step r"
  shows "rec_check r' = rec_check r \<longleftrightarrow>
    take_bit 16 (rr_magic r' XOR rr_boots r' XOR push_bit 8 (rr_ctx r') XOR rr_uptime_s r')
    = take_bit 16 (rr_magic r XOR rr_boots r XOR push_bit 8 (rr_ctx r) XOR rr_uptime_s r)"
proof -
  have fold: "foldl rec_mix x bs = push_bit (length bs) x XOR foldl rec_mix 0 bs" for x bs
    using fold_mix_xor [of x 0 bs] by (simp only: xor.right_neutral)
  have c: "rec_check q = NOT (push_bit 16 (rr_magic q XOR rr_boots q XOR push_bit 8 (rr_ctx q) XOR rr_uptime_s q)
      XOR foldl rec_mix 0 (rr_step q))"
    if "length (rr_step q) = 16" for q
    unfolding rec_check_def Let_def by (subst fold) (simp only: that)
  have l: "length (rr_step r') = 16" using assms by simp
  show ?thesis
    unfolding c [OF assms(1)] c [OF l] assms(2) bit.compl_eq_compl_iff xor_swap_right
    by (rule push_bit_16_eq)
qed

lemma fold_mix_at:
  assumes "i < length bs"
  shows "foldl rec_mix h (bs[i := x]) = push_bit (length bs - Suc i) (ucast x)
    XOR foldl rec_mix (push_bit 1 (foldl rec_mix h (take i bs))) (drop (Suc i) bs)"
proof -
  let ?g = "foldl rec_mix h (take i bs)"
  have "foldl rec_mix h (bs[i := x]) = foldl rec_mix (rec_mix ?g x) (drop (Suc i) bs)"
    using assms by (simp only: upd_conv_take_nth_drop foldl_append foldl_Cons)
  also have "rec_mix ?g x = ucast x XOR push_bit 1 ?g"
    by (simp only: rec_mix_def xor.commute)
  finally show ?thesis by (simp only: fold_mix_xor length_drop)
qed

lemma low_byte: "k \<le> 15 \<Longrightarrow> take_bit (32 - k) (ucast (x :: byte) :: u32) = ucast x"
  by (intro bit_eqI) (auto simp: bit_simps dest: bit_imp_le_length)

lemma fold_mix_byte:
  assumes "i < length bs" "length bs \<le> 16"
  shows "foldl rec_mix h (bs[i := b]) = foldl rec_mix h bs \<longleftrightarrow> b = bs ! i"
proof -
  let ?k = "length bs - Suc i"
  have k: "?k \<le> 15" "?k \<le> 32" using assms by simp_all
  have "foldl rec_mix h (bs[i := b]) = foldl rec_mix h (bs[i := bs ! i]) \<longleftrightarrow>
      push_bit ?k (ucast b :: u32) = push_bit ?k (ucast (bs ! i))"
    unfolding fold_mix_at [OF assms(1)] by (rule xor_swap_right)
  also have "\<dots> \<longleftrightarrow> (ucast b :: u32) = ucast (bs ! i)"
    unfolding push_bit_eq_low [OF k(2)] low_byte [OF k(1)] ..
  finally show ?thesis unfolding list_update_id ucast_byte_eq .
qed

text \<open>
  What the check word protects. A changed byte of the step is always found; a changed uptime or boot
  count is found exactly when its low 16 bits change, because the sixteen shifts over the step push the
  high half of everything before it out of the word.
\<close>

theorem record_check_coverage:
  assumes "length (rr_step r) = 16"
  shows "(i < 16 \<longrightarrow> (rec_check (r\<lparr>rr_step := (rr_step r)[i := b]\<rparr>) = rec_check r \<longleftrightarrow> b = rr_step r ! i))
    \<and> (rec_check (r\<lparr>rr_uptime_s := w\<rparr>) = rec_check r \<longleftrightarrow> take_bit 16 w = take_bit 16 (rr_uptime_s r))
    \<and> (rec_check (r\<lparr>rr_boots := w\<rparr>) = rec_check r \<longleftrightarrow> take_bit 16 w = take_bit 16 (rr_boots r))"
proof -
  have "rec_check (r\<lparr>rr_uptime_s := w\<rparr>) = rec_check r \<longleftrightarrow> take_bit 16 w = take_bit 16 (rr_uptime_s r)"
    using rec_check_head [OF assms, of "r\<lparr>rr_uptime_s := w\<rparr>"] by (simp add: xor_swap)
  moreover have "rec_check (r\<lparr>rr_boots := w\<rparr>) = rec_check r \<longleftrightarrow> take_bit 16 w = take_bit 16 (rr_boots r)"
    using rec_check_head [OF assms, of "r\<lparr>rr_boots := w\<rparr>"] by (simp add: xor_swap xor_swap_right)
  moreover have "rec_check (r\<lparr>rr_step := (rr_step r)[i := b]\<rparr>) = rec_check r \<longleftrightarrow> b = rr_step r ! i" if "i < 16"
    using fold_mix_byte [of i "rr_step r"] that assms by (simp add: rec_check_def)
  ultimately show ?thesis by blast
qed

section \<open>A stall is reported once\<close>

definition rec_ok :: "reset_record \<Rightarrow> bool" where
  "rec_ok r \<longleftrightarrow> rr_magic r = REC_MAGIC \<and> rr_check r = rec_check r"

lemma rec_check_sealed: "rec_check (rec_seal r) = rec_check r"
  by (simp add: rec_seal_def rec_check_def)

lemma c_string_step:
  assumes "CHR 0x00 \<notin> set w"
  shows "c_string (step_field w) = take 15 w"
proof -
  have "(of_char c :: byte) \<noteq> 0" if "c \<in> set w" for c
  proof
    assume "(of_char c :: byte) = 0"
    moreover have "char_of (0 :: nat) = CHR 0x00" by code_simp
    ultimately have "chars (ascii [c]) = [CHR 0x00]" by (simp add: ascii_def chars_def)
    then show False using chars_ascii [of "[c]"] that assms by simp
  qed
  then have nz: "b \<noteq> 0" if "b \<in> set (take 15 (ascii w))" for b
    using that by (auto simp: ascii_def take_map dest: in_set_takeD)
  have "takeWhile (\<lambda>b. b \<noteq> 0) (step_field w) = take 15 (ascii w)"
    using nz by (simp add: step_field_def Let_def takeWhile_append2 takeWhile_eq_Nil_iff)
  then have "c_string (step_field w) = take 15 (chars (ascii w))"
    by (simp add: c_string_def chars_def take_map)
  then show ?thesis by (simp add: chars_ascii)
qed

lemma stalled_boot:
  assumes "rec_ok r" "ctx < APP_CTX_COUNT" "RESET_POR \<notin> set cause" "CHR 0x00 \<notin> set (app_step_get st ctx)"
    and "liveness_init cause esp wdt (channel_expired st up ctx r) = (ls, r', s')"
  shows "length ls = 3" "ls ! 2 = take 16 (''STALL '' @ app_ctx_name ctx @ '' '' @ take 6 (app_step_get st ctx))"
    "rec_ok r'" "rr_ctx r' = REC_NONE" "rr_boots r' = rr_boots r + 1"
proof -
  let ?x = "channel_expired st up ctx r"
  have ctx: "(of_nat ctx :: u32) \<noteq> REC_NONE" "unat (of_nat ctx :: u32) = ctx"
  proof -
    have "ctx = 0 \<or> ctx = 1 \<or> ctx = 2 \<or> ctx = 3" using assms(2) by (auto simp: APP_CTX_COUNT_def)
    then show "(of_nat ctx :: u32) \<noteq> REC_NONE" "unat (of_nat ctx :: u32) = ctx"
      by (elim disjE; simp add: REC_NONE_def)+
  qed
  have x: "rr_magic ?x = REC_MAGIC" "rr_check ?x = rec_check ?x" "rr_ctx ?x = of_nat ctx" "rr_boots ?x = rr_boots r"
    "rr_step ?x = step_field (app_step_get st ctx)"
    using assms(1) by (simp_all add: channel_expired_def rec_ok_def rec_seal_def rec_check_def)
  then have load: "rec_load cause ?x = ?x\<lparr>rr_boots := rr_boots r + 1\<rparr>"
    using assms(3) by (simp add: rec_load_def)
  have r': "r' = rec_seal (?x\<lparr>rr_boots := rr_boots r + 1, rr_ctx := REC_NONE, rr_uptime_s := 0, rr_step := replicate 16 0\<rparr>)"
    and ls: "ls = boot_lines cause esp (?x\<lparr>rr_boots := rr_boots r + 1\<rparr>)"
    using assms(5) by (simp_all add: liveness_init_def load Let_def)
  show "rec_ok r'" "rr_ctx r' = REC_NONE" "rr_boots r' = rr_boots r + 1"
    using x unfolding r' by (simp_all add: rec_ok_def rec_check_sealed) (simp_all add: rec_seal_def)
  show "length ls = 3" "ls ! 2 = take 16 (''STALL '' @ app_ctx_name ctx @ '' '' @ take 6 (app_step_get st ctx))"
    using ctx x(3, 5) c_string_step [OF assms(4)] unfolding ls
    by (simp_all add: boot_lines_def boot_text_def min_def)
qed

text \<open>
  C25. A stall is reported by the next boot, once. When the channel of a context expires, the boot
  after the reset shows the context and the step it was in, and counts up; the record it leaves is
  valid again and says nothing, so a later boot without a stall does not repeat the report.
\<close>

theorem stall_reported_once:
  assumes "rec_ok r" "ctx < APP_CTX_COUNT" "RESET_POR \<notin> set cause" "CHR 0x00 \<notin> set (app_step_get st ctx)"
    and "liveness_init cause esp wdt (channel_expired st up ctx r) = (ls, r', s')"
    and "RESET_POR \<notin> set cause'"
  shows "length ls = 3 \<and> ls ! 2 = take 16 (''STALL '' @ app_ctx_name ctx @ '' '' @ take 6 (app_step_get st ctx))
    \<and> rec_ok r' \<and> rr_boots r' = rr_boots r + 1
    \<and> length (fst (liveness_init cause' esp' wdt' r')) = 2
    \<and> rr_boots (fst (snd (liveness_init cause' esp' wdt' r'))) = rr_boots r + 2"
proof -
  note b = stalled_boot [OF assms(1-5)]
  have "rec_load cause' r' = r'\<lparr>rr_boots := rr_boots r' + 1\<rparr>"
    using b(3) assms(6) by (simp add: rec_load_def rec_ok_def)
  then have "length (fst (liveness_init cause' esp' wdt' r')) = 2"
    "rr_boots (fst (snd (liveness_init cause' esp' wdt' r'))) = rr_boots r + 2"
    using b(4, 5) by (simp_all add: liveness_init_def Let_def boot_lines_def rec_seal_def)
  then show ?thesis using b by simp
qed

definition sample_rec :: reset_record where
  "sample_rec = rec_seal \<lparr>rr_magic = REC_MAGIC, rr_boots = 4, rr_ctx = REC_NONE, rr_uptime_s = 0,
     rr_step = replicate 16 0, rr_check = 0\<rparr>"

lemma sample_rec_ok: "rec_ok sample_rec" "rr_boots sample_rec = 4" "length (rr_step sample_rec) = 16"
    "rr_uptime_s sample_rec = 0"
  by (simp_all add: rec_ok_def sample_rec_def rec_seal_def rec_check_def)

theorem record_check_coverage_witness:
  "rec_check (sample_rec\<lparr>rr_uptime_s := 0x10000\<rparr>) = rec_check sample_rec
   \<and> rec_check (sample_rec\<lparr>rr_uptime_s := 1\<rparr>) \<noteq> rec_check sample_rec"
  using record_check_coverage [of sample_rec 0 0 "0x10000"] record_check_coverage [of sample_rec 0 0 1]
    sample_rec_ok by simp

theorem stall_reported_once_witness:
  "fst (liveness_init [RESET_SOFTWARE] (-1) OK
      (channel_expired (app_step 2 ''recv'' (replicate 4 None)) 90 2 sample_rec)) ! 2 = ''STALL proto recv''"
proof -
  let ?st = "app_step 2 ''recv'' (replicate 4 None)"
  let ?i = "liveness_init [RESET_SOFTWARE] (-1) OK (channel_expired ?st 90 2 sample_rec)"
  have st: "app_step_get ?st 2 = ''recv''"
    by (simp add: app_step_get_def app_step_def APP_CTX_COUNT_def numeral_eq_Suc)
  have "fst ?i ! 2 = take 16 (''STALL '' @ app_ctx_name 2 @ '' '' @ take 6 (app_step_get ?st 2))"
    using stall_reported_once [OF sample_rec_ok(1), of 2 "[RESET_SOFTWARE]" ?st "-1" OK 90 "fst ?i" "fst (snd ?i)" "snd (snd ?i)" "[]"]
    by (simp add: APP_CTX_COUNT_def st)
  then show ?thesis by (simp add: st app_ctx_name_def APP_CTX_COUNT_def)
qed

end
