(* ===== verification/Diag.thy ===== *)
theory Diag
  imports Liveness
begin

text \<open>
  The diagnostics thread (\<^verbatim>\<open>src/lib/common/diag.c\<close>): when each context last made progress, the stale and
  recovered reports, and the health line built with bounded appends. Thread dumps, heap and
  network statistics are only printed; their text is a parameter.
\<close>

section \<open>Beats\<close>

text \<open>Uptime of the last beat per context, 0 when it never beat; the 32-bit uptime wraps.\<close>

definition app_diag_beat :: "u32 \<Rightarrow> nat \<Rightarrow> u32 list \<Rightarrow> u32 list" where
  "app_diag_beat uptime ctx beats = (if ctx \<ge> APP_CTX_COUNT then beats else beats[ctx := uptime OR 1])"

definition beat_age_ms :: "u32 \<Rightarrow> u32 \<Rightarrow> u32" where
  "beat_age_ms now b = (if b > now then 0 else now - b)"

text \<open>The hook every loop calls: the beat, then the feed.\<close>

definition app_alive ::
  "live_cfg \<Rightarrow> int \<Rightarrow> int \<Rightarrow> nat \<Rightarrow> u32 list \<times> live_state \<Rightarrow> wdt_call list \<times> u32 list \<times> live_state" where
  "app_alive cfg got now ctx s =
     (let (calls, live) = app_liveness_feed cfg got now ctx (snd s)
      in (calls, app_diag_beat (word_of_int now) ctx (fst s), live))"

text \<open>\<open>probe_handler\<close> of \<open>progress.c\<close>: it also reschedules itself, in three seconds.\<close>

definition probe_handler ::
  "live_cfg \<Rightarrow> int \<Rightarrow> int \<Rightarrow> steps \<times> u32 list \<times> live_state \<Rightarrow> wdt_call list \<times> steps \<times> u32 list \<times> live_state" where
  "probe_handler cfg got now s =
     (let st = app_step APP_CTX_SYSWQ ''probe'' (fst s);
          (calls, b) = app_alive cfg got now APP_CTX_SYSWQ (snd s)
      in (calls, st, b))"

section \<open>Stale contexts\<close>

datatype stale_report = STALE nat u32 string | ThreadDump | RECOVERED nat

definition stale_ms :: "nat \<Rightarrow> u32" where
  "stale_ms period_s = 2 * (of_nat period_s * 1000)"

text \<open>The loop body for one context, then the loop; \<open>was\<close> is \<open>was_stale\<close>.\<close>

definition check_stale_ctx ::
  "u32 \<Rightarrow> u32 \<Rightarrow> steps \<Rightarrow> u32 list \<Rightarrow> nat \<Rightarrow> bool list \<Rightarrow> stale_report list \<times> bool list" where
  "check_stale_ctx limit now st beats c was =
     (let b = beats ! c;
          stale = (b \<noteq> 0 \<and> beat_age_ms now b > limit)
      in ((if stale then STALE c (beat_age_ms now b div 1000) (app_step_get st c)
                           # (if \<not> was ! c then [ThreadDump] else [])
           else if was ! c then [RECOVERED c] else []),
          was[c := stale]))"

fun check_stale_from ::
  "u32 \<Rightarrow> u32 \<Rightarrow> steps \<Rightarrow> u32 list \<Rightarrow> nat list \<Rightarrow> bool list \<Rightarrow> stale_report list \<times> bool list" where
  "check_stale_from limit now st beats [] was = ([], was)"
| "check_stale_from limit now st beats (c # cs) was =
     (let (r, was) = check_stale_ctx limit now st beats c was;
          (rs, was) = check_stale_from limit now st beats cs was
      in (r @ rs, was))"

definition check_stale :: "nat \<Rightarrow> u32 \<Rightarrow> steps \<Rightarrow> u32 list \<Rightarrow> bool list \<Rightarrow> stale_report list \<times> bool list" where
  "check_stale period_s now st beats was =
     check_stale_from (stale_ms period_s) now st beats [0..<APP_CTX_COUNT] was"

section \<open>The health line\<close>

text \<open>
  \<open>APPEND\<close>: \<open>snprintf\<close> of \<open>w\<close> at position \<open>pos\<close> of a buffer of \<open>n\<close> bytes. The buffer is what has been
  written so far, without the terminator.
\<close>

definition append_text :: "nat \<Rightarrow> string \<Rightarrow> string \<Rightarrow> string" where
  "append_text n line w =
     (let pos = length line; written = take (n - pos - 1) w
      in take (min (n - 1) (pos + length w)) (line @ written))"

definition HEALTH_LINE :: nat where "HEALTH_LINE = 256"

datatype work_busy = WORK_RUNNING | WORK_CANCELING | WORK_QUEUED | WORK_DELAYED

definition work_flag :: "work_busy list \<Rightarrow> char" where
  "work_flag busy =
     (if WORK_RUNNING \<in> set busy then CHR ''R''
      else if WORK_CANCELING \<in> set busy then CHR ''C''
      else if WORK_QUEUED \<in> set busy then CHR ''Q''
      else if WORK_DELAYED \<in> set busy then CHR ''D''
      else CHR ''-'')"

definition MAX_WORKS :: nat where "MAX_WORKS = 6"

type_synonym works = "(string \<times> work_busy list) list"

definition app_diag_watch_work :: "string \<Rightarrow> work_busy list \<Rightarrow> works \<Rightarrow> works" where
  "app_diag_watch_work nm w ws = (if length ws \<ge> MAX_WORKS then ws else ws @ [(nm, w)])"

definition beat_text :: "u32 \<Rightarrow> nat \<Rightarrow> u32 \<Rightarrow> string" where
  "beat_text now c b =
     (if c = 0 then [] else '' '') @ app_ctx_name c @ ''='' @
     (if b = 0 then ''-'' else dec (unat (beat_age_ms now b div 1000)))"

definition work_text :: "nat \<Rightarrow> string \<times> work_busy list \<Rightarrow> string" where
  "work_text i w = (if i = 0 then [] else '' '') @ fst w @ ''='' @ [work_flag (snd w)]"

text \<open>\<open>stats\<close>: the heap and network parts that the build has.\<close>

definition health_parts ::
  "u32 \<Rightarrow> u32 \<Rightarrow> u32 list \<Rightarrow> works \<Rightarrow> string list \<Rightarrow> bool \<Rightarrow> steps \<Rightarrow> string list" where
  "health_parts now n beats ws stats online st =
     [''HEALTH up='' @ dec (unat (now div 1000)) @ '' n='' @ dec (unat n) @ '' beat['']
     @ map (\<lambda>c. beat_text now c (beats ! c)) [0..<APP_CTX_COUNT]
     @ [''] work['']
     @ map (\<lambda>i. work_text i (ws ! i)) [0..<length ws]
     @ ['']''] @ stats
     @ ['' net='' @ (if online then ''up'' else ''down'') @ ''/'' @ app_step_get st APP_CTX_NETWQ]"

definition log_health ::
  "u32 \<Rightarrow> u32 \<Rightarrow> u32 list \<Rightarrow> works \<Rightarrow> string list \<Rightarrow> bool \<Rightarrow> steps \<Rightarrow> string" where
  "log_health now n beats ws stats online st =
     foldl (append_text HEALTH_LINE) [] (health_parts now n beats ws stats online st)"

section \<open>The thread\<close>

definition stack_report_every :: "nat \<Rightarrow> nat" where
  "stack_report_every period_s = max 1 (60 div period_s)"

text \<open>The \<open>n\<close>-th turn of \<open>diag_main\<close>: the reports, the health line, and whether the stacks are listed.\<close>

definition diag_turn ::
  "nat \<Rightarrow> u32 \<Rightarrow> u32 \<Rightarrow> u32 list \<Rightarrow> works \<Rightarrow> string list \<Rightarrow> bool \<Rightarrow> steps \<Rightarrow> bool list
   \<Rightarrow> (stale_report list \<times> string \<times> bool) \<times> bool list" where
  "diag_turn period_s n now beats ws stats online st was =
     (let (rs, was) = check_stale period_s now st beats was
      in ((rs, log_health now n beats ws stats online st, n mod of_nat (stack_report_every period_s) = 1), was))"

section \<open>The health line is never overrun\<close>

lemma append_text_take:
  assumes "0 < n" "length line \<le> n - 1"
  shows "append_text n line w = take (n - 1) (line @ w)"
  using assms by (auto simp: append_text_def Let_def min_def)

lemma fold_append_text:
  "0 < n \<Longrightarrow> length line \<le> n - 1 \<Longrightarrow> foldl (append_text n) line ws = take (n - 1) (line @ concat ws)"
proof (induction ws arbitrary: line)
  case (Cons w ws)
  have "length (append_text n line w) \<le> n - 1" using Cons.prems by (simp add: append_text_take)
  moreover have "n - Suc (length line + min (length w) (n - Suc (length line))) = n - Suc (length line + length w)"
    by (simp add: min_def)
  ultimately show ?case using Cons by (simp add: append_text_take)
qed simp

text \<open>
  The health line is the text of its parts in order, cut at the 255 characters the buffer holds:
  bounded appends of any parts neither overrun it nor lose anything before the cut.
\<close>

theorem health_line_cut:
  "log_health now n beats ws stats online st = take 255 (concat (health_parts now n beats ws stats online st))"
  using fold_append_text [of 256 "[]"] by (simp add: log_health_def HEALTH_LINE_def)

section \<open>Reports follow the edges\<close>

definition is_stale :: "nat \<Rightarrow> u32 \<Rightarrow> u32 list \<Rightarrow> nat \<Rightarrow> bool" where
  "is_stale period_s now beats c \<longleftrightarrow> beats ! c \<noteq> 0 \<and> beat_age_ms now (beats ! c) > stale_ms period_s"

definition stale_reports :: "nat \<Rightarrow> u32 \<Rightarrow> steps \<Rightarrow> u32 list \<Rightarrow> bool list \<Rightarrow> nat \<Rightarrow> stale_report list" where
  "stale_reports p now st beats was c =
     (if is_stale p now beats c
      then STALE c (beat_age_ms now (beats ! c) div 1000) (app_step_get st c) # (if \<not> was ! c then [ThreadDump] else [])
      else if was ! c then [RECOVERED c] else [])"

lemma check_stale_from_eq:
  assumes "distinct cs" "\<forall>c \<in> set cs. c < length was"
  shows "check_stale_from (stale_ms p) now st beats cs was
    = (concat (map (stale_reports p now st beats was) cs),
       fold (\<lambda>c w. w[c := is_stale p now beats c]) cs was)"
  using assms
proof (induction cs arbitrary: was)
  case (Cons c cs)
  have "stale_reports p now st beats (was[c := x]) d = stale_reports p now st beats was d" if "d \<in> set cs" for d x
    using that Cons.prems by (auto simp: stale_reports_def nth_list_update)
  moreover have "check_stale_ctx (stale_ms p) now st beats c was
      = (stale_reports p now st beats was c, was[c := is_stale p now beats c])"
    by (simp add: check_stale_ctx_def stale_reports_def is_stale_def Let_def)
  ultimately show ?case using Cons by (simp cong: map_cong)
qed simp

lemma check_stale_eq:
  assumes "length was = APP_CTX_COUNT"
  shows "check_stale p now st beats was
    = (concat (map (stale_reports p now st beats was) [0..<APP_CTX_COUNT]),
       map (is_stale p now beats) [0..<APP_CTX_COUNT])"
proof -
  obtain a b c d where "was = [a, b, c, d]"
    using assms by (auto simp: APP_CTX_COUNT_def length_Suc_conv numeral_eq_Suc)
  then have "fold (\<lambda>c w. w[c := is_stale p now beats c]) [0..<4] was = map (is_stale p now beats) [0..<4]"
    by (simp add: upt_rec numeral_eq_Suc)
  then show ?thesis
    using check_stale_from_eq [of "[0..<APP_CTX_COUNT]" was p now st beats] assms
    by (simp add: check_stale_def APP_CTX_COUNT_def)
qed

text \<open>
  Every period the thread reports exactly the contexts that are stale, dumps the threads exactly when
  one becomes stale, reports a recovery exactly when one stops being stale, and remembers the state.
\<close>

theorem stale_reports_follow_edges:
  assumes "length was = APP_CTX_COUNT" "check_stale p now st beats was = (rs, was')"
  shows "was' = map (is_stale p now beats) [0..<APP_CTX_COUNT]
    \<and> (\<forall>c. (\<exists>age w. STALE c age w \<in> set rs) \<longleftrightarrow> c < APP_CTX_COUNT \<and> was' ! c)
    \<and> (\<forall>c. RECOVERED c \<in> set rs \<longleftrightarrow> c < APP_CTX_COUNT \<and> was ! c \<and> \<not> was' ! c)
    \<and> (ThreadDump \<in> set rs \<longleftrightarrow> (\<exists>c < APP_CTX_COUNT. \<not> was ! c \<and> was' ! c))"
proof -
  have rs: "set rs = (\<Union>c \<in> {0..<APP_CTX_COUNT}. set (stale_reports p now st beats was c))"
    and was': "was' = map (is_stale p now beats) [0..<APP_CTX_COUNT]"
    using assms(2) unfolding check_stale_eq [OF assms(1)] by force+
  have nth: "was' ! c = is_stale p now beats c" if "c < APP_CTX_COUNT" for c
    using that by (simp add: was')
  show ?thesis
    using nth unfolding rs
    by (auto simp: stale_reports_def was' split: if_splits) (metis atLeastLessThan_iff le0)+
qed

section \<open>Two corner cases\<close>

text \<open>
  A stall that outlasts the wrap of the 32-bit uptime is reported as a recovery: the beat is then
  newer than \<open>now\<close>, which counts as age 0, although the context has not moved.
\<close>

theorem stall_across_wrap_recovers:
  assumes "length was = APP_CTX_COUNT" "c < APP_CTX_COUNT" "was ! c" "now < beats ! c"
  shows "RECOVERED c \<in> set (fst (check_stale p now st beats was))"
  using assms unfolding check_stale_eq [OF assms(1)]
  by (auto simp: stale_reports_def is_stale_def beat_age_ms_def intro!: bexI [of _ c])

text \<open>
  With a period above thirty seconds the stack margins are never listed: the interval is then one
  turn, and a remainder of one never is.
\<close>

theorem stacks_never_reported:
  assumes "30 < period_s"
  shows "\<not> snd (snd (fst (diag_turn period_s n now beats ws stats online st was)))"
proof -
  have "60 div period_s \<le> 1" using assms by (simp add: div_le_mono less_Suc_eq_le [symmetric] div_less_iff_less_mult)
  then have "stack_report_every period_s = 1" by (simp add: stack_report_every_def)
  then show ?thesis by (simp add: diag_turn_def split: prod.split)
qed

theorem stale_reports_follow_edges_witness:
  "ThreadDump \<in> set (fst (check_stale 10 25000 [] [1, 0, 0, 0] (replicate 4 False)))
   \<and> STALE 0 24 ''?'' \<in> set (fst (check_stale 10 25000 (replicate 4 None) [1, 0, 0, 0] (replicate 4 False)))"
proof -
  let ?b = "[1, 0, 0, 0] :: u32 list"
  have was: "length (replicate 4 False) = APP_CTX_COUNT" by (simp add: APP_CTX_COUNT_def)
  have st: "is_stale 10 25000 ?b 0" by (simp add: is_stale_def beat_age_ms_def stale_ms_def)
  have "map (is_stale 10 25000 ?b) [0..<APP_CTX_COUNT] ! 0" using st by (simp add: APP_CTX_COUNT_def)
  then have "\<exists>c < APP_CTX_COUNT. \<not> replicate 4 False ! c \<and> map (is_stale 10 25000 ?b) [0..<APP_CTX_COUNT] ! c"
    by (intro exI [of _ 0]) (simp add: APP_CTX_COUNT_def)
  moreover note stale_reports_follow_edges [OF was surjective_pairing, of 10 25000 "[]" ?b]
  moreover have "check_stale 10 25000 (replicate 4 None) ?b (replicate 4 False)
    = (concat (map (stale_reports 10 25000 (replicate 4 None) ?b (replicate 4 False)) [0..<4]),
       map (is_stale 10 25000 ?b) [0..<4])"
    using check_stale_eq [OF was] by (simp only: APP_CTX_COUNT_def)
  moreover have "STALE 0 24 ''?'' \<in> set (stale_reports 10 25000 (replicate 4 None) ?b (replicate 4 False) 0)"
    using st by (simp add: stale_reports_def beat_age_ms_def app_step_get_def APP_CTX_COUNT_def)
  ultimately show ?thesis by force
qed

theorem stall_across_wrap_recovers_witness:
  "RECOVERED 2 \<in> set (fst (check_stale 10 5000 [] [0, 0, 0xFFFFC001, 0] [False, False, True, False]))"
  by (rule stall_across_wrap_recovers) (simp_all add: APP_CTX_COUNT_def)

theorem stacks_never_reported_witness:
  "\<not> snd (snd (fst (diag_turn 60 1 60000 [0, 0, 0, 0] [] [] True [] (replicate 4 False))))"
  by (rule stacks_never_reported) simp

end
