(* ===== verification/Status_Led.thy ===== *)
theory Status_Led
  imports Prelude
begin

text \<open>
  The status LED (\<^verbatim>\<open>src/lib/common/status_led.c\<close>): a base pattern, a temporary pattern on top of it, and
  the delayable work item that walks the segments of whichever is shown. The work item is taken
  as one step; \<open>led_due\<close> is when the work queue runs it next.
\<close>

section \<open>Patterns\<close>

datatype status_led_mode =
    STATUS_LED_CONNECTED | STATUS_LED_DISCONNECTED | STATUS_LED_PROVISIONING
  | STATUS_LED_IDENTIFY | STATUS_LED_ERASE_ARMED | STATUS_LED_OFF

record pattern =
  pat_seg :: "int list"
  pat_level :: bool
  pat_rgb :: "nat \<times> nat \<times> nat"

definition patterns :: "status_led_mode \<Rightarrow> pattern" where
  "patterns m = (case m of
     STATUS_LED_CONNECTED \<Rightarrow> \<lparr>pat_seg = [1000], pat_level = True, pat_rgb = (0, 32, 0)\<rparr>
   | STATUS_LED_DISCONNECTED \<Rightarrow> \<lparr>pat_seg = [250, 250], pat_level = False, pat_rgb = (32, 16, 0)\<rparr>
   | STATUS_LED_PROVISIONING \<Rightarrow> \<lparr>pat_seg = [100, 150, 100, 1500], pat_level = False, pat_rgb = (0, 0, 40)\<rparr>
   | STATUS_LED_IDENTIFY \<Rightarrow> \<lparr>pat_seg = [100, 100], pat_level = False, pat_rgb = (32, 32, 32)\<rparr>
   | STATUS_LED_ERASE_ARMED \<Rightarrow> \<lparr>pat_seg = [50, 50], pat_level = False, pat_rgb = (40, 0, 0)\<rparr>
   | STATUS_LED_OFF \<Rightarrow> \<lparr>pat_seg = [1000], pat_level = False, pat_rgb = (0, 0, 0)\<rparr>)"

definition pat_n :: "status_led_mode \<Rightarrow> nat" where
  "pat_n m = length (pat_seg (patterns m))"

section \<open>State and operations\<close>

record led_state =
  base_mode :: status_led_mode
  shown_mode :: status_led_mode
  flash_until :: int
  seg_idx :: nat
  led_restart :: bool
  led_ready :: bool
  led_due :: "int option"

definition led_boot :: led_state where
  "led_boot = \<lparr>base_mode = STATUS_LED_DISCONNECTED, shown_mode = STATUS_LED_DISCONNECTED, flash_until = 0,
     seg_idx = 0, led_restart = False, led_ready = False, led_due = None\<rparr>"

text \<open>What the LED is set to: the colour of the mode when on (an RGB LED), dark otherwise.\<close>

definition led_write :: "status_led_mode \<Rightarrow> bool \<Rightarrow> nat \<times> nat \<times> nat" where
  "led_write mode on = (if on then pat_rgb (patterns mode) else (0, 0, 0))"

definition led_work_fn :: "int \<Rightarrow> led_state \<Rightarrow> (status_led_mode \<times> bool) \<times> led_state" where
  "led_work_fn now s =
     (let s = (if flash_until s \<noteq> 0 \<and> now \<ge> flash_until s
               then s\<lparr>flash_until := 0, shown_mode := base_mode s, led_restart := True\<rparr> else s);
          s = (if led_restart s then s\<lparr>led_restart := False, seg_idx := 0\<rparr>
               else if pat_n (shown_mode s) > 1 then s\<lparr>seg_idx := (seg_idx s + 1) mod pat_n (shown_mode s)\<rparr>
               else s);
          p = patterns (shown_mode s);
          on = (if pat_n (shown_mode s) = 1 then pat_level p else seg_idx s mod 2 = 0);
          next_ms = (if pat_n (shown_mode s) > 1 then Some (pat_seg p ! seg_idx s)
                     else if flash_until s \<noteq> 0 then Some 50 else None)
      in ((shown_mode s, on), s\<lparr>led_due := map_option ((+) now) next_ms\<rparr>))"

definition show_locked :: "int \<Rightarrow> status_led_mode \<Rightarrow> led_state \<Rightarrow> led_state" where
  "show_locked now mode s = s\<lparr>shown_mode := mode, led_restart := True, led_due := Some now\<rparr>"

definition status_led_set_mode :: "int \<Rightarrow> status_led_mode \<Rightarrow> led_state \<Rightarrow> led_state" where
  "status_led_set_mode now mode s =
     (let s = s\<lparr>base_mode := mode\<rparr>
      in if led_ready s \<and> flash_until s = 0 \<and> mode \<noteq> shown_mode s then show_locked now mode s else s)"

definition status_led_flash :: "int \<Rightarrow> status_led_mode \<Rightarrow> nat \<Rightarrow> led_state \<Rightarrow> led_state" where
  "status_led_flash now mode ms s =
     (if led_ready s then show_locked now mode (s\<lparr>flash_until := now + int ms\<rparr>) else s)"

definition status_led_set_connected :: "int \<Rightarrow> bool \<Rightarrow> led_state \<Rightarrow> led_state" where
  "status_led_set_connected now online s =
     status_led_set_mode now (if online then STATUS_LED_CONNECTED else STATUS_LED_DISCONNECTED) s"

definition status_led_present :: "led_state \<Rightarrow> bool" where
  "status_led_present s = led_ready s"

definition status_led_init :: "int \<Rightarrow> bool \<Rightarrow> led_state \<Rightarrow> led_state" where
  "status_led_init now device_ok s =
     (if \<not> device_ok then s else let s = s\<lparr>led_ready := True\<rparr> in show_locked now (base_mode s) s)"

section \<open>Events\<close>

datatype led_event = SetMode status_led_mode | Flash status_led_mode nat | Start bool | Work

text \<open>An event and its time; the work queue runs the item only when it is due.\<close>

definition led_react :: "int \<times> led_event \<Rightarrow> led_state \<Rightarrow> led_state" where
  "led_react e s =
     (case snd e of
        SetMode m \<Rightarrow> status_led_set_mode (fst e) m s
      | Flash m ms \<Rightarrow> status_led_flash (fst e) m ms s
      | Start ok \<Rightarrow> status_led_init (fst e) ok s
      | Work \<Rightarrow> (if (\<exists>d. led_due s = Some d \<and> d \<le> fst e) then snd (led_work_fn (fst e) s) else s))"

text \<open>
  No segment is read out of range; without a temporary pattern the base pattern is the one shown; and
  whenever something still has to change, the work item is scheduled.
\<close>

definition led_inv :: "led_state \<Rightarrow> bool" where
  "led_inv s \<longleftrightarrow> (led_restart s \<or> seg_idx s < pat_n (shown_mode s))
     \<and> (led_ready s \<and> flash_until s = 0 \<longrightarrow> shown_mode s = base_mode s)
     \<and> (led_ready s \<and> (flash_until s \<noteq> 0 \<or> led_restart s \<or> pat_n (shown_mode s) > 1) \<longrightarrow> led_due s \<noteq> None)
     \<and> (\<not> led_ready s \<longrightarrow> flash_until s = 0 \<and> led_due s = None)"

lemma pat_n_pos: "0 < pat_n m"
  by (cases m) (simp_all add: pat_n_def patterns_def)

lemma work_inv:
  assumes "led_inv s" "led_ready s"
  shows "led_inv (snd (led_work_fn now s))"
  using assms pat_n_pos
  by (auto simp: led_inv_def led_work_fn_def Let_def split: option.splits)

interpretation led: guarded_system led_react "\<lambda>e. 0 < fst e" led_inv
proof
  fix e :: "int \<times> led_event" and s
  assume t: "0 < fst e" and inv: "led_inv s"
  show "led_inv (led_react e s)"
  proof (cases "snd e")
    case Work
    then show ?thesis using inv work_inv by (auto simp: led_react_def led_inv_def)
  qed (use t inv in \<open>auto simp: led_react_def led_inv_def status_led_set_mode_def status_led_flash_def
      status_led_init_def show_locked_def Let_def\<close>)
qed

section \<open>What the LED shows\<close>

definition modes_set :: "(int \<times> led_event) list \<Rightarrow> status_led_mode list" where
  "modes_set es = concat (map (\<lambda>e. case snd e of SetMode m \<Rightarrow> [m] | _ \<Rightarrow> []) es)"

lemma base_after:
  "base_mode (led.run es s) = last (base_mode s # modes_set es)"
proof (induction es rule: rev_induct)
  case Nil
  then show ?case by (simp add: led.run_def modes_set_def)
next
  case (snoc e es)
  have "base_mode (led_react e u) = (case snd e of SetMode m \<Rightarrow> m | _ \<Rightarrow> base_mode u)" for u
    by (auto simp: led_react_def status_led_set_mode_def status_led_flash_def status_led_init_def show_locked_def
        led_work_fn_def Let_def split: led_event.splits)
  then show ?case
    using snoc by (simp add: led.run_append) (auto simp: led.run_def modes_set_def split: led_event.splits)
qed



section \<open>Runs of the work item\<close>

text \<open>The work queue running the item on time, with nothing else happening: time, mode, level.\<close>

fun led_runs :: "nat \<Rightarrow> led_state \<Rightarrow> (int \<times> status_led_mode \<times> bool) list" where
  "led_runs 0 s = []"
| "led_runs (Suc k) s =
     (case led_due s of None \<Rightarrow> []
      | Some d \<Rightarrow> (let (w, s) = led_work_fn d s in (d, w) # led_runs k s))"

definition pattern_time :: "status_led_mode \<Rightarrow> nat \<Rightarrow> int" where
  "pattern_time m i = (\<Sum>j < i. pat_seg (patterns m) ! (j mod pat_n m))"

lemma led_work_step:
  assumes "\<not> (flash_until s \<noteq> 0 \<and> now \<ge> flash_until s)"
  defines "i \<equiv> if led_restart s then 0 else if pat_n (shown_mode s) > 1
      then (seg_idx s + 1) mod pat_n (shown_mode s) else seg_idx s"
  shows "led_work_fn now s = ((shown_mode s,
      if pat_n (shown_mode s) = 1 then pat_level (patterns (shown_mode s)) else i mod 2 = 0),
      s\<lparr>led_restart := False, seg_idx := i, led_due := map_option ((+) now)
        (if pat_n (shown_mode s) > 1 then Some (pat_seg (patterns (shown_mode s)) ! i)
         else if flash_until s \<noteq> 0 then Some 50 else None)\<rparr>)"
  using assms by (cases s) (auto simp: led_work_fn_def Let_def)

lemma blink_parity: "1 < pat_n m \<Longrightarrow> i mod pat_n m mod 2 = i mod 2"
proof -
  assume "1 < pat_n m"
  then have "even (pat_n m)" by (cases m) (simp_all add: pat_n_def patterns_def)
  then show ?thesis by (simp add: mod_mod_cancel)
qed

lemma blink_from:
  assumes "1 < pat_n m" "shown_mode s = m" "flash_until s = 0" "\<not> led_restart s" "seg_idx s = i mod pat_n m"
    "led_due s = Some (t + pattern_time m (Suc i))"
  shows "led_runs k s = map (\<lambda>j. (t + pattern_time m j, m, even j)) [Suc i..<Suc i + k]"
  using assms
proof (induction k arbitrary: s i)
  case (Suc k)
  let ?d = "t + pattern_time m (Suc i)"
  obtain w u where w: "led_work_fn ?d s = (w, u)" by fastforce
  have wu: "w = (m, even (Suc i))" "shown_mode u = m" "flash_until u = 0" "\<not> led_restart u"
    "seg_idx u = Suc i mod pat_n m" "led_due u = Some (t + pattern_time m (Suc (Suc i)))"
    using w Suc.prems blink_parity [OF assms(1), of "Suc i"]
    by (auto simp: led_work_step mod_Suc_eq pattern_time_def even_iff_mod_2_eq_zero)
  show ?case
    using Suc.IH [OF assms(1) wu(2-6)] Suc.prems(6) w wu(1)
    by (simp add: upt_conv_Cons [of "Suc i"] del: upt_Suc)
qed simp

text \<open>
  The pattern is the one documented: from the moment it is shown, segment after segment, alternating
  on and off beginning with on, each for its own time, and round again for as long as nothing
  else happens.
\<close>

theorem led_blinks_pattern:
  assumes "1 < pat_n m" "shown_mode s = m" "flash_until s = 0" "led_restart s" "led_due s = Some t"
  shows "led_runs k s = map (\<lambda>j. (t + pattern_time m j, m, even j)) [0..<k]"
proof (cases k)
  case (Suc n)
  obtain w u where w: "led_work_fn t s = (w, u)" by fastforce
  have wu: "w = (m, True)" "shown_mode u = m" "flash_until u = 0" "\<not> led_restart u"
    "seg_idx u = 0 mod pat_n m" "led_due u = Some (t + pattern_time m (Suc 0))"
    using w assms by (auto simp: led_work_step pattern_time_def)
  show ?thesis
    using blink_from [OF assms(1) wu(2-6), of n] assms(5) w wu(1)
    by (simp add: Suc upt_conv_Cons [of 0] pattern_time_def del: upt_Suc)
qed simp

theorem led_blinks_pattern_witness:
  "led_runs 5 (status_led_init 10 True (status_led_set_mode 5 STATUS_LED_PROVISIONING led_boot))
   = map (\<lambda>j. (10 + pattern_time STATUS_LED_PROVISIONING j, STATUS_LED_PROVISIONING, even j)) [0..<5]
   \<and> pattern_time STATUS_LED_PROVISIONING 4 = 1850"
proof
  show "led_runs 5 (status_led_init 10 True (status_led_set_mode 5 STATUS_LED_PROVISIONING led_boot))
      = map (\<lambda>j. (10 + pattern_time STATUS_LED_PROVISIONING j, STATUS_LED_PROVISIONING, even j)) [0..<5]"
    by (rule led_blinks_pattern)
      (simp_all add: pat_n_def patterns_def status_led_init_def status_led_set_mode_def show_locked_def led_boot_def)
  show "pattern_time STATUS_LED_PROVISIONING 4 = 1850"
    by (simp add: pattern_time_def pat_n_def patterns_def lessThan_nat_numeral lessThan_Suc)
qed

section \<open>A flash ends\<close>

definition first_level :: "status_led_mode \<Rightarrow> bool" where
  "first_level m = (pat_n m = 1 \<longrightarrow> pat_level (patterns m))"

lemma seg_bounds: "i < pat_n m \<Longrightarrow> 50 \<le> pat_seg (patterns m) ! i \<and> pat_seg (patterns m) ! i \<le> 1500"
  by (cases m) (auto simp: pat_n_def patterns_def less_Suc_eq numeral_eq_Suc)

lemma flash_turn:
  assumes "flash_until s \<noteq> 0" "d < flash_until s" "led_restart s \<or> seg_idx s < pat_n (shown_mode s)"
  obtains on u x where "led_work_fn d s = ((shown_mode s, on), u)" "shown_mode u = shown_mode s"
    "base_mode u = base_mode s" "flash_until u = flash_until s" "\<not> led_restart u"
    "seg_idx u < pat_n (shown_mode s)" "led_due u = Some (d + x)" "50 \<le> x" "x \<le> 1500"
proof -
  let ?m = "shown_mode s"
  obtain w u where w: "led_work_fn d s = (w, u)" by fastforce
  have off: "\<not> (flash_until s \<noteq> 0 \<and> d \<ge> flash_until s)" using assms(2) by simp
  note step = w [unfolded led_work_step [OF off]]
  have i: "seg_idx u < pat_n ?m"
    using step assms(3) pat_n_pos [of ?m] by auto
  have u: "fst w = ?m" "shown_mode u = ?m" "base_mode u = base_mode s" "flash_until u = flash_until s" "\<not> led_restart u"
    "led_due u = Some (d + (if pat_n ?m > 1 then pat_seg (patterns ?m) ! seg_idx u else 50))"
    using step assms(1) by auto
  show thesis using that [of "snd w" u] w u i seg_bounds [OF i] by (cases w) auto
qed

lemma flash_runs:
  assumes "flash_until s \<noteq> 0" "led_due s = Some d" "d \<le> flash_until s + 1500"
    "led_restart s \<or> seg_idx s < pat_n (shown_mode s)"
  shows "\<exists>pre d'. led_runs (Suc (length pre)) s = pre @ [(d', base_mode s, first_level (base_mode s))]
    \<and> (\<forall>r \<in> set pre. fst r < flash_until s \<and> fst (snd r) = shown_mode s)
    \<and> flash_until s \<le> d' \<and> d' \<le> flash_until s + 1500"
  using assms
proof (induction "nat (flash_until s - d)" arbitrary: s d rule: less_induct)
  case less
  show ?case
  proof (cases "d < flash_until s")
    case False
    then have "led_runs (Suc 0) s = [(d, base_mode s, first_level (base_mode s))]"
      using less.prems(1, 2) by (auto simp: led_work_fn_def Let_def first_level_def)
    then show ?thesis using False less.prems(3) by (intro exI [of _ "[]"] exI [of _ d]) simp
  next
    case True
    obtain on u x where u: "led_work_fn d s = ((shown_mode s, on), u)" "shown_mode u = shown_mode s"
        "base_mode u = base_mode s" "flash_until u = flash_until s" "\<not> led_restart u"
        "seg_idx u < pat_n (shown_mode s)" "led_due u = Some (d + x)" "50 \<le> x" "x \<le> 1500"
      using flash_turn [OF less.prems(1) True less.prems(4)] .
    have "nat (flash_until u - (d + x)) < nat (flash_until s - d)" using True u(4, 8) by simp
    from less.hyps [OF this] obtain pre d' where
      "led_runs (Suc (length pre)) u = pre @ [(d', base_mode u, first_level (base_mode u))]"
      "\<forall>r \<in> set pre. fst r < flash_until u \<and> fst (snd r) = shown_mode u"
      "flash_until u \<le> d'" "d' \<le> flash_until u + 1500"
      using less.prems(1) u True by auto
    then show ?thesis
      using u True less.prems(2) by (intro exI [of _ "(d, shown_mode s, on) # pre"] exI [of _ d']) auto
  qed
qed

lemma flash_ends:
  assumes "led_ready s" "0 < now"
  shows "\<exists>pre d. led_runs (Suc (length pre)) (status_led_flash now m ms s) = pre @ [(d, base_mode s, first_level (base_mode s))]
    \<and> (\<forall>r \<in> set pre. fst r < now + int ms \<and> fst (snd r) = m)
    \<and> now + int ms \<le> d \<and> d \<le> now + int ms + 1500"
  using flash_runs [of "status_led_flash now m ms s" now] assms
  by (simp add: status_led_flash_def show_locked_def)

text \<open>
  A flash ends. The temporary pattern is the only one shown until its time is up, and within 1.5
  seconds after it (the longest segment) the LED is back on the base pattern, from its first segment.
\<close>

theorem flash_returns_to_base:
  assumes "led_ready s" "0 < now"
  shows "\<exists>pre d. led_runs (Suc (length pre)) (status_led_flash now m ms s) = pre @ [(d, base_mode s, first_level (base_mode s))]
    \<and> (\<forall>r \<in> set pre. fst r < now + int ms \<and> fst (snd r) = m)
    \<and> now + int ms \<le> d \<and> d \<le> now + int ms + 1500"
  using assms by (rule flash_ends)

theorem flash_returns_to_base_witness:
  "\<exists>pre d. led_runs (Suc (length pre))
       (status_led_flash 100 STATUS_LED_IDENTIFY 1000 (status_led_init 10 True led_boot))
     = pre @ [(d, STATUS_LED_DISCONNECTED, True)] \<and> 1100 \<le> d \<and> d \<le> 2600"
  using flash_returns_to_base [of "status_led_init 10 True led_boot" 100 STATUS_LED_IDENTIFY 1000]
  by (auto simp: status_led_init_def show_locked_def led_boot_def first_level_def pat_n_def patterns_def)

end
