(* ===== verification/Ztp_Manifest.thy ===== *)
theory Ztp_Manifest
  imports Prelude
begin

text \<open>
  The text parsers of \<^verbatim>\<open>src/apps/wifi-provisioner/src/ztp_manifest.c\<close>: \<open>key=value\<close> lines, RFC 3339
  times, the enroll response and the module lines of a manifest. A slice (pointer and length)
  is the \<open>string\<close> it covers; a cursor into a buffer is the text that is left.
\<close>

definition NL :: char where "NL = CHR 0x0A"
definition CR :: char where "CR = CHR 0x0D"

section \<open>Lines\<close>

function ztp_kv_next :: "string \<Rightarrow> ((string \<times> string) \<times> string) option" where
  "ztp_kv_next cur =
     (if cur = [] then None
      else
        let line = takeWhile (\<lambda>c. c \<noteq> NL) cur;
            rest = drop (length line + 1) cur;
            stop = (if line \<noteq> [] \<and> last line = CR then butlast line else line)
        in if CHR ''='' \<notin> set stop then ztp_kv_next rest
           else Some ((takeWhile (\<lambda>c. c \<noteq> CHR ''='') stop,
                       drop 1 (dropWhile (\<lambda>c. c \<noteq> CHR ''='') stop)), rest))"
  by pat_completeness auto
termination
  by (relation "measure length") (simp_all add: Let_def)

declare ztp_kv_next.simps [simp del]

lemma kv_next_shorter: "ztp_kv_next cur = Some (kv, rest) \<Longrightarrow> length rest < length cur"
proof (induction cur rule: ztp_kv_next.induct)
  case (1 cur)
  then show ?case
    by (subst (asm) (2) ztp_kv_next.simps) (force simp: Let_def split: if_splits)
qed

text \<open>All the lines of a buffer, as a caller's \<open>while\<close> loop sees them.\<close>

function kv_all :: "string \<Rightarrow> (string \<times> string) list" where
  "kv_all cur = (case ztp_kv_next cur of None \<Rightarrow> [] | Some (kv, rest) \<Rightarrow> kv # kv_all rest)"
  by pat_completeness auto
termination
  by (relation "measure length") (auto dest: kv_next_shorter)

declare kv_all.simps [simp del]

definition next_field :: "string \<Rightarrow> (string \<times> string) option" where
  "next_field s =
     (let s = dropWhile (\<lambda>c. c = CHR '' '') s
      in if s = [] then None
         else Some (takeWhile (\<lambda>c. c \<noteq> CHR '' '') s, dropWhile (\<lambda>c. c \<noteq> CHR '' '') s))"

section \<open>Numbers and times\<close>

definition is_digit :: "char \<Rightarrow> bool" where
  "is_digit c \<longleftrightarrow> 48 \<le> (of_char c :: nat) \<and> (of_char c :: nat) \<le> 57"

definition digit_val :: "char \<Rightarrow> int" where
  "digit_val c = of_char c - 48"

definition parse_uint :: "string \<Rightarrow> int option" where
  "parse_uint s =
     (if length s = 0 \<or> length s > 9 then None
      else if \<not> list_all is_digit s then None
      else Some (foldl (\<lambda>v c. v * 10 + digit_val c) 0 s))"

definition days_from_civil :: "int \<Rightarrow> int \<Rightarrow> int \<Rightarrow> int" where
  "days_from_civil y m d =
     (let y = y - (if m \<le> 2 then 1 else 0);
          era = y div 400;
          yoe = y - era * 400;
          doy = (153 * (m + (if m > 2 then -3 else 9)) + 2) div 5 + d - 1;
          doe = yoe * 365 + yoe div 4 - yoe div 100 + doy
      in era * 146097 + doe - 719468)"

text \<open>The fields \<open>ztp_format_rfc3339\<close> computes: year, month, day.\<close>

definition civil_from_days :: "int \<Rightarrow> int \<times> int \<times> int" where
  "civil_from_days days =
     (let z = days + 719468;
          era = z div 146097;
          doe = z - era * 146097;
          yoe = (doe - doe div 1460 + doe div 36524 - doe div 146096) div 365;
          doy = doe - (365 * yoe + yoe div 4 - yoe div 100);
          mp = (5 * doy + 2) div 153;
          d = doy - (153 * mp + 2) div 5 + 1;
          m = (if mp < 10 then mp + 3 else mp - 9)
      in (yoe + era * 400 + (if m \<le> 2 then 1 else 0), m, d))"

text \<open>\<open>printf\<close> of a non-negative number with leading zeros: \<open>w\<close> digits.\<close>

fun zero_padded :: "nat \<Rightarrow> int \<Rightarrow> string" where
  "zero_padded 0 v = []"
| "zero_padded (Suc w) v = zero_padded w (v div 10) @ [char_of (48 + nat (v mod 10))]"

text \<open>
  The format string keeps four and two digits for every value in range, which is the case
  this definition states: years 0 to 9999.
\<close>

definition ztp_format_rfc3339 :: "int \<Rightarrow> string" where
  "ztp_format_rfc3339 unix_s =
     (let days = unix_s div 86400;
          secs = unix_s - days * 86400;
          (y, m, d) = civil_from_days days
      in zero_padded 4 y @ ''-'' @ zero_padded 2 m @ ''-'' @ zero_padded 2 d @ ''T'' @
         zero_padded 2 (secs div 3600) @ '':'' @ zero_padded 2 (secs div 60 mod 60) @ '':'' @
         zero_padded 2 (secs mod 60) @ ''Z'')"

definition slice :: "nat \<Rightarrow> nat \<Rightarrow> 'a list \<Rightarrow> 'a list" where
  "slice off n s = take n (drop off s)"

definition ztp_parse_rfc3339 :: "string \<Rightarrow> int option" where
  "ztp_parse_rfc3339 s =
     (let len = length s
      in if len < 20 \<or> s ! 4 \<noteq> CHR ''-'' \<or> s ! 7 \<noteq> CHR ''-'' \<or> (s ! 10 \<noteq> CHR ''T'' \<and> s ! 10 \<noteq> CHR ''t'')
            \<or> s ! 13 \<noteq> CHR '':'' \<or> s ! 16 \<noteq> CHR '':''
            \<or> (s ! (len - 1) \<noteq> CHR ''Z'' \<and> s ! (len - 1) \<noteq> CHR ''z'') then None
         else if len > 20 \<and> s ! 19 \<noteq> CHR ''.'' then None
         else
           (case (parse_uint (slice 0 4 s), parse_uint (slice 5 2 s), parse_uint (slice 8 2 s),
                  parse_uint (slice 11 2 s), parse_uint (slice 14 2 s), parse_uint (slice 17 2 s)) of
              (Some y, Some mo, Some d, Some h, Some mi, Some se) \<Rightarrow>
                if mo < 1 \<or> mo > 12 \<or> d < 1 \<or> d > 31 \<or> h > 23 \<or> mi > 59 \<or> se > 60 then None
                else Some (days_from_civil y mo d * 86400 + h * 3600 + mi * 60 + se)
            | _ \<Rightarrow> None))"

section \<open>The enroll response\<close>

datatype ztp_status =
  ZTP_STATUS_UNKNOWN | ZTP_STATUS_ACCEPTED | ZTP_STATUS_PENDING | ZTP_STATUS_REJECTED

record ztp_response =
  status :: ztp_status
  reason :: string
  retry_after :: int
  server_time :: int
  manifest :: string
  encrypted :: bool

definition response_status :: "string \<Rightarrow> ztp_status" where
  "response_status v =
     (if v = ''accepted'' then ZTP_STATUS_ACCEPTED
      else if v = ''pending'' then ZTP_STATUS_PENDING
      else if v = ''rejected'' then ZTP_STATUS_REJECTED else ZTP_STATUS_UNKNOWN)"

text \<open>The loop body of \<open>ztp_response_parse\<close>: \<open>version_ok\<close> and the response so far.\<close>

definition response_line :: "string \<times> string \<Rightarrow> bool \<times> ztp_response \<Rightarrow> bool \<times> ztp_response" where
  "response_line kv vr =
     (let (k, v) = kv; (version_ok, r) = vr
      in if k = ''protocol_version'' then (v = ''1'', r)
         else if k = ''status'' then (version_ok, r\<lparr>status := response_status v\<rparr>)
         else if k = ''reason'' then (version_ok, r\<lparr>reason := v\<rparr>)
         else if k = ''retry_after'' then
           (version_ok, case parse_uint v of Some n \<Rightarrow> r\<lparr>retry_after := n\<rparr> | None \<Rightarrow> r)
         else if k = ''server_time'' then
           (version_ok, case ztp_parse_rfc3339 v of Some t \<Rightarrow> r\<lparr>server_time := t\<rparr> | None \<Rightarrow> r)
         else if k = ''manifest.payload'' then (version_ok, r\<lparr>manifest := v\<rparr>)
         else if length k > 10 \<and> take 10 k = ''encrypted.'' then (version_ok, r\<lparr>encrypted := True\<rparr>)
         else (version_ok, r))"

definition empty_response :: ztp_response where
  "empty_response =
     \<lparr>status = ZTP_STATUS_UNKNOWN, reason = [], retry_after = 0, server_time = 0, manifest = [],
      encrypted = False\<rparr>"

definition ztp_response_parse :: "string \<Rightarrow> ztp_response option" where
  "ztp_response_parse buf =
     (let (version_ok, r) = fold response_line (kv_all buf) (False, empty_response)
      in if \<not> version_ok \<or> status r = ZTP_STATUS_UNKNOWN then None else Some r)"

section \<open>The manifest\<close>

record ztp_manifest_hdr =
  device_id :: string
  hdr_version_ok :: bool

definition ztp_manifest_header :: "string \<Rightarrow> ztp_manifest_hdr" where
  "ztp_manifest_header buf =
     fold (\<lambda>(k, v) h. if k = ''device_id'' then h\<lparr>device_id := v\<rparr>
             else if k = ''protocol_version'' then h\<lparr>hdr_version_ok := (v = ''1'')\<rparr> else h)
       (kv_all buf) \<lparr>device_id = [], hdr_version_ok = False\<rparr>"

record ztp_module =
  mtype :: string
  sealed :: bool
  payload :: string
  mformat :: string
  eph :: string
  nonce :: string
  ciphertext :: string

datatype module_result = NoMoreModules | BadModule | Module ztp_module string

text \<open>\<open>n\<close> fields in a row; \<open>None\<close> when one is missing.\<close>

fun next_fields :: "nat \<Rightarrow> string \<Rightarrow> string list option" where
  "next_fields 0 s = Some []"
| "next_fields (Suc n) s =
     (case next_field s of
        None \<Rightarrow> None
      | Some (f, s') \<Rightarrow> map_option ((#) f) (next_fields n s'))"

function ztp_manifest_next_module :: "string \<Rightarrow> module_result" where
  "ztp_manifest_next_module cur =
     (case ztp_kv_next cur of
        None \<Rightarrow> NoMoreModules
      | Some ((k, v), rest) \<Rightarrow>
          if k = ''module'' then
            (case next_fields 2 v of
               Some [t, p] \<Rightarrow> Module \<lparr>mtype = t, sealed = False, payload = p, mformat = [], eph = [],
                 nonce = [], ciphertext = []\<rparr> rest
             | _ \<Rightarrow> BadModule)
          else if k = ''module-sealed'' then
            (case next_fields 5 v of
               Some [t, f, e, n, c] \<Rightarrow> Module \<lparr>mtype = t, sealed = True, payload = [], mformat = f,
                 eph = e, nonce = n, ciphertext = c\<rparr> rest
             | _ \<Rightarrow> BadModule)
          else ztp_manifest_next_module rest)"
  by pat_completeness auto
termination
  by (relation "measure length") (auto dest: kv_next_shorter)

declare ztp_manifest_next_module.simps [simp del]

section \<open>Calendar\<close>

text \<open>First day of year \<open>y\<close> of an era, and the year that \<open>civil_from_days\<close> finds for a day.\<close>

definition year_start :: "int \<Rightarrow> int" where
  "year_start y = 365 * y + y div 4 - y div 100"

definition year_of_doe :: "int \<Rightarrow> int" where
  "year_of_doe doe = (doe - doe div 1460 + doe div 36524 - doe div 146096) div 365"

lemma div_next: "(0 :: int) < n \<Longrightarrow> x div n \<le> (x + 1) div n \<and> (x + 1) div n \<le> x div n + 1"
  using zdiv_mono1 [of x "x + 1" n] zdiv_mono1 [of "x + 1" "x + n" n] div_add_self2 [of n x] by auto

lemma div_nest_step:
  fixes x a b :: int
  assumes "0 < a" "0 < b"
  shows "(x + 1) div (a * b) \<le> x div (a * b) + ((x + 1) div a - x div a)"
proof -
  have "y div (a * b) = y div a div b" for y using assms(2) by (simp add: zdiv_zmult2_eq)
  moreover have "(x + 1) div a = x div a \<or> (x + 1) div a = x div a + 1"
    using div_next [OF assms(1), of x] by linarith
  ultimately show ?thesis using div_next [OF assms(2), of "x div a"] by auto
qed

lemma year_of_doe_mono:
  assumes "0 \<le> a" "a \<le> b"
  shows "year_of_doe a \<le> year_of_doe b"
proof -
  have gen: "x - a + b - e \<le> (x + 1) - a' + b' - e'"
    if "a' \<le> a + 1" "e' \<le> e + (b' - b)" for x a a' b b' e e' :: int
    using that by linarith
  have step: "x - x div 1460 + x div 36524 - x div 146096
      \<le> (x + 1) - (x + 1) div 1460 + (x + 1) div 36524 - (x + 1) div 146096" for x :: int
    by (rule gen) (use div_next [of 1460 x] div_nest_step [of 36524 4 x] in simp_all)
  have "x - x div 1460 + x div 36524 - x div 146096
      \<le> (x + int k) - (x + int k) div 1460 + (x + int k) div 36524 - (x + int k) div 146096"
    for x k
  proof (induction k)
    case (Suc k)
    then show ?case using step [of "x + int k"] by (simp add: algebra_simps)
  qed simp
  from this [of a "nat (b - a)"] assms show ?thesis
    by (simp add: year_of_doe_def zdiv_mono1)
qed

text \<open>Both ends of each of the 400 years, checked one by one.\<close>

lemma year_ends:
  "\<forall>y \<in> set [0..399]. year_of_doe (year_start y) = y
    \<and> year_of_doe (year_start (y + 1) - (if y = 399 then 0 else 1)) = y"
  by code_simp

lemma year_of_doe_start:
  assumes "0 \<le> y" "y < 400" "year_start y \<le> doe"
    and "doe < year_start (y + 1) \<or> y = 399 \<and> doe \<le> 146096"
  shows "year_of_doe doe = y"
proof -
  have "y \<in> set [0..399]" using assms(1,2) by simp
  with year_ends have ends: "year_of_doe (year_start y) = y"
    "year_of_doe (year_start (y + 1) - (if y = 399 then 0 else 1)) = y" by blast+
  have "0 \<le> year_start y" using assms(1) by (simp add: year_start_def)
  moreover have "doe \<le> year_start (y + 1) - (if y = 399 then 0 else 1)"
    using assms(4) by (auto simp: year_start_def)
  ultimately show ?thesis
    using year_of_doe_mono [of "year_start y" doe] assms(3) ends
      year_of_doe_mono [of doe "year_start (y + 1) - (if y = 399 then 0 else 1)"] by linarith
qed

lemma year_start_step: "year_start y + 365 \<le> year_start (y + 1)" "year_start (y + 1) \<le> year_start y + 366"
proof -
  have "(y + 1) div 100 \<le> y div 100 + ((y + 1) div 4 - y div 4)"
    using div_nest_step [of 4 25 y] by simp
  moreover have "y div 100 \<le> (y + 1) div 100" "(y + 1) div 4 \<le> y div 4 + 1"
    using div_next [of 4 y] div_next [of 100 y] by simp_all
  moreover have "365 * y + q - c + 365 \<le> 365 * (y + 1) + q' - c'" "365 * (y + 1) + q' - c' \<le> 365 * y + q - c + 366"
    if "c' \<le> c + (q' - q)" "c \<le> c'" "q' \<le> q + 1" for q q' c c' :: int
    using that by (simp_all add: algebra_simps)
  ultimately show "year_start y + 365 \<le> year_start (y + 1)" "year_start (y + 1) \<le> year_start y + 366"
    unfolding year_start_def by blast+
qed

text \<open>Every day of an era lies in exactly one of its years.\<close>

lemma doe_in_year:
  assumes "0 \<le> doe" "doe \<le> 146096"
  shows "\<exists>y. 0 \<le> y \<and> y < 400 \<and> year_start y \<le> doe
    \<and> (doe < year_start (y + 1) \<or> y = 399 \<and> doe \<le> 146096)"
proof -
  have "doe < year_start (int n) \<Longrightarrow> \<exists>y. 0 \<le> y \<and> y < int n \<and> year_start y \<le> doe \<and> doe < year_start (y + 1)"
    for n
  proof (induction n)
    case 0
    then show ?case using assms(1) by (simp add: year_start_def)
  next
    case (Suc n)
    show ?case
    proof (cases "doe < year_start (int n)")
      case True
      then show ?thesis using Suc.IH by force
    next
      case False
      then show ?thesis using Suc.prems by (intro exI [of _ "int n"]) (simp add: algebra_simps)
    qed
  qed
  from this [of 400] show ?thesis
  proof (cases "doe < year_start 400")
    case True
    then show ?thesis using \<open>doe < year_start (int 400) \<Longrightarrow> _\<close> by force
  next
    case False
    then have "doe = 146096" using assms(2) by (simp add: year_start_def)
    then show ?thesis by (intro exI [of _ 399]) (simp add: year_start_def)
  qed
qed

text \<open>Month and day within a year that starts in March.\<close>

definition month_of_doy :: "int \<Rightarrow> int" where
  "month_of_doy doy = (5 * doy + 2) div 153"

lemma month_day_bounds:
  assumes "0 \<le> doy" "doy \<le> 365"
  shows "0 \<le> month_of_doy doy" "month_of_doy doy \<le> 11"
    and "1 \<le> doy - (153 * month_of_doy doy + 2) div 5 + 1"
    and "doy - (153 * month_of_doy doy + 2) div 5 + 1 \<le> 31"
proof -
  have "\<forall>d \<in> set [0..365]. 0 \<le> month_of_doy d \<and> month_of_doy d \<le> 11
      \<and> 1 \<le> d - (153 * month_of_doy d + 2) div 5 + 1 \<and> d - (153 * month_of_doy d + 2) div 5 + 1 \<le> 31"
    by code_simp
  moreover have "doy \<in> set [0..365]" using assms by simp
  ultimately show "0 \<le> month_of_doy doy" "month_of_doy doy \<le> 11"
    "1 \<le> doy - (153 * month_of_doy doy + 2) div 5 + 1"
    "doy - (153 * month_of_doy doy + 2) div 5 + 1 \<le> 31" by blast+
qed

lemma civil_roundtrip:
  assumes "civil_from_days days = (y, m, d)"
  shows "days_from_civil y m d = days" "1 \<le> m" "m \<le> 12" "1 \<le> d" "d \<le> 31"
proof -
  define z where "z = days + 719468"
  define era where "era = z div 146097"
  define doe where "doe = z - era * 146097"
  define yoe where "yoe = year_of_doe doe"
  define doy where "doy = doe - year_start yoe"
  define mp where "mp = month_of_doy doy"
  have doe: "0 \<le> doe" "doe \<le> 146096" unfolding doe_def era_def by presburger+
  obtain yy where yy: "0 \<le> yy" "yy < 400" "year_start yy \<le> doe"
    "doe < year_start (yy + 1) \<or> yy = 399 \<and> doe \<le> 146096"
    using doe_in_year [OF doe] by blast
  then have yoe: "yoe = yy" unfolding yoe_def by (rule year_of_doe_start)
  have doy: "0 \<le> doy" "doy \<le> 365"
    using yy(3,4) year_start_step(2) [of yy] unfolding doy_def yoe by (auto simp: year_start_def)
  note md = month_day_bounds [OF doy, folded mp_def]
  have "civil_from_days days = (yoe + era * 400 + (if (if mp < 10 then mp + 3 else mp - 9) \<le> 2 then 1 else 0),
      (if mp < 10 then mp + 3 else mp - 9), doy - (153 * mp + 2) div 5 + 1)"
    by (simp only: civil_from_days_def Let_def z_def era_def doe_def yoe_def doy_def mp_def
        year_of_doe_def year_start_def month_of_doy_def)
  then have ymd: "y = yoe + era * 400 + (if (if mp < 10 then mp + 3 else mp - 9) \<le> 2 then 1 else 0)
      \<and> m = (if mp < 10 then mp + 3 else mp - 9) \<and> d = doy - (153 * mp + 2) div 5 + 1"
    unfolding assms prod.inject .
  have mp: "m = (if mp < 10 then mp + 3 else mp - 9)" by (rule conjunct1 [OF conjunct2 [OF ymd]])
  note civ = conjunct1 [OF ymd, folded mp] mp conjunct2 [OF conjunct2 [OF ymd]]
  show m: "1 \<le> m" "m \<le> 12" "1 \<le> d" "d \<le> 31" using md civ(2,3) by (auto split: if_splits)
  have y: "y - (if m \<le> 2 then 1 else 0) = yoe + era * 400" using civ(1) by simp
  have e: "(yoe + era * 400) div 400 = era" using yy(1,2) yoe by simp
  have mm: "m + (if m > 2 then -3 else 9) = mp" using md(1,2) civ(2) by auto
  have "days_from_civil y m d = era * 146097 + (year_start yoe + ((153 * mp + 2) div 5 + d - 1)) - 719468"
    unfolding days_from_civil_def Let_def y e mm by (simp add: year_start_def)
  also have "\<dots> = days" unfolding civ(3) by (simp add: doy_def doe_def z_def)
  finally show "days_from_civil y m d = days" .
qed

section \<open>Times as text\<close>

lemma length_zero_padded [simp]: "length (zero_padded w v) = w"
  by (induction w v rule: zero_padded.induct) simp_all

lemma digit_char:
  "is_digit (char_of (48 + nat (v mod 10)))" "digit_val (char_of (48 + nat (v mod 10))) = v mod 10"
proof -
  have "\<forall>k \<in> set [0..9]. is_digit (char_of (48 + nat k)) \<and> digit_val (char_of (48 + nat k)) = k"
    by code_simp
  moreover have "v mod 10 \<in> set [0..9]" by simp
  ultimately show "is_digit (char_of (48 + nat (v mod 10)))"
    "digit_val (char_of (48 + nat (v mod 10))) = v mod 10" by blast+
qed

lemma dec_char: "is_digit (char_of (48 + n mod 10))" "digit_val (char_of (48 + n mod 10)) = int (n mod 10)"
  for n :: nat
  using digit_char [of "int n"] by (simp_all add: nat_mod_distrib zmod_int)

lemma dec_digits: "list_all is_digit (dec n)"
proof (induction n rule: dec.induct)
  case (1 n)
  then show ?case using dec_char(1) [of n] by (subst dec.simps) auto
qed

lemma dec_value: "foldl (\<lambda>a c. a * 10 + digit_val c) 0 (dec n) = int n"
proof (induction n rule: dec.induct)
  case (1 n)
  have "int (n div 10) * 10 + int (n mod 10) = int n"
    by (metis div_mult_mod_eq of_nat_add of_nat_mult of_nat_numeral)
  with 1 show ?case using dec_char(2) [of n] by (subst dec.simps) auto
qed

lemma zero_padded_digits: "0 \<le> v \<Longrightarrow> list_all is_digit (zero_padded w v)"
  by (induction w v rule: zero_padded.induct) (simp_all add: digit_char pos_imp_zdiv_nonneg_iff)

lemma zero_padded_value:
  "0 \<le> v \<Longrightarrow> v < 10 ^ w \<Longrightarrow> foldl (\<lambda>a c. a * 10 + digit_val c) 0 (zero_padded w v) = v"
proof (induction w v rule: zero_padded.induct)
  case (2 w v)
  then have "v div 10 < 10 ^ w" "0 \<le> v div 10" by (simp_all add: pos_imp_zdiv_nonneg_iff)
  with 2 show ?case by (simp add: digit_char)
qed simp

lemma parse_uint_padded:
  "0 \<le> v \<Longrightarrow> v < 10 ^ w \<Longrightarrow> 0 < w \<Longrightarrow> w \<le> 9 \<Longrightarrow> parse_uint (zero_padded w v) = Some v"
  by (simp add: parse_uint_def zero_padded_digits zero_padded_value)

lemma rfc3339_slices:
  assumes "length a = 4" "length b = 2" "length c = 2" "length d = 2" "length e = 2" "length f = 2"
    and "s = a @ ''-'' @ b @ ''-'' @ c @ ''T'' @ d @ '':'' @ e @ '':'' @ f @ ''Z''"
  shows "length s = 20" "s ! 4 = CHR ''-''" "s ! 7 = CHR ''-''" "s ! 10 = CHR ''T''" "s ! 13 = CHR '':''"
    "s ! 16 = CHR '':''" "s ! 19 = CHR ''Z''" "slice 0 4 s = a" "slice 5 2 s = b" "slice 8 2 s = c"
    "slice 11 2 s = d" "slice 14 2 s = e" "slice 17 2 s = f"
proof -
  have two: "\<exists>x y. xs = [x, y]" if "length xs = 2" for xs :: string
    using that by (cases xs; cases "tl xs") auto
  have four: "\<exists>w x y z. xs = [w, x, y, z]" if len: "length xs = 4" for xs :: string
  proof -
    have "length (take 2 xs) = 2" "length (drop 2 xs) = 2" using len by simp_all
    then obtain w x y z where "take 2 xs = [w, x]" "drop 2 xs = [y, z]" using two by metis
    then have "xs = [w, x] @ [y, z]" by (metis append_take_drop_id)
    then show ?thesis by simp
  qed
  obtain a0 a1 a2 a3 where a: "a = [a0, a1, a2, a3]" using four [OF assms(1)] by blast
  obtain b0 b1 where b: "b = [b0, b1]" using two [OF assms(2)] by blast
  obtain c0 c1 where c: "c = [c0, c1]" using two [OF assms(3)] by blast
  obtain d0 d1 where d: "d = [d0, d1]" using two [OF assms(4)] by blast
  obtain e0 e1 where e: "e = [e0, e1]" using two [OF assms(5)] by blast
  obtain f0 f1 where f: "f = [f0, f1]" using two [OF assms(6)] by blast
  show "length s = 20" "s ! 4 = CHR ''-''" "s ! 7 = CHR ''-''" "s ! 10 = CHR ''T''"
    "s ! 13 = CHR '':''" "s ! 16 = CHR '':''" "s ! 19 = CHR ''Z''" "slice 0 4 s = a" "slice 5 2 s = b"
    "slice 8 2 s = c" "slice 11 2 s = d" "slice 14 2 s = e" "slice 17 2 s = f"
    unfolding assms(7) slice_def a b c d e f by simp_all
qed

lemma format_parse_rfc3339:
  assumes "0 \<le> fst (civil_from_days (t div 86400))" "fst (civil_from_days (t div 86400)) \<le> 9999"
  shows "ztp_parse_rfc3339 (ztp_format_rfc3339 t) = Some t \<and> length (ztp_format_rfc3339 t) = 20"
proof -
  obtain y m d where civ: "civil_from_days (t div 86400) = (y, m, d)" by (metis prod_cases3)
  note c = civil_roundtrip [OF civ]
  define secs where "secs = t - t div 86400 * 86400"
  have secs: "0 \<le> secs" "secs < 86400" unfolding secs_def by presburger+
  define h mi se where "h = secs div 3600" and "mi = secs div 60 mod 60" and "se = secs mod 60"
  have hms: "0 \<le> h" "h \<le> 23" "0 \<le> mi" "mi \<le> 59" "0 \<le> se" "se \<le> 59" "h * 3600 + mi * 60 + se = secs"
  proof -
    have q: "h = secs div 60 div 60" unfolding h_def by (simp add: zdiv_zmult2_eq [of 60 secs 60, symmetric])
    have "secs div 60 * 60 + se = secs" unfolding se_def by (rule div_mult_mod_eq)
    moreover have "h * 60 + mi = secs div 60" unfolding q mi_def by (rule div_mult_mod_eq)
    ultimately show "h * 3600 + mi * 60 + se = secs" by linarith
    show "0 \<le> mi" "mi \<le> 59" "0 \<le> se" "se \<le> 59"
      unfolding mi_def se_def using pos_mod_bound [of 60 secs] pos_mod_bound [of 60 "secs div 60"] by simp_all
    show "0 \<le> h" unfolding h_def using secs(1) by (simp add: pos_imp_zdiv_nonneg_iff)
    show "h \<le> 23" unfolding h_def using secs(2) zdiv_mono1 [of secs 86399 3600] by simp
  qed
  have s: "ztp_format_rfc3339 t = zero_padded 4 y @ ''-'' @ zero_padded 2 m @ ''-'' @ zero_padded 2 d @ ''T'' @
      zero_padded 2 h @ '':'' @ zero_padded 2 mi @ '':'' @ zero_padded 2 se @ ''Z''"
    by (simp add: ztp_format_rfc3339_def Let_def civ h_def mi_def se_def secs_def)
  note sl = rfc3339_slices [OF length_zero_padded length_zero_padded length_zero_padded length_zero_padded
      length_zero_padded length_zero_padded s]
  have y: "0 \<le> y" "y \<le> 9999" using assms by (simp_all add: civ)
  have "parse_uint (zero_padded 4 y) = Some y" "parse_uint (zero_padded 2 m) = Some m"
    "parse_uint (zero_padded 2 d) = Some d" "parse_uint (zero_padded 2 h) = Some h"
    "parse_uint (zero_padded 2 mi) = Some mi" "parse_uint (zero_padded 2 se) = Some se"
    using y c hms by (simp_all add: parse_uint_padded)
  moreover have "days_from_civil y m d * 86400 + h * 3600 + mi * 60 + se = t"
    using c(1) hms(7) by (simp add: secs_def)
  ultimately show ?thesis
    unfolding ztp_parse_rfc3339_def Let_def using sl c hms by simp
qed

text \<open>
  C38. Times are written and read consistently: the text the device sends for a time of a
  four-digit year is 20 characters long and is read back as exactly that time, leap years and
  centuries included.
\<close>

theorem rfc3339_roundtrip:
  assumes "0 \<le> fst (civil_from_days (t div 86400))" "fst (civil_from_days (t div 86400)) \<le> 9999"
  shows "ztp_parse_rfc3339 (ztp_format_rfc3339 t) = Some t \<and> length (ztp_format_rfc3339 t) = 20"
  using assms by (rule format_parse_rfc3339)

theorem rfc3339_roundtrip_witness:
  "ztp_parse_rfc3339 (ztp_format_rfc3339 951827696) = Some 951827696"
proof -
  have "civil_from_days (951827696 div 86400) = (2000, 2, 29)" by code_simp
  then show ?thesis using rfc3339_roundtrip [of 951827696] by simp
qed

section \<open>Lines round trip\<close>

text \<open>A line as a server writes it, with a bare or a CRLF line end.\<close>

definition line_ok :: "string \<times> string \<Rightarrow> bool" where
  "line_ok kv \<longleftrightarrow> CHR ''='' \<notin> set (fst kv) \<and> NL \<notin> set (fst kv) \<and> NL \<notin> set (snd kv)
     \<and> (snd kv = [] \<or> last (snd kv) \<noteq> CR)"

definition kv_line :: "bool \<Rightarrow> string \<times> string \<Rightarrow> string" where
  "kv_line crlf kv = fst kv @ ''='' @ snd kv @ (if crlf then [CR, NL] else [NL])"

lemma kv_next_line:
  assumes "line_ok (k, v)"
  shows "ztp_kv_next (kv_line crlf (k, v) @ rest) = Some ((k, v), rest)"
proof -
  let ?body = "k @ ''='' @ v @ (if crlf then [CR] else [])"
  have neq: "CR \<noteq> NL" "CHR ''='' \<noteq> NL" "CHR ''='' \<noteq> CR" by (simp_all add: CR_def NL_def)
  have line: "takeWhile (\<lambda>c. c \<noteq> NL) (kv_line crlf (k, v) @ rest) = ?body"
    using assms neq by (auto simp: kv_line_def line_ok_def takeWhile_append)
  have rest: "drop (length ?body + 1) (kv_line crlf (k, v) @ rest) = rest"
    by (simp add: kv_line_def)
  have stop: "(if ?body \<noteq> [] \<and> last ?body = CR then butlast ?body else ?body) = k @ ''='' @ v"
    using assms neq by (auto simp: line_ok_def butlast_append)
  have split: "takeWhile (\<lambda>c. c \<noteq> CHR ''='') (k @ ''='' @ v) = k"
    "drop 1 (dropWhile (\<lambda>c. c \<noteq> CHR ''='') (k @ ''='' @ v)) = v"
    using assms by (auto simp: line_ok_def takeWhile_append dropWhile_append)
  have "kv_line crlf (k, v) @ rest \<noteq> []" by (simp add: kv_line_def)
  then show ?thesis
    by (subst ztp_kv_next.simps) (simp only: Let_def line rest stop split if_False, simp)
qed

lemma kv_all_lines:
  "\<forall>kv \<in> set kvs. line_ok kv \<Longrightarrow> kv_all (concat (map (kv_line crlf) kvs)) = kvs"
proof (induction kvs)
  case Nil
  then show ?case by (simp add: kv_all.simps ztp_kv_next.simps)
next
  case (Cons kv kvs)
  then show ?case by (cases kv) (subst kv_all.simps, simp add: kv_next_line)
qed

section \<open>Responses\<close>

definition known_key :: "string \<Rightarrow> bool" where
  "known_key k \<longleftrightarrow>
     k \<in> {''protocol_version'', ''status'', ''reason'', ''retry_after'', ''server_time'', ''manifest.payload''}
     \<or> (length k > 10 \<and> take 10 k = ''encrypted.'')"

lemma response_line_unknown: "\<not> known_key (fst kv) \<Longrightarrow> response_line kv vr = vr"
  by (cases kv; cases vr) (auto simp: response_line_def known_key_def)

lemma response_line_frame:
  "fst (response_line (k, v) vr) = (if k = ''protocol_version'' then v = ''1'' else fst vr)"
  "status (snd (response_line (k, v) vr)) = (if k = ''status'' then response_status v else status (snd vr))"
  by (cases vr; simp add: response_line_def split: option.split)+

lemma fold_response_known:
  "fold response_line kvs vr = fold response_line (filter (\<lambda>kv. known_key (fst kv)) kvs) vr"
  by (induction kvs arbitrary: vr) (simp_all add: response_line_unknown)

lemma response_fields:
  "fst (fold response_line kvs (False, empty_response)) \<longleftrightarrow> map_of (rev kvs) ''protocol_version'' = Some ''1''"
  "status (snd (fold response_line kvs (False, empty_response))) =
     (case map_of (rev kvs) ''status'' of None \<Rightarrow> ZTP_STATUS_UNKNOWN | Some v \<Rightarrow> response_status v)"
proof (induction kvs rule: rev_induct)
  case Nil
  { case 1 then show ?case by simp }
  { case 2 then show ?case by (simp add: empty_response_def) }
next
  case (snoc kv kvs)
  obtain k v where kv: "kv = (k, v)" by (cases kv)
  { case 1 then show ?case using snoc.IH by (simp add: kv response_line_frame) }
  { case 2 then show ?case using snoc.IH by (simp add: kv response_line_frame) }
qed

text \<open>
  A response is taken only when its last protocol version line says 1 and its last status
  line is one of the three defined ones; lines with other keys, in any number and place, and
  the choice of line ends, do not change the result.
\<close>

theorem response_parse_robust:
  assumes "\<forall>kv \<in> set kvs. line_ok kv"
  shows "ztp_response_parse (concat (map (kv_line crlf) kvs))
      = ztp_response_parse (concat (map (kv_line crlf') (filter (\<lambda>kv. known_key (fst kv)) kvs)))
    \<and> (ztp_response_parse (concat (map (kv_line crlf) kvs)) \<noteq> None \<longleftrightarrow>
        map_of (rev kvs) ''protocol_version'' = Some ''1''
        \<and> (\<exists>st \<in> {''accepted'', ''pending'', ''rejected''}. map_of (rev kvs) ''status'' = Some st))"
proof -
  have all: "kv_all (concat (map (kv_line crlf) kvs)) = kvs"
    "kv_all (concat (map (kv_line crlf') (filter (\<lambda>kv. known_key (fst kv)) kvs)))
      = filter (\<lambda>kv. known_key (fst kv)) kvs"
    using assms by (simp_all add: kv_all_lines)
  have st: "response_status v \<noteq> ZTP_STATUS_UNKNOWN \<longleftrightarrow> v \<in> {''accepted'', ''pending'', ''rejected''}" for v
    by (auto simp: response_status_def)
  have "ztp_response_parse (concat (map (kv_line crlf) kvs)) \<noteq> None \<longleftrightarrow>
      fst (fold response_line kvs (False, empty_response))
      \<and> status (snd (fold response_line kvs (False, empty_response))) \<noteq> ZTP_STATUS_UNKNOWN"
    by (simp add: ztp_response_parse_def all Let_def split: prod.split)
  then have "ztp_response_parse (concat (map (kv_line crlf) kvs)) \<noteq> None \<longleftrightarrow>
      map_of (rev kvs) ''protocol_version'' = Some ''1''
      \<and> (\<exists>v. map_of (rev kvs) ''status'' = Some v \<and> response_status v \<noteq> ZTP_STATUS_UNKNOWN)"
    unfolding response_fields by (auto split: option.splits)
  moreover have "ztp_response_parse (concat (map (kv_line crlf) kvs))
      = ztp_response_parse (concat (map (kv_line crlf') (filter (\<lambda>kv. known_key (fst kv)) kvs)))"
    unfolding ztp_response_parse_def all using fold_response_known [of kvs] by simp
  ultimately show ?thesis unfolding st by auto
qed

theorem response_parse_robust_witness:
  "ztp_response_parse (concat (map (kv_line True)
     [(''protocol_version'', ''1''), (''bundle.x'', ''y''), (''status'', ''pending'')])) \<noteq> None"
  using response_parse_robust
    [of "[(''protocol_version'', ''1''), (''bundle.x'', ''y''), (''status'', ''pending'')]" True False,
      THEN conjunct2]
  by (simp add: line_ok_def NL_def CR_def del: not_None_eq)

end
