(* ===== verification/Identify.thy ===== *)
theory Identify
  imports Status_Led Ztp_Manifest
begin

text \<open>
  Finding a device (\<^verbatim>\<open>src/lib/common/identify.c\<close>): the button gesture, which flashes the LED and sends
  a cloud event, and the shell command \<open>tedge identify [seconds]\<close>. The cloud client is a parameter.
\<close>

section \<open>The gesture\<close>

definition GESTURE_ACK_MS :: nat where "GESTURE_ACK_MS = 1000"
definition EVENT_MIN_GAP_MS :: int where "EVENT_MIN_GAP_MS = 5000"
definition IDENTIFY_MAX_S :: int where "IDENTIFY_MAX_S = 300"

record identify_state =
  id_led :: led_state
  last_event :: int
  id_sent :: bool

text \<open>The event text handed to the client, if any; \<open>publish\<close> is what the client answers.\<close>

definition app_identify_gesture ::
  "string \<Rightarrow> (string \<Rightarrow> rc) \<Rightarrow> int \<Rightarrow> identify_state \<Rightarrow> string option \<times> identify_state" where
  "app_identify_gesture hostname publish now s =
     (let s = s\<lparr>id_led := status_led_flash now STATUS_LED_IDENTIFY GESTURE_ACK_MS (id_led s)\<rparr>
      in if id_sent s \<and> now - last_event s < EVENT_MIN_GAP_MS then (None, s)
         else
           let t = take 95 (''Identify button pressed on '' @ hostname)
           in if publish t \<noteq> OK then (Some t, s)
              else (Some t, s\<lparr>id_sent := True, last_event := now\<rparr>))"

section \<open>The command\<close>

definition white :: "char \<Rightarrow> bool" where
  "white c \<longleftrightarrow> c = CHR '' '' \<or> (9 \<le> (of_char c :: nat) \<and> (of_char c :: nat) \<le> 13)"

text \<open>
  \<open>strtol\<close> in base 10: the value and what is left, the whole text when it holds no number. The range of
  \<open>long\<close> does not matter here, since the command cuts the value at 300.
\<close>

definition strtol10 :: "string \<Rightarrow> int \<times> string" where
  "strtol10 arg =
     (let s = dropWhile white arg;
          (neg, s) = (case s of c # r \<Rightarrow> if c = CHR ''-'' then (True, r) else if c = CHR ''+'' then (False, r) else (False, s)
                              | [] \<Rightarrow> (False, s));
          ds = takeWhile is_digit s;
          v = foldl (\<lambda>a c. a * 10 + digit_val c) 0 ds
      in if ds = [] then (0, arg) else (if neg then - v else v, dropWhile is_digit s))"

text \<open>The seconds it blinks for and the LED, or the error; \<open>argv\<close> are the arguments behind the name.\<close>

definition cmd_identify :: "int \<Rightarrow> int \<Rightarrow> string list \<Rightarrow> led_state \<Rightarrow> (errno + int) \<times> led_state" where
  "cmd_identify default_s now argv led =
     (let parsed = (case argv of
            [] \<Rightarrow> Some default_s
          | a # _ \<Rightarrow> (let (secs, rest) = strtol10 a
                     in if rest = a \<or> rest \<noteq> [] \<or> secs \<le> 0 then None else Some (min secs IDENTIFY_MAX_S)))
      in case parsed of
           None \<Rightarrow> (Inl EINVAL, led)
         | Some secs \<Rightarrow>
             if \<not> status_led_present led then (Inl ENODEV, led)
             else (Inr secs, status_led_flash now STATUS_LED_IDENTIFY (nat secs * 1000) led))"

section \<open>The command takes every number of seconds\<close>

lemma strtol10_dec: "strtol10 (dec n) = (int n, [])"
proof -
  have "dec n \<noteq> []" by (subst dec.simps) simp
  then obtain c r where c: "dec n = c # r" "is_digit c" using dec_digits [of n] by (cases "dec n") auto
  have "takeWhile is_digit (dec n) = dec n" "dropWhile is_digit (dec n) = []"
    using dec_digits [of n] by (auto simp: takeWhile_eq_all_conv list_all_iff)
  moreover have "\<not> white c" "c \<noteq> CHR ''-''" "c \<noteq> CHR ''+''" using c(2) by (auto simp: is_digit_def white_def)
  ultimately show ?thesis using dec_value [of n] c(1) by (simp add: strtol10_def Let_def)
qed

text \<open>
  On a board with a LED the command blinks for the seconds it is given, at most five minutes, and the
  LED is back on what it showed at most 1.5 seconds after them.
\<close>

theorem identify_command:
  assumes "led_ready led" "0 < n" "0 < now"
  shows "fst (cmd_identify d now [dec n] led) = Inr (min (int n) 300)
    \<and> (\<exists>pre t. led_runs (Suc (length pre)) (snd (cmd_identify d now [dec n] led))
          = pre @ [(t, base_mode led, first_level (base_mode led))]
        \<and> (\<forall>r \<in> set pre. fst (snd r) = STATUS_LED_IDENTIFY)
        \<and> now + min (int n) 300 * 1000 \<le> t \<and> t \<le> now + min (int n) 300 * 1000 + 1500)"
proof -
  have "dec n \<noteq> []" by (subst dec.simps) simp
  then have cmd: "cmd_identify d now [dec n] led = (Inr (min (int n) 300),
      status_led_flash now STATUS_LED_IDENTIFY (nat (min (int n) 300) * 1000) led)"
    using assms(1, 2) by (simp add: cmd_identify_def strtol10_dec Let_def status_led_present_def IDENTIFY_MAX_S_def)
  have ms: "int (nat (min (int n) 300) * 1000) = min (int n) 300 * 1000" by simp
  show ?thesis
    using flash_ends [OF assms(1, 3), of STATUS_LED_IDENTIFY "nat (min (int n) 300) * 1000"]
    unfolding cmd fst_conv snd_conv ms by blast
qed

theorem identify_command_witness:
  "fst (cmd_identify 60 100 [dec 400] (status_led_init 10 True led_boot)) = Inr 300"
  using identify_command [of "status_led_init 10 True led_boot" 400 100 60]
  by (simp add: status_led_init_def show_locked_def led_boot_def)

section \<open>Events are not repeated\<close>

text \<open>Gestures at the given times; the times at which the client took an event.\<close>

fun gestures :: "string \<Rightarrow> (string \<Rightarrow> rc) \<Rightarrow> int list \<Rightarrow> identify_state \<Rightarrow> int list" where
  "gestures h publish [] s = []"
| "gestures h publish (now # ts) s =
     (let (t, s) = app_identify_gesture h publish now s
      in (case t of Some x \<Rightarrow> if publish x = OK then [now] else [] | None \<Rightarrow> []) @ gestures h publish ts s)"

lemma gestures_spaced_aux:
  "sorted_wrt (\<lambda>a b. a + 5000 \<le> b) ((if id_sent s then [last_event s] else []) @ gestures h publish ts s)"
proof (induction ts arbitrary: s)
  case (Cons now ts)
  show ?case
    using Cons.IH [of "snd (app_identify_gesture h publish now s)"]
    by (auto simp: app_identify_gesture_def Let_def EVENT_MIN_GAP_MS_def split: if_splits)
qed simp

text \<open>However often the pattern is pressed, events reach the cloud client at least five seconds apart.\<close>

theorem identify_events_spaced:
  "sorted_wrt (\<lambda>a b. a + 5000 \<le> b) (gestures h publish ts s)"
  using gestures_spaced_aux [of s h publish ts] by (simp add: sorted_wrt_append)

end
