(* ===== verification/Softap.thy ===== *)
theory Softap
  imports Net Boot Ztp_Manifest
begin

text \<open>
  The SoftAP front end of the provisioner (\<^verbatim>\<open>src/apps/wifi-provisioner/src/softap.c\<close>): the HTTP server
  with its form, the test of the submitted credentials and the hand-over to the application. Sockets,
  the access point and the test of a network are inputs: \<open>recv\<close> results come in as a list of pieces,
  what is sent goes out as a list of strings. A buffer is the text it holds; the C string in it ends
  at the first NUL.
\<close>

section \<open>C strings\<close>

definition c_str :: "string \<Rightarrow> string" where
  "c_str s = takeWhile (\<lambda>c. c \<noteq> CHR 0x00) s"

definition is_space :: "char \<Rightarrow> bool" where
  "is_space c \<longleftrightarrow> c = CHR '' '' \<or> (9 \<le> (of_char c :: nat) \<and> (of_char c :: nat) \<le> 13)"

text \<open>\<open>strstr\<close>: where the pattern first occurs.\<close>

fun find_sub :: "string \<Rightarrow> string \<Rightarrow> nat option" where
  "find_sub pat [] = (if pat = [] then Some 0 else None)"
| "find_sub pat (c # s) =
     (if take (length pat) (c # s) = pat then Some 0 else map_option Suc (find_sub pat s))"

definition atoi :: "string \<Rightarrow> int" where
  "atoi s =
     (let s = dropWhile is_space s;
          (neg, s) = (case s of c # r \<Rightarrow> if c = CHR ''-'' then (True, r) else if c = CHR ''+'' then (False, r) else (False, s)
                              | [] \<Rightarrow> (False, s));
          v = foldl (\<lambda>a c. a * 10 + digit_val c) 0 (takeWhile is_digit s)
      in if neg then - v else v)"

text \<open>\<open>%7s\<close>, \<open>%63s\<close> of \<open>sscanf\<close>: leading white space, then at most \<open>w\<close> other characters.\<close>

definition scan_word :: "nat \<Rightarrow> string \<Rightarrow> string \<times> string" where
  "scan_word w s =
     (let s = dropWhile is_space s; t = take w (takeWhile (\<lambda>c. \<not> is_space c) s)
      in (t, drop (length t) s))"

section \<open>Form fields\<close>

definition hex_val :: "char \<Rightarrow> nat option" where
  "hex_val c =
     (let k = of_char c :: nat
      in if 48 \<le> k \<and> k \<le> 57 then Some (k - 48)
         else if 65 \<le> k \<and> k \<le> 70 then Some (k - 55)
         else if 97 \<le> k \<and> k \<le> 102 then Some (k - 87)
         else None)"

text \<open>\<open>strtol\<close> in base 16 of a string of exactly two characters.\<close>

definition strtol16 :: "char \<Rightarrow> char \<Rightarrow> int" where
  "strtol16 a b =
     (case (hex_val a, hex_val b) of
        (Some x, Some y) \<Rightarrow> int (16 * x + y)
      | (Some x, None) \<Rightarrow> int x
      | (None, Some y) \<Rightarrow> if is_space a \<or> a = CHR ''+'' then int y else if a = CHR ''-'' then - int y else 0
      | (None, None) \<Rightarrow> 0)"

text \<open>The inner loop: at most \<open>room\<close> characters of a value are decoded.\<close>

fun form_decode :: "nat \<Rightarrow> string \<Rightarrow> string" where
  "form_decode 0 p = []"
| "form_decode (Suc room) [] = []"
| "form_decode (Suc room) (c # p) =
     (if c = CHR ''&'' then []
      else if c = CHR ''+'' then CHR '' '' # form_decode room p
      else case (c = CHR 0x25, p) of
        (True, a # b # p') \<Rightarrow> char_of (strtol16 a b) # form_decode room p'
      | _ \<Rightarrow> c # form_decode room p)"

function form_field :: "string \<Rightarrow> string \<Rightarrow> nat \<Rightarrow> string" where
  "form_field body key cap =
     (if body = [] then []
      else if take (length key) body = key \<and> take 1 (drop (length key) body) = ''=''
      then form_decode (cap - 1) (drop (length key + 1) body)
      else form_field (drop 1 (dropWhile (\<lambda>c. c \<noteq> CHR ''&'') body)) key cap)"
  by pat_completeness auto
termination
proof (relation "measure (\<lambda>(body, key, cap). length body)")
  fix body key :: string and cap :: nat
  let ?d = "dropWhile (\<lambda>c. c \<noteq> CHR ''&'') body"
  assume "body \<noteq> []"
  then have "0 < length body" "length ?d \<le> length body" by (simp_all add: length_dropWhile_le)
  then have "length ?d - 1 < length body" by arith
  then show "((drop 1 ?d, key, cap), body, key, cap) \<in> measure (\<lambda>(body, key, cap). length body)" by simp
qed simp

declare form_field.simps [simp del]

section \<open>Pages\<close>

definition CRLF :: string where "CRLF = [CR, NL]"

text \<open>Text in single and in double quotes.\<close>

definition sq :: "string \<Rightarrow> string" where "sq s = CHR 0x27 # s @ [CHR 0x27]"
definition dq :: "string \<Rightarrow> string" where "dq s = CHR 0x22 # s @ [CHR 0x22]"

definition form_head :: string where
  "form_head =
     ''<!doctype html><html><head><meta name=viewport '' @
     ''content='' @ sq ''width=device-width,initial-scale=1'' @ ''><title>Wi-Fi setup</title>'' @
     ''<style>body{font-family:sans-serif;max-width:24em;margin:2em auto;'' @
     ''padding:0 1em}input,button{width:100%;font-size:1.1em;margin:.3em 0;'' @
     ''padding:.4em}</style>''"

definition form_head2 :: string where
  "form_head2 = ''</head><body><h2>Wi-Fi setup</h2>''"

definition refresh :: string where
  "refresh = ''<meta http-equiv=refresh content='' @ sq ''3;url=/'' @ ''>''"

definition form_body :: string where
  "form_body =
     ''<form method=post action=/connect>'' @
     ''<label>Network (SSID)<input name=ssid required maxlength=32></label>'' @
     ''<label>Password<input name=psk type=password maxlength=64></label>'' @
     ''<button>Connect</button></form>'' @
     ''<p><small>The device tests the network, then restarts into its '' @
     ''application. If this page comes back, the test failed.</small></p>'' @
     ''</body></html>''"

definition send_page :: "bool \<Rightarrow> string \<Rightarrow> string list" where
  "send_page testing msg =
     (let r = (if testing then refresh else []);
          note = (if msg \<noteq> [] then take 159 (''<p><b>'' @ msg @ ''</b></p>'') else []);
          len = length form_head + length r + length form_head2 + length form_body + length note;
          hdr = take 95 (''HTTP/1.1 200 OK'' @ CRLF @ ''Content-Type: text/html'' @ CRLF @
                  ''Content-Length: '' @ dec len @ CRLF @ ''Connection: close'' @ CRLF @ CRLF)
      in [hdr, form_head, r, form_head2, note, form_body])"

definition redirect :: string where
  "redirect =
     ''HTTP/1.1 302 Found'' @ CRLF @ ''Location: http://192.168.4.1/'' @ CRLF @
     ''Content-Length: 0'' @ CRLF @ ''Connection: close'' @ CRLF @ CRLF"

section \<open>One request\<close>

definition REQ_MAX :: nat where "REQ_MAX = 1535"

definition content_length :: "string \<Rightarrow> int" where
  "content_length req =
     (case find_sub ''Content-Length:'' req of
        Some i \<Rightarrow> atoi (drop (i + 15) req)
      | None \<Rightarrow> (case find_sub ''content-length:'' req of Some i \<Rightarrow> atoi (drop (i + 15) req) | None \<Rightarrow> 0))"

text \<open>
  The receive loop: the request read so far, where its body starts once the headers are complete, and
  the length they announce. A piece that is empty stands for an error, a timeout or the end.
\<close>

fun http_read :: "string list \<Rightarrow> string \<Rightarrow> nat option \<Rightarrow> int \<Rightarrow> string \<times> nat option" where
  "http_read [] req body_at clen = (req, body_at)"
| "http_read (r # rs) req body_at clen =
     (let r = take (REQ_MAX - length req) r
      in if r = [] then (req, body_at)
         else
           let req = req @ r;
               (body_at, clen) =
                 (case body_at of
                    Some i \<Rightarrow> (Some i, clen)
                  | None \<Rightarrow>
                      (case find_sub (CRLF @ CRLF) (c_str req) of
                         None \<Rightarrow> (None, clen)
                       | Some e \<Rightarrow> (Some (e + 4), content_length (c_str req))))
           in case body_at of
                Some i \<Rightarrow> if int (length req) - int i \<ge> clen then (req, body_at) else http_read rs req body_at clen
              | None \<Rightarrow> http_read rs req body_at clen)"

record softap =
  sa_pending :: app_wifi_creds
  sa_last_result :: string
  sa_testing :: bool
  sa_deadline :: int
  sa_return :: bool
  sa_creds :: "app_wifi_creds list"
  sa_part :: bytes

record softap_cfg =
  sa_window_s :: int
  sa_timeout_s :: nat

definition http_handle :: "softap_cfg \<Rightarrow> string list \<Rightarrow> softap \<Rightarrow> string list \<times> bool \<times> softap" where
  "http_handle cfg chunks s =
     (let (req, body_at) = http_read chunks [] None 0;
          (meth, rest) = scan_word 7 (c_str req);
          (path, _) = scan_word 63 rest
      in if meth = ''POST'' \<and> path = ''/connect'' \<and> body_at \<noteq> None then
           let body = c_str (drop (the body_at) req);
               s = s\<lparr>sa_pending := \<lparr>ssid = form_field body ''ssid'' 33, psk = form_field body ''psk'' 65\<rparr>\<rparr>
           in if ssid (sa_pending s) = [] then (send_page (sa_testing s) ''Enter a network name.'', False, s)
              else
                let s = s\<lparr>sa_last_result := take 95 (''Testing '' @ dq (c_str (ssid (sa_pending s))) @
                            ''... this takes up to '' @ dec (sa_timeout_s cfg) @ '' s.''),
                          sa_testing := True\<rparr>
                in (send_page True (sa_last_result s), True, s)
         else if path = ''/'' \<or> take 2 path = ''/?'' then (send_page (sa_testing s) (sa_last_result s), False, s)
         else ([redirect], False, s))"

section \<open>Test and hand-over\<close>

text \<open>The clock, a connection's pieces if there is one, and what the calls return; \<open>sa_errno\<close> is \<open>%d\<close> of a code.\<close>

record softap_io =
  sa_now :: int
  sa_conn :: "string list option"
  sa_join :: "app_wifi_creds \<Rightarrow> rc"
  sa_set_personal :: "app_wifi_creds \<Rightarrow> rc"
  sa_resolve :: rc
  sa_flash :: flash_io
  sa_errno :: "errno \<Rightarrow> string"

datatype softap_exit = StaySoftap | LeaveSoftap

definition sa_reboot_now :: "softap_io \<Rightarrow> softap \<Rightarrow> softap_exit \<times> softap" where
  "sa_reboot_now io s = (LeaveSoftap, s\<lparr>sa_part := snd (boot_request_clear (sa_flash io) (sa_part s))\<rparr>)"

definition try_pending :: "softap_io \<Rightarrow> softap \<Rightarrow> softap_exit \<times> softap" where
  "try_pending io s =
     (let c = sa_pending s; s = s\<lparr>sa_testing := False\<rparr>
      in case sa_join io c of
           Err e \<Rightarrow>
             (StaySoftap, s\<lparr>sa_last_result := take 95 (''Could not join '' @ dq (c_str (ssid c)) @ '' ('' @
                sa_errno io e @ ''). Check the password.''), sa_pending := no_creds\<rparr>)
         | OK \<Rightarrow>
             (let s = s\<lparr>sa_creds := []\<rparr>
              in case sa_set_personal io c of
                   Err e \<Rightarrow>
                     (StaySoftap, s\<lparr>sa_pending := no_creds, sa_last_result :=
                        take 95 (''Storing the credentials failed ('' @ sa_errno io e @ '').'')\<rparr>)
                 | OK \<Rightarrow>
                     sa_reboot_now io (s\<lparr>sa_creds := [c], sa_pending := no_creds, sa_last_result :=
                        ''Connected. The device restarts into its application now.''\<rparr>)))"

text \<open>One turn of the loop in \<open>softap_run\<close>; a turn without a connection is a poll that timed out.\<close>

definition softap_turn :: "softap_cfg \<Rightarrow> softap_io \<Rightarrow> softap \<Rightarrow> string list \<times> softap_exit \<times> softap" where
  "softap_turn cfg io s =
     (if sa_deadline s - sa_now io \<le> 0 then
        (if sa_return s \<or> sa_resolve io = OK then ([], sa_reboot_now io s)
         else ([], StaySoftap, s\<lparr>sa_deadline := sa_now io + sa_window_s cfg * 1000\<rparr>))
      else
        case sa_conn io of
          None \<Rightarrow> ([], StaySoftap, s)
        | Some chunks \<Rightarrow>
            (let (sent, go, s) = http_handle cfg chunks s
             in if go then (sent, try_pending io s) else (sent, StaySoftap, s)))"

definition softap_start :: "softap_cfg \<Rightarrow> softap_io \<Rightarrow> rc \<Rightarrow> app_wifi_creds list \<Rightarrow> bytes \<Rightarrow> softap option" where
  "softap_start cfg io ap wifi part =
     (if ap \<noteq> OK then None
      else Some \<lparr>sa_pending = no_creds, sa_last_result = [], sa_testing = False,
        sa_deadline = sa_now io + sa_window_s cfg * 1000,
        sa_return = (case boot_request_read (sa_flash io) part of
           Inr r \<Rightarrow> br_reason r = reason_value BOOT_REQUEST_OPERATOR | Inl e \<Rightarrow> False),
        sa_creds = wifi, sa_part = part\<rparr>)"

definition ap_ssid :: "string \<Rightarrow> string" where
  "ap_ssid hostname = take 39 (take 26 hostname @ ''-setup'')"

section \<open>Forms as browsers encode them\<close>

definition hex_digit :: "nat \<Rightarrow> char" where
  "hex_digit k = ''0123456789ABCDEF'' ! k"

definition url_plain :: "char \<Rightarrow> bool" where
  "url_plain c \<longleftrightarrow> c \<in> set ''ABCDEFGHIJKLMNOPQRSTUVWXYZabcdefghijklmnopqrstuvwxyz0123456789-_.*''"

definition url_char :: "char \<Rightarrow> string" where
  "url_char c =
     (if url_plain c then [c] else if c = CHR '' '' then ''+''
      else [CHR 0x25, hex_digit (of_char c div 16), hex_digit (of_char c mod 16)])"

definition url_encode :: "string \<Rightarrow> string" where
  "url_encode s = concat (map url_char s)"

lemma url_plain_special: "url_plain c \<Longrightarrow> c \<noteq> CHR ''&'' \<and> c \<noteq> CHR ''+'' \<and> c \<noteq> CHR 0x25 \<and> c \<noteq> CHR 0x00"
  by (auto simp: url_plain_def)

lemma hex_digit_ok: "k < 16 \<Longrightarrow> hex_val (hex_digit k) = Some k \<and> url_plain (hex_digit k)"
proof -
  assume "k < 16"
  moreover have "\<forall>j \<in> set [0..<16]. hex_val (hex_digit j) = Some j \<and> url_plain (hex_digit j)" by code_simp
  ultimately show ?thesis by simp
qed

lemma hex_pair:
  "char_of (strtol16 (hex_digit (of_char c div 16)) (hex_digit (of_char c mod 16))) = (c :: char)"
  "url_plain (hex_digit (of_char c div 16))" "url_plain (hex_digit (of_char c mod 16))"
proof -
  have k: "of_char c div 16 < (16 :: nat)" "of_char c mod 16 < (16 :: nat)"
    using nat_of_char_less_256 [of c] by (simp_all add: div_less_iff_less_mult)
  have "strtol16 (hex_digit (of_char c div 16)) (hex_digit (of_char c mod 16)) = int (of_char c)"
    using hex_digit_ok [OF k(1)] hex_digit_ok [OF k(2)] by (simp add: strtol16_def)
  then show "char_of (strtol16 (hex_digit (of_char c div 16)) (hex_digit (of_char c mod 16))) = c"
    by (simp add: of_nat_of_char)
  show "url_plain (hex_digit (of_char c div 16))" "url_plain (hex_digit (of_char c mod 16))"
    using hex_digit_ok [OF k(1)] hex_digit_ok [OF k(2)] by simp_all
qed

lemma decode_url_char: "form_decode (Suc n) (url_char c @ p) = c # form_decode n p"
  using url_plain_special [of c] hex_pair(1) [of c] by (auto simp: url_char_def split: if_splits)

lemma url_encode_chars: "x \<in> set (url_encode s) \<Longrightarrow> x \<noteq> CHR ''&'' \<and> x \<noteq> CHR 0x00"
proof (induction s)
  case (Cons c s)
  have "x \<noteq> CHR ''&'' \<and> x \<noteq> CHR 0x00" if "x \<in> set (url_char c)"
    using that hex_pair(2, 3) [of c] url_plain_special [of x] by (auto simp: url_char_def split: if_splits)
  then show ?case using Cons by (auto simp: url_encode_def)
qed (simp add: url_encode_def)

lemma decode_url_encode:
  assumes "rest = [] \<or> hd rest = CHR ''&''"
  shows "form_decode n (url_encode s @ rest) = take n s"
proof (induction s arbitrary: n)
  case Nil
  then show ?case using assms by (cases n; cases rest) (auto simp: url_encode_def)
next
  case (Cons c s)
  then show ?case by (cases n) (simp_all add: url_encode_def decode_url_char)
qed

definition form_text :: "string \<Rightarrow> string \<Rightarrow> string" where
  "form_text s p = ''ssid='' @ url_encode s @ ''&psk='' @ url_encode p"

lemma form_fields:
  "form_field (form_text s p) ''ssid'' 33 = take 32 s" "form_field (form_text s p) ''psk'' 65 = take 64 p"
proof -
  show "form_field (form_text s p) ''ssid'' 33 = take 32 s"
    using decode_url_encode [of "''&psk='' @ url_encode p" 32 s]
    by (subst form_field.simps) (simp add: form_text_def)
  have "dropWhile (\<lambda>c. c \<noteq> CHR ''&'') (form_text s p) = ''&psk='' @ url_encode p"
    using url_encode_chars [of _ s] by (simp add: form_text_def dropWhile_append3 dropWhile_append2)
  moreover have "form_field (''psk='' @ url_encode p) ''psk'' 65 = take 64 p"
    using decode_url_encode [of "[]" 64 p] by (subst form_field.simps) simp
  ultimately show "form_field (form_text s p) ''psk'' 65 = take 64 p"
    by (subst form_field.simps) (simp add: form_text_def)
qed

text \<open>
  The form gives back what was typed. Whatever the network name and password contain, the fields the
  server decodes from the browser's encoding are the two values, cut at the 32 and 64 characters
  Wi-Fi allows.
\<close>

theorem form_roundtrip:
  "form_field (form_text s p) ''ssid'' 33 = take 32 s \<and> form_field (form_text s p) ''psk'' 65 = take 64 p"
  by (intro conjI form_fields)

section \<open>Pages announce their length\<close>

text \<open>
  Every page's \<open>Content-Length\<close> is the number of bytes that follow, whatever the message: the
  header is never cut, and a message too long for its buffer is cut before it is counted.
\<close>

theorem page_length_right:
  assumes "send_page t msg = hdr # parts"
  shows "hdr = ''HTTP/1.1 200 OK'' @ CRLF @ ''Content-Type: text/html'' @ CRLF @
    ''Content-Length: '' @ dec (length (concat parts)) @ CRLF @ ''Connection: close'' @ CRLF @ CRLF"
proof -
  let ?n = "length (concat parts)"
  have "?n < 10 ^ 4"
    using assms by (auto simp: send_page_def Let_def form_head_def form_head2_def form_body_def refresh_def sq_def)
  then have d: "length (dec ?n) \<le> 4" by (intro length_dec) simp_all
  let ?r = "if t then refresh else []" and ?note = "if msg \<noteq> [] then take 159 (''<p><b>'' @ msg @ ''</b></p>'') else []"
  have p: "parts = [form_head, ?r, form_head2, ?note, form_body]"
    and h: "hdr = take 95 (''HTTP/1.1 200 OK'' @ CRLF @ ''Content-Type: text/html'' @ CRLF @
      ''Content-Length: '' @ dec (length form_head + length ?r + length form_head2 + length form_body + length ?note)
      @ CRLF @ ''Connection: close'' @ CRLF @ CRLF)"
    using assms unfolding send_page_def Let_def by (simp_all only: list.inject)
  have n: "length form_head + length ?r + length form_head2 + length form_body + length ?note = ?n"
    unfolding p by simp
  show ?thesis unfolding h n using d by (intro take_all) (simp add: CRLF_def)
qed

theorem page_length_right_witness:
  "hd (send_page False []) = ''HTTP/1.1 200 OK'' @ CRLF @ ''Content-Type: text/html'' @ CRLF @
    ''Content-Length: '' @ dec (length (concat (tl (send_page False [])))) @ CRLF @ ''Connection: close'' @ CRLF @ CRLF"
proof -
  have "send_page False [] = hd (send_page False []) # tl (send_page False [])" by (simp add: send_page_def Let_def)
  from page_length_right [OF this] show ?thesis .
qed

section \<open>Credentials through the portal\<close>

definition hdr_line_ok :: "string \<Rightarrow> bool" where
  "hdr_line_ok l \<longleftrightarrow> l \<noteq> [] \<and> CR \<notin> set l \<and> CHR 0x00 \<notin> set l"

definition header_lines :: "string list \<Rightarrow> string" where
  "header_lines ls = concat (map (\<lambda>l. l @ CRLF) ls)"

text \<open>The request a browser sends for the form; \<open>hs\<close> are the header lines behind the length.\<close>

definition post_lines :: "string list \<Rightarrow> string \<Rightarrow> string list" where
  "post_lines hs body = ''POST /connect HTTP/1.1'' # (''Content-Length: '' @ dec (length body)) # hs"

definition post_request :: "string list \<Rightarrow> string \<Rightarrow> string \<Rightarrow> string" where
  "post_request hs s p =
     header_lines (post_lines hs (form_text s p)) @ CRLF @ form_text s p"

lemma find_sub_short: "length s < length pat \<Longrightarrow> find_sub pat s = None"
  by (induction s) (auto dest: arg_cong [of _ _ length])

lemma find_sub_prefix:
  assumes "pat \<noteq> []" "find_sub pat w = Some i"
  shows "find_sub pat (take n w) = (if i + length pat \<le> n then Some i else None)"
  using assms(2)
proof (induction w arbitrary: i n)
  case Nil
  then show ?case using assms(1) by simp
next
  case (Cons c w)
  show ?case
  proof (cases n)
    case 0
    then show ?thesis using assms(1) by simp
  next
    case (Suc m)
    show ?thesis
    proof (cases "take (length pat) (c # w) = pat")
      case True
      then have "i = 0" using Cons.prems by simp
      moreover have "find_sub pat (take n (c # w)) = None" if "n < length pat"
        using that by (intro find_sub_short) simp
      moreover have "take (length pat) (take n (c # w)) = pat" if "length pat \<le> n"
        using that True by (simp add: min_def)
      ultimately show ?thesis using Suc by auto
    next
      case False
      then obtain j where j: "find_sub pat w = Some j" "i = Suc j" using Cons.prems by auto
      have "take (length pat) (take n (c # w)) \<noteq> pat"
      proof
        assume eq: "take (length pat) (take n (c # w)) = pat"
        have "length pat \<le> n" using arg_cong [OF eq, of length] by (simp only: length_take)
        then show False using eq False by (simp add: min_def)
      qed
      then show ?thesis using Cons.IH [OF j(1), of m] j(2) Suc by simp
    qed
  qed
qed

lemma find_sub_skip:
  "c \<notin> set l \<Longrightarrow> find_sub (c # pat) (l @ x) = map_option ((+) (length l)) (find_sub (c # pat) x)"
proof (induction l)
  case (Cons a l)
  then show ?case by (cases "find_sub (c # pat) x") auto
qed (cases "find_sub (c # pat) x"; simp)

lemma find_header_end:
  assumes "ls \<noteq> []" "list_all hdr_line_ok ls"
  shows "find_sub (CRLF @ CRLF) (header_lines ls @ CRLF @ body) = Some (length (header_lines ls) - 2)"
  using assms
proof (induction ls)
  case (Cons l ls)
  have l: "l \<noteq> []" "CR \<notin> set l" using Cons.prems by (simp_all add: hdr_line_ok_def)
  have step: "find_sub (CRLF @ CRLF) (header_lines (l # ls) @ CRLF @ body)
      = map_option ((+) (length l)) (find_sub (CRLF @ CRLF) (CRLF @ header_lines ls @ CRLF @ body))"
    using find_sub_skip [OF l(2), of "NL # CRLF"] by (simp add: header_lines_def CRLF_def)
  show ?case
  proof (cases "ls = []")
    case True
    then show ?thesis unfolding step by (simp add: header_lines_def CRLF_def)
  next
    case False
    then obtain k ks where k: "ls = k # ks" "k \<noteq> []" "CR \<notin> set k"
      using Cons.prems by (cases ls) (auto simp: hdr_line_ok_def)
    then obtain d k' where d: "header_lines ls = d # k'" "d \<noteq> CR" by (cases k) (auto simp: header_lines_def)
    have "find_sub (CRLF @ CRLF) (CRLF @ header_lines ls @ CRLF @ body)
        = map_option ((+) 2) (find_sub (CRLF @ CRLF) (header_lines ls @ CRLF @ body))"
      unfolding d(1) using d(2)
      by (simp add: CRLF_def option.map_comp comp_def) (simp add: NL_def CR_def)
    then show ?thesis unfolding step using Cons.IH [OF False] Cons.prems False k
      by (simp add: header_lines_def CRLF_def)
  qed
qed simp

lemma line_lists:
  "list_all hdr_line_ok hs \<Longrightarrow> list_all hdr_line_ok (post_lines hs body)"
proof -
  have "CR \<noteq> c \<and> CHR 0x00 \<noteq> c" if "is_digit c" for c using that by (auto simp: is_digit_def CR_def)
  then have "CR \<notin> set (dec n) \<and> CHR 0x00 \<notin> set (dec n)" for n
    using dec_digits [of n] by (auto simp: list_all_iff)
  then show "list_all hdr_line_ok hs \<Longrightarrow> list_all hdr_line_ok (post_lines hs body)"
    by (simp add: post_lines_def hdr_line_ok_def CR_def)
qed

definition post_head :: "string list \<Rightarrow> string \<Rightarrow> string \<Rightarrow> string" where
  "post_head hs s p = header_lines (post_lines hs (form_text s p)) @ CRLF"

lemma post_split: "post_request hs s p = post_head hs s p @ form_text s p"
  by (simp add: post_request_def post_head_def)

lemma head_shape:
  "\<exists>x. post_head hs s p = ''POST /connect HTTP/1.1'' @ CRLF @ ''Content-Length: '' @ dec (length (form_text s p)) @ CR # x"
  by (auto simp: post_head_def post_lines_def header_lines_def CRLF_def)

lemma form_no_nul: "c_str (form_text s p) = form_text s p" "CHR 0x00 \<notin> set (form_text s p)"
proof -
  show b: "CHR 0x00 \<notin> set (form_text s p)" using url_encode_chars by (auto simp: form_text_def)
  then show "c_str (form_text s p) = form_text s p" by (auto simp: c_str_def takeWhile_eq_all_conv)
qed

lemma post_no_nul:
  assumes "list_all hdr_line_ok hs"
  shows "c_str (take n (post_request hs s p)) = take n (post_request hs s p)"
proof -
  have "CHR 0x00 \<notin> set (header_lines ls)" if "list_all hdr_line_ok ls" for ls
    using that by (auto simp: header_lines_def hdr_line_ok_def list_all_iff CRLF_def CR_def NL_def)
  from this [OF line_lists [OF assms]] have "CHR 0x00 \<notin> set (post_request hs s p)"
    using form_no_nul(2) by (auto simp: post_request_def CRLF_def CR_def NL_def)
  then show ?thesis by (auto simp: c_str_def takeWhile_eq_all_conv dest: in_set_takeD)
qed

lemma post_header_end:
  assumes "list_all hdr_line_ok hs"
  shows "find_sub (CRLF @ CRLF) (take n (post_request hs s p))
    = (if length (post_head hs s p) \<le> n then Some (length (post_head hs s p) - 4) else None)"
proof -
  let ?ls = "post_lines hs (form_text s p)"
  have l: "?ls \<noteq> []" "4 \<le> length (header_lines ?ls)" by (simp_all add: post_lines_def header_lines_def)
  have "find_sub (CRLF @ CRLF) (post_request hs s p) = Some (length (header_lines ?ls) - 2)"
    using find_header_end [OF l(1) line_lists [OF assms], of "form_text s p"] by (simp only: post_request_def)
  then show ?thesis
    using find_sub_prefix [of "CRLF @ CRLF" "post_request hs s p" "length (header_lines ?ls) - 2" n] l(2)
    by (auto simp: post_head_def CRLF_def)
qed

lemma atoi_dec: "atoi ('' '' @ dec n @ CR # y) = int n"
proof -
  have "dec n \<noteq> []" by (subst dec.simps) simp
  then obtain c r where c: "dec n = c # r" "is_digit c" using dec_digits [of n] by (cases "dec n") auto
  have "takeWhile is_digit (dec n @ CR # y) = dec n"
    using dec_digits [of n] by (simp add: takeWhile_append2 list_all_iff is_digit_def CR_def)
  moreover have "\<not> is_space c" "c \<noteq> CHR ''-''" "c \<noteq> CHR ''+''" using c(2) by (auto simp: is_digit_def is_space_def)
  moreover have "is_space (CHR '' '')" by (simp add: is_space_def)
  ultimately show ?thesis using dec_value [of n] c(1) by (simp add: atoi_def Let_def)
qed

lemma post_content_length:
  assumes "length (post_head hs s p) \<le> n"
  shows "content_length (take n (post_request hs s p)) = int (length (form_text s p))"
proof -
  let ?w = "take n (post_request hs s p)"
  obtain x where x: "post_head hs s p = ''POST /connect HTTP/1.1'' @ CRLF @ ''Content-Length: ''
      @ dec (length (form_text s p)) @ CR # x"
    using head_shape by blast
  obtain y where "?w = post_head hs s p @ y" using assms by (simp add: post_split)
  then have w: "?w = (''POST /connect HTTP/1.1'' @ CRLF) @ ''Content-Length: '' @ dec (length (form_text s p)) @ CR # x @ y"
    unfolding x by (simp only: append_assoc append_Cons)
  have "find_sub ''Content-Length:'' ?w = Some 24"
    unfolding w by (subst find_sub_skip) (simp_all add: CRLF_def CR_def NL_def)
  moreover have "drop 39 ?w = '' '' @ dec (length (form_text s p)) @ CR # x @ y" unfolding w by (simp add: CRLF_def)
  ultimately show ?thesis using atoi_dec by (simp add: content_length_def)
qed

lemma read_prefix:
  assumes "list_all hdr_line_ok hs"
    and "req @ concat chunks = post_request hs s p" "[] \<notin> set chunks" "length (post_request hs s p) \<le> REQ_MAX"
  shows "http_read chunks req (if length (post_head hs s p) \<le> length req then Some (length (post_head hs s p)) else None)
      (if length (post_head hs s p) \<le> length req then int (length (form_text s p)) else 0)
    = (post_request hs s p, Some (length (post_head hs s p)))"
  using assms(2-)
proof (induction chunks arbitrary: req)
  case Nil
  then show ?case by (simp add: post_split)
next
  case (Cons r rs)
  let ?req = "req @ r" and ?w = "post_request hs s p" and ?h = "post_head hs s p" and ?b = "form_text s p"
  have r: "r \<noteq> []" "length req + length r + length (concat rs) = length ?w"
    using Cons.prems(1, 2) by (auto dest: arg_cong [of _ _ length])
  then have fit: "take (REQ_MAX - length req) r = r" using Cons.prems(3) by simp
  have pre: "?req = take (length ?req) ?w" using Cons.prems(1) by (metis append.assoc append_eq_conv_conj concat.simps(2))
  have scan: "find_sub (CRLF @ CRLF) (c_str ?req) = (if length ?h \<le> length ?req then Some (length ?h - 4) else None)"
    using post_header_end [OF assms(1), of "length ?req" s p] post_no_nul [OF assms(1), of "length ?req" s p]
    by (simp only: pre [symmetric])
  have len: "content_length (c_str ?req) = int (length ?b)" if "length ?h \<le> length ?req"
    using post_content_length [OF that] post_no_nul [OF assms(1), of "length ?req" s p]
    by (simp only: pre [symmetric])
  have h4: "4 \<le> length ?h" by (simp add: post_head_def post_lines_def header_lines_def)
  have ih: "http_read rs ?req (if length ?h \<le> length ?req then Some (length ?h) else None)
      (if length ?h \<le> length ?req then int (length ?b) else 0) = (?w, Some (length ?h))"
    using Cons.IH [of ?req] Cons.prems by simp
  have fin: "?req = ?w" if "int (length ?req) - int (length ?h) \<ge> int (length ?b)"
  proof -
    have "length ?w \<le> length ?req" using that by (simp add: post_split)
    then show ?thesis using pre by simp
  qed
  show ?case
  proof (cases "length ?h \<le> length req")
    case True
    then show ?thesis using r(1) fit ih fin by (auto simp: Let_def)
  next
    case False
    then show ?thesis using r(1) fit scan len ih fin h4 by (auto simp: Let_def)
  qed
qed

lemma read_whole:
  assumes "list_all hdr_line_ok hs" "concat chunks = post_request hs s p" "[] \<notin> set chunks"
    "length (post_request hs s p) \<le> REQ_MAX"
  shows "http_read chunks [] None 0 = (post_request hs s p, Some (length (post_head hs s p)))"
proof -
  have "0 < length (post_head hs s p)" by (simp add: post_head_def CRLF_def)
  then show ?thesis using read_prefix [OF assms(1), of "[]" chunks s p] assms by simp
qed

lemma post_words:
  "scan_word 7 (post_request hs s p) = (''POST'', drop 4 (post_request hs s p))"
  "fst (scan_word 63 (drop 4 (post_request hs s p))) = ''/connect''"
proof -
  obtain y where y: "post_head hs s p = ''POST /connect HTTP/1.1'' @ CRLF @ ''Content-Length: ''
      @ dec (length (form_text s p)) @ CR # y"
    using head_shape by blast
  obtain x where w: "post_request hs s p = ''POST /connect '' @ x" unfolding post_split y by simp
  show "scan_word 7 (post_request hs s p) = (''POST'', drop 4 (post_request hs s p))"
    "fst (scan_word 63 (drop 4 (post_request hs s p))) = ''/connect''"
    unfolding w by (simp_all add: scan_word_def is_space_def)
qed

text \<open>
  C11. What is typed into the form is what is tested. For any network name and password, any other header
  lines and any way TCP cuts the request into pieces, the server takes the request for the form's
  and has exactly the typed credentials pending; stored credentials are not touched yet.
\<close>

theorem portal_takes_credentials:
  assumes "list_all hdr_line_ok hs" "concat chunks = post_request hs s p" "[] \<notin> set chunks"
    "length (post_request hs s p) \<le> REQ_MAX" "s \<noteq> []"
  shows "\<exists>page st'. http_handle cfg chunks st = (page, True, st') \<and> sa_pending st' = \<lparr>ssid = take 32 s, psk = take 64 p\<rparr>
    \<and> sa_testing st' \<and> sa_creds st' = sa_creds st"
proof -
  have nul: "c_str (post_request hs s p) = post_request hs s p"
    using post_no_nul [OF assms(1), of "length (post_request hs s p)" s p] by simp
  have body: "c_str (drop (length (post_head hs s p)) (post_request hs s p)) = form_text s p"
    by (simp add: post_split form_no_nul)
  show ?thesis
    using post_words(2) [of hs s p] assms(5)
    by (cases "scan_word 63 (drop 4 (post_request hs s p))")
      (simp add: http_handle_def read_whole [OF assms(1-4)] nul post_words(1) body form_fields Let_def)
qed

definition sample_softap :: softap where
  "sample_softap = \<lparr>sa_pending = no_creds, sa_last_result = [], sa_testing = False, sa_deadline = 900000,
     sa_return = True, sa_creds = [], sa_part = replicate 16 0\<rparr>"

theorem portal_takes_credentials_witness:
  "\<exists>page st'. http_handle \<lparr>sa_window_s = 900, sa_timeout_s = 30\<rparr> [take 30 (post_request [''Host: 192.168.4.1''] ''cafe & bar'' ''100%'') ,
      drop 30 (post_request [''Host: 192.168.4.1''] ''cafe & bar'' ''100%'')] sample_softap = (page, True, st')
    \<and> sa_pending st' = \<lparr>ssid = ''cafe & bar'', psk = ''100%''\<rparr>"
proof -
  let ?w = "post_request [''Host: 192.168.4.1''] ''cafe & bar'' ''100%''"
  have "length ?w = 93" by code_simp
  then have l: "length ?w \<le> REQ_MAX" "[] \<notin> set [take 30 ?w, drop 30 ?w]"
    by (auto simp: REQ_MAX_def dest: arg_cong [of _ _ length])
  have "list_all hdr_line_ok [''Host: 192.168.4.1'']" by (simp add: hdr_line_ok_def CR_def)
  from portal_takes_credentials [OF this _ l(2, 1),
      of "\<lparr>sa_window_s = 900, sa_timeout_s = 30\<rparr>" sample_softap] show ?thesis by simp blast
qed

section \<open>What is stored\<close>

definition softap_run :: "softap_cfg \<Rightarrow> softap_io list \<Rightarrow> softap \<Rightarrow> softap" where
  "softap_run cfg ios s = fold (\<lambda>io s. snd (snd (softap_turn cfg io s))) ios s"

lemma handle_keeps:
  "http_handle cfg chunks s = (sent, go, t) \<Longrightarrow> sa_creds t = sa_creds s \<and> sa_part t = sa_part s"
  by (auto simp: http_handle_def Let_def split: prod.splits if_splits)

lemma turn_creds:
  "sa_creds (snd (snd (softap_turn cfg io s))) = sa_creds s
    \<or> (\<forall>c \<in> set (sa_creds (snd (snd (softap_turn cfg io s)))). sa_join io c = OK)"
  by (auto simp: softap_turn_def sa_reboot_now_def try_pending_def Let_def dest!: handle_keeps
      split: option.splits prod.splits rc.splits if_splits)

interpretation portal: guarded_system "\<lambda>io s. snd (snd (softap_turn cfg io s))" "\<lambda>io. \<forall>c. sa_join io c = OK \<longrightarrow> c \<in> joins"
  "\<lambda>s. sa_creds s = before \<or> set (sa_creds s) \<subseteq> joins" for cfg joins before
proof
  fix io :: softap_io and s :: softap
  assume "\<forall>c. sa_join io c = OK \<longrightarrow> c \<in> joins" "sa_creds s = before \<or> set (sa_creds s) \<subseteq> joins"
  then show "sa_creds (snd (snd (softap_turn cfg io s))) = before \<or> set (sa_creds (snd (snd (softap_turn cfg io s)))) \<subseteq> joins"
    using turn_creds [of cfg io s] by auto
qed

text \<open>
  The portal never replaces the stored credentials by ones that were not tested: after any requests and
  tests they are the ones it started with or ones of networks the device has joined.
\<close>

theorem softap_stores_only_joined:
  "sa_creds (softap_run cfg ios s) = sa_creds s
    \<or> set (sa_creds (softap_run cfg ios s)) \<subseteq> {c. \<exists>io \<in> set ios. sa_join io c = OK}"
  using portal.run_keeps_ok [where joins = "{c. \<exists>io \<in> set ios. sa_join io c = OK}" and before = "sa_creds s"
      and es = ios and s = s and cfg = cfg]
  by (auto simp: portal.run_def softap_run_def list_all_iff)

text \<open>
  The device leaves the portal only for a reason: the credentials of the request just served were tested
  and stored, or the window is over and there are credentials to go back to. Either way the boot
  request is erased, so the bootloader starts the application.
\<close>

theorem softap_leaves_only_when_done:
  assumes "softap_turn cfg io s = (sent, LeaveSoftap, t)" "sa_flash io = all_ok" "16 \<le> length (sa_part s)"
  shows "((\<exists>c chunks. sa_conn io = Some chunks \<and> sa_creds t = [c] \<and> sa_join io c = OK \<and> sa_set_personal io c = OK
            \<and> c = sa_pending (snd (snd (http_handle cfg chunks s))))
        \<or> sa_deadline s \<le> sa_now io \<and> (sa_return s \<or> sa_resolve io = OK) \<and> sa_creds t = sa_creds s)
    \<and> \<not> provisioner_requested all_ok (sa_part t)"
proof -
  have cleared: "\<not> provisioner_requested all_ok (snd (boot_request_clear all_ok p))" if "16 \<le> length p" for p
    using erased_not_requested(1) [of p] that
    by (simp add: part_ok_def boot_request_clear_def all_ok_def flash_area_flatten_def)
  show ?thesis
  proof (cases "sa_deadline s - sa_now io \<le> 0")
    case True
    then show ?thesis
      using assms cleared by (auto simp: softap_turn_def sa_reboot_now_def split: if_splits)
  next
    case False
    then obtain chunks u where u: "sa_conn io = Some chunks" "http_handle cfg chunks s = (sent, True, u)"
      "try_pending io u = (LeaveSoftap, t)"
      using assms(1) by (auto simp: softap_turn_def split: option.splits prod.splits if_splits)
    then have "sa_part u = sa_part s" using handle_keeps by blast
    then show ?thesis
      using u assms(2, 3) cleared
      by (auto simp: try_pending_def sa_reboot_now_def Let_def split: rc.splits)
  qed
qed

theorem softap_leaves_only_when_done_witness:
  "\<not> provisioner_requested all_ok (sa_part (snd (snd (softap_turn \<lparr>sa_window_s = 900, sa_timeout_s = 30\<rparr>
     \<lparr>sa_now = 900000, sa_conn = None, sa_join = (\<lambda>_. OK), sa_set_personal = (\<lambda>_. OK), sa_resolve = OK,
       sa_flash = all_ok, sa_errno = (\<lambda>_. [])\<rparr> sample_softap))))"
proof -
  let ?io = "\<lparr>sa_now = 900000, sa_conn = None, sa_join = (\<lambda>_. OK), sa_set_personal = (\<lambda>_. OK), sa_resolve = OK,
       sa_flash = all_ok, sa_errno = (\<lambda>_. [])\<rparr>"
  let ?r = "softap_turn \<lparr>sa_window_s = 900, sa_timeout_s = 30\<rparr> ?io sample_softap"
  have "?r = ([], LeaveSoftap, snd (snd ?r))"
    by (simp add: softap_turn_def sample_softap_def sa_reboot_now_def)
  from softap_leaves_only_when_done [OF this] show ?thesis by (simp add: sample_softap_def)
qed

section \<open>Sending, and the last page\<close>

text \<open>\<open>send_all\<close>: what is sent, given the results of the calls of \<^verbatim>\<open>zsock_send\<close> one after another.\<close>

fun send_all :: "int list \<Rightarrow> string \<Rightarrow> string" where
  "send_all [] s = []"
| "send_all (w # ws) s =
     (if s = [] \<or> w \<le> 0 then [] else take (nat w) s @ send_all ws (drop (nat w) s))"

text \<open>Partial sends lose and repeat nothing: what is sent is a prefix, and all of it if no call fails.\<close>

lemma send_all_prefix: "\<exists>k. send_all ws s = take k s"
proof (induction ws s rule: send_all.induct)
  case (1 s)
  then show ?case by (intro exI [of _ 0]) simp
next
  case (2 w ws s)
  show ?case
  proof (cases "s = [] \<or> w \<le> 0")
    case True
    then show ?thesis by (intro exI [of _ 0]) simp
  next
    case False
    then obtain k where "send_all ws (drop (nat w) s) = take k (drop (nat w) s)" using 2 by blast
    with False show ?thesis by (intro exI [of _ "nat w + k"]) (simp add: take_add)
  qed
qed

lemma send_all_complete: "list_all (\<lambda>w. 0 < w) ws \<Longrightarrow> length s \<le> length ws \<Longrightarrow> send_all ws s = s"
proof (induction ws s rule: send_all.induct)
  case (2 w ws s)
  then have "length (drop (nat w) s) \<le> length ws" by (cases "nat w") auto
  with 2 show ?case by auto
qed simp

text \<open>\<open>serve_final_page\<close>: the reload that waited out the test is answered once more before the reboot.\<close>

definition serve_final_page :: "bool \<Rightarrow> int \<Rightarrow> bool \<Rightarrow> softap \<Rightarrow> string list" where
  "serve_final_page listening poll accepted s =
     (if listening \<and> poll > 0 \<and> accepted then send_page (sa_testing s) (sa_last_result s) else [])"

lemma final_page:
  "try_pending io s = (LeaveSoftap, t) \<Longrightarrow>
    serve_final_page True 1 True t = send_page False ''Connected. The device restarts into its application now.''"
  by (auto simp: try_pending_def sa_reboot_now_def serve_final_page_def Let_def split: rc.splits)

end
