(* ===== verification/Softap_Dns.thy ===== *)
theory Softap_Dns
  imports Prelude
begin

text \<open>
  The catch-all DNS responder of the captive portal (\<^verbatim>\<open>src/apps/wifi-provisioner/src/softap.c\<close>,
  \<open>dns_fn\<close>): one datagram in, at most one out. Every A query is answered with the access point's
  address, other types with an empty answer.
\<close>

section \<open>The responder\<close>

definition DNS_BUF :: nat where "DNS_BUF = 512"

text \<open>The walk over the question name: where it stops (the \<open>while\<close> loop of the C).\<close>

function name_end :: "bytes \<Rightarrow> nat \<Rightarrow> nat" where
  "name_end buf q =
     (if q < length buf \<and> buf ! q \<noteq> 0 then name_end buf (q + unat (buf ! q) + 1) else q)"
  by pat_completeness auto
termination
  by (relation "measure (\<lambda>(buf, q). length buf - q)") auto

declare name_end.simps [simp del]

definition dns_answer :: bytes where
  "dns_answer = [0xC0, 0x0C, 0, 1, 0, 1, 0, 0, 0, 60, 0, 4, 192, 168, 4, 1]"

text \<open>\<open>buf\<close> is the datagram received, at most 512 bytes.\<close>

definition dns_reply :: "bytes \<Rightarrow> bytes option" where
  "dns_reply buf =
     (let n = length buf
      in if n < 12 \<or> (buf ! 2) AND 0x80 \<noteq> 0 \<or> buf ! 5 \<noteq> 1 then None
         else
           let q = name_end buf 12 + 5
           in if q > n \<or> q + 16 > DNS_BUF then None
              else
                let qtype = be_nat [buf ! (q - 4), buf ! (q - 3)];
                    buf = buf[2 := 0x84 OR ((buf ! 2) AND 0x01)];
                    buf = buf[3 := 0x80];
                    buf = buf[6 := 0];
                    buf = buf[7 := (if qtype = 1 then 1 else 0)];
                    buf = buf[8 := 0, 9 := 0, 10 := 0, 11 := 0]
                in Some (take q buf @ (if qtype = 1 then dns_answer else [])))"

section \<open>Queries as clients send them\<close>

text \<open>A name is its labels, each of 1 to 63 bytes.\<close>

definition label_ok :: "bytes \<Rightarrow> bool" where
  "label_ok l \<longleftrightarrow> l \<noteq> [] \<and> length l < 64"

definition name_bytes :: "bytes list \<Rightarrow> bytes" where
  "name_bytes ls = concat (map (\<lambda>l. of_nat (length l) # l) ls) @ [0]"

definition query :: "byte \<Rightarrow> byte \<Rightarrow> bool \<Rightarrow> bytes list \<Rightarrow> u16 \<Rightarrow> bytes \<Rightarrow> bytes" where
  "query id0 id1 rd ls qtype extra =
     [id0, id1, (if rd then 1 else 0), 0, 0, 1, 0, 0, 0, 0, 0, (if extra = [] then 0 else 1)]
     @ name_bytes ls @ [of_nat (unat qtype div 256), of_nat (unat qtype mod 256), 0, 1] @ extra"

definition response :: "byte \<Rightarrow> byte \<Rightarrow> bool \<Rightarrow> bytes list \<Rightarrow> u16 \<Rightarrow> bytes" where
  "response id0 id1 rd ls qtype =
     [id0, id1, (if rd then 0x85 else 0x84), 0x80, 0, 1, 0, (if qtype = 1 then 1 else 0), 0, 0, 0, 0]
     @ name_bytes ls @ [of_nat (unat qtype div 256), of_nat (unat qtype mod 256), 0, 1]
     @ (if qtype = 1 then dns_answer else [])"

lemma name_end_labels:
  assumes "list_all label_ok ls"
  shows "name_end (pre @ name_bytes ls @ post) (length pre) = length pre + length (name_bytes ls) - 1"
  using assms
proof (induction ls arbitrary: pre)
  case Nil
  then show ?case by (subst name_end.simps) (simp add: name_bytes_def)
next
  case (Cons l ls)
  let ?b = "pre @ name_bytes (l # ls) @ post"
  have l: "l \<noteq> []" "length l < 64" using Cons.prems by (simp_all add: label_ok_def)
  then have len: "unat (of_nat (length l) :: byte) = length l" "(of_nat (length l) :: byte) \<noteq> 0"
    by (simp_all add: unat_of_nat take_bit_eq_mod) (simp add: word_unat_eq_iff unat_of_nat take_bit_eq_mod)
  have b: "?b = (pre @ of_nat (length l) # l) @ name_bytes ls @ post" by (simp add: name_bytes_def)
  have "name_end ?b (length pre) = name_end ?b (length pre + length l + 1)"
    using len by (subst name_end.simps) (simp add: name_bytes_def)
  also have "\<dots> = length (pre @ of_nat (length l) # l) + length (name_bytes ls) - 1"
    unfolding b using Cons.IH [of "pre @ of_nat (length l) # l"] Cons.prems by simp
  finally show ?case by (simp add: name_bytes_def)
qed

lemma be_nat_split:
  "be_nat [of_nat (unat (t :: u16) div 256), of_nat (unat t mod 256)] = unat t"
proof -
  have "unat t < 65536" using unsigned_less [of t] by simp
  then have "unat t div 256 < 256" by (simp add: div_less_iff_less_mult)
  then show ?thesis by (simp add: unat_of_nat take_bit_eq_mod)
qed

lemma dns_answers_query_aux:
  assumes "list_all label_ok ls" "length (name_bytes ls) \<le> 480"
  shows "dns_reply (query id0 id1 rd ls qtype extra) = Some (response id0 id1 rd ls qtype)"
proof -
  let ?h = "[id0, id1, (if rd then 1 else 0), 0, 0, 1, 0, 0, 0, 0, 0, (if extra = [] then 0 else 1)] :: bytes"
  let ?nm = "name_bytes ls" and ?t = "[of_nat (unat qtype div 256), of_nat (unat qtype mod 256), 0, 1] :: bytes"
  let ?b = "query id0 id1 rd ls qtype extra" and ?q = "12 + length ?nm + 4"
  have b: "?b = ?h @ ?nm @ ?t @ extra" by (simp add: query_def)
  have nm: "0 < length ?nm" by (simp add: name_bytes_def)
  have "name_end (?h @ ?nm @ ?t @ extra) (length ?h) = length ?h + length ?nm - 1"
    by (rule name_end_labels [OF assms(1)])
  moreover have "length ?h = 12" by simp
  ultimately have q: "name_end ?b 12 + 5 = ?q" using nm unfolding b by (simp only:)
  have n: "\<not> (length ?b < 12 \<or> ?b ! 2 AND 0x80 \<noteq> 0 \<or> ?b ! 5 \<noteq> 1)" "\<not> (?q > length ?b \<or> ?q + 16 > DNS_BUF)"
    using assms(2) by (auto simp: query_def DNS_BUF_def)
  have rest: "?b ! (?q - 4) = ?t ! 0" "?b ! (?q - 3) = ?t ! 1"
    unfolding b by (simp_all add: nth_append)
  have type: "be_nat [?b ! (?q - 4), ?b ! (?q - 3)] = 1 \<longleftrightarrow> qtype = 1"
    unfolding rest using be_nat_split [of qtype] by (simp del: be_nat_Cons) (simp add: word_unat_eq_iff)
  have rd: "0x84 OR (?b ! 2 AND 0x01) = (if rd then 0x85 else 0x84)" by (simp add: query_def)
  let ?h' = "[id0, id1, (if rd then 0x85 else 0x84), 0x80, 0, 1, 0, (if qtype = 1 then 1 else 0), 0, 0, 0, 0] :: bytes"
  have upd: "?b[2 := (if rd then 0x85 else 0x84), 3 := 0x80, 6 := 0, 7 := (if qtype = 1 then 1 else 0), 8 := 0, 9 := 0,
      10 := 0, 11 := 0] = ?h' @ ?nm @ ?t @ extra"
    by (simp add: b)
  have "take ?q (h @ ?nm @ ?t @ extra) = h @ ?nm @ ?t" if "length h = 12" for h
    using that by simp
  from this [of ?h'] have "take ?q (?h' @ ?nm @ ?t @ extra) = ?h' @ ?nm @ ?t" by (simp only: list.size)
  then show ?thesis
    unfolding dns_reply_def Let_def q type rd if_not_P [OF n(1)] if_not_P [OF n(2)] upd response_def
    by (simp only: append_assoc)
qed

text \<open>
  The portal answers every A query with its own address. For any name of valid labels that fits, any
  query type and anything appended (an EDNS record), the reply is the question echoed with the
  response, authoritative and recursion bits set, and exactly the one address record for type A.
\<close>

theorem dns_answers_query:
  assumes "list_all label_ok ls" "length (name_bytes ls) \<le> 480"
  shows "dns_reply (query id0 id1 rd ls qtype extra) = Some (response id0 id1 rd ls qtype)"
  using assms by (rule dns_answers_query_aux)

theorem dns_answers_query_witness:
  "dns_reply (query 0x12 0x34 True [ascii ''captive'', ascii ''apple'', ascii ''com''] 1 [])
   = Some (response 0x12 0x34 True [ascii ''captive'', ascii ''apple'', ascii ''com''] 1)"
  using dns_answers_query [of "[ascii ''captive'', ascii ''apple'', ascii ''com'']" "0x12" "0x34" True 1 "[]"]
  by (simp add: label_ok_def name_bytes_def) (simp add: ascii_def)

section \<open>Any datagram\<close>

text \<open>
  No datagram makes the responder write or send past its buffer, and its answers are never queries: a
  reply that comes back is dropped, so two responders cannot answer each other for ever.
\<close>

theorem dns_reply_safe:
  assumes "dns_reply buf = Some r"
  shows "length r \<le> 512 \<and> take 2 r = take 2 buf \<and> dns_reply r = None"
proof -
  let ?q = "name_end buf 12 + 5"
  have le: "12 \<le> name_end b k" if "12 \<le> k" for b k
    using that by (induction b k rule: name_end.induct) (subst name_end.simps, auto)
  have n: "12 \<le> length buf" "?q \<le> length buf" "?q + 16 \<le> 512" "17 \<le> ?q"
    using assms le [of 12 buf] by (auto simp: dns_reply_def Let_def DNS_BUF_def split: if_splits)
  define T where "T \<longleftrightarrow> be_nat [buf ! (?q - 4), buf ! (?q - 3)] = 1"
  define w c where "w = (if T then 1 else 0 :: byte)" and "c = (if T then dns_answer else [])"
  have g: "\<not> (length buf < 12 \<or> buf ! 2 AND 0x80 \<noteq> 0 \<or> buf ! 5 \<noteq> 1)" "\<not> (?q > length buf \<or> ?q + 16 > DNS_BUF)"
    using assms by (auto simp: dns_reply_def Let_def split: if_splits)
  have "dns_reply buf = Some (take ?q (buf[2 := 0x84 OR (buf ! 2 AND 0x01), 3 := 0x80, 6 := 0, 7 := w, 8 := 0, 9 := 0,
      10 := 0, 11 := 0]) @ c)"
    unfolding dns_reply_def Let_def if_not_P [OF g(1)] if_not_P [OF g(2)] w_def c_def T_def by (rule refl)
  then have r: "r = take ?q (buf[2 := 0x84 OR (buf ! 2 AND 0x01), 3 := 0x80, 6 := 0, 7 := w, 8 := 0, 9 := 0,
      10 := 0, 11 := 0]) @ c"
    using assms by simp
  have c: "length c \<le> 16" by (simp add: c_def dns_answer_def)
  have "r ! 2 = 0x84 OR (buf ! 2 AND 0x01)" using n unfolding r by (simp add: nth_append)
  moreover have "(0x84 OR x :: byte) AND 0x80 \<noteq> 0" for x
  proof -
    have "bit ((0x84 OR x :: byte) AND 0x80) 7" by (simp add: bit_simps)
    then show ?thesis by auto
  qed
  ultimately have "dns_reply r = None" by (simp add: dns_reply_def)
  moreover have "take 2 r = take 2 buf" using n unfolding r by simp
  ultimately show ?thesis using n c by (simp add: r)
qed

theorem dns_reply_safe_witness:
  "dns_reply (response 0x12 0x34 False [ascii ''a''] 1) = None"
proof -
  have "dns_reply (query 0x12 0x34 False [ascii ''a''] 1 []) = Some (response 0x12 0x34 False [ascii ''a''] 1)"
    by (rule dns_answers_query_aux) (simp_all add: label_ok_def name_bytes_def ascii_def)
  from dns_reply_safe [OF this] show ?thesis by simp
qed

end
