(* ===== verification/Pump.thy ===== *)
theory Pump
  imports Complex_Main Controls
begin

text \<open>
  The pump simulation of \<^verbatim>\<open>src/lib/common/sim_pump.c\<close> that the Modbus server serves: one step
  per sample interval, driven by the control points. \<open>double\<close> arithmetic is read as exact
  arithmetic on the reals and \<open>sin\<close> of the C library as the sine; what the theorems say of whole
  register values holds up to the rounding of that arithmetic.
\<close>

section \<open>The simulation\<close>

abbreviation (input) RPM_MAX :: real where "RPM_MAX \<equiv> 2900"
abbreviation (input) FLOW_MAX :: real where "FLOW_MAX \<equiv> 150"
abbreviation (input) PRESSURE_MAX :: real where "PRESSURE_MAX \<equiv> 6"
abbreviation (input) VIB_IDLE :: real where "VIB_IDLE \<equiv> 3 / 10"
abbreviation (input) VIB_GAIN :: real where "VIB_GAIN \<equiv> 38 / 10"
abbreviation (input) AMBIENT_C :: real where "AMBIENT_C \<equiv> 25"
abbreviation (input) TEMP_RISE_C :: real where "TEMP_RISE_C \<equiv> 70"
abbreviation (input) OVERTEMP_C :: real where "OVERTEMP_C \<equiv> 85"
abbreviation (input) RAMP_K :: real where "RAMP_K \<equiv> 1 / 4"
abbreviation (input) THERMAL_K :: real where "THERMAL_K \<equiv> 3 / 100"
abbreviation (input) AUTO_DUTY :: real where "AUTO_DUTY \<equiv> 75"

abbreviation (input) MODE_OFF :: int where "MODE_OFF \<equiv> 0"
abbreviation (input) MODE_AUTO :: int where "MODE_AUTO \<equiv> 1"
abbreviation (input) MODE_MANUAL :: int where "MODE_MANUAL \<equiv> 2"

abbreviation (input) M_COUNT :: nat where "M_COUNT \<equiv> 6"

record data_measurement =
  dm_name :: string
  dm_unit :: string

definition descriptors :: "data_measurement list" where
  "descriptors =
     [\<lparr>dm_name = ''flow_lpm'', dm_unit = ''L/min''\<rparr>,
      \<lparr>dm_name = ''pressure_bar'', dm_unit = ''bar''\<rparr>,
      \<lparr>dm_name = ''motor_temp_c'', dm_unit = ''Cel''\<rparr>,
      \<lparr>dm_name = ''rpm'', dm_unit = ''rpm''\<rparr>,
      \<lparr>dm_name = ''vibration_mms'', dm_unit = ''mm/s''\<rparr>,
      \<lparr>dm_name = ''run_hours'', dm_unit = ''h''\<rparr>]"

record pump =
  pvalues :: "real list"
  speed_pct :: real
  motor_temp_c :: real
  run_hours :: real
  pfault :: bool
  step_n :: u32

text \<open>The statics as the program starts with them, and \<open>data_source_init\<close>.\<close>

definition pump_boot :: pump where
  "pump_boot = \<lparr>pvalues = replicate M_COUNT 0, speed_pct = 0, motor_temp_c = AMBIENT_C,
     run_hours = 0, pfault = False, step_n = 0\<rparr>"

definition data_source_init :: "pump \<Rightarrow> pump" where
  "data_source_init p =
     p\<lparr>motor_temp_c := AMBIENT_C, pvalues := (pvalues p)[MEAS_MOTOR_TEMP := AMBIENT_C]\<rparr>"

definition dt_seconds :: "nat \<Rightarrow> real" where
  "dt_seconds interval_ms = real interval_ms / 1000"

definition pump_active :: "controls \<Rightarrow> bool" where
  "pump_active c \<longleftrightarrow> g_running c \<and> g_mode c \<noteq> MODE_OFF"

definition commanded :: "controls \<Rightarrow> u32 \<Rightarrow> real" where
  "commanded c n =
     (let cmd = (if pump_active c then
                   if g_mode c = MODE_MANUAL then real_of_int (g_setpoint c)
                   else AUTO_DUTY + 5 * sin (real (unat n) * (5 / 100))
                 else 0);
          cmd = (if cmd < 0 then 0 else cmd)
      in if cmd > 100 then 100 else cmd)"

text \<open>\<open>sim_step\<close>, one turn of the delayable work item, which then schedules itself again.\<close>

definition sim_step :: "nat \<Rightarrow> controls \<Rightarrow> pump \<Rightarrow> pump" where
  "sim_step interval_ms c p =
     (let cmd = commanded c (step_n p);
          speed = speed_pct p + (cmd - speed_pct p) * RAMP_K;
          speed = (if speed < 5 / 100 then 0 else speed);
          s = speed / 100;
          j = sin (real (unat (step_n p)) * (7 / 10));
          target = AMBIENT_C + s * TEMP_RISE_C;
          temp = motor_temp_c p + (target - motor_temp_c p) * THERMAL_K;
          hours = (if pump_active c then run_hours p + dt_seconds interval_ms / 3600 else run_hours p)
      in \<lparr>pvalues =
            [s * FLOW_MAX * (1 + 1 / 100 * j),
             s * s * PRESSURE_MAX * (1 + 1 / 100 * j),
             temp,
             s * RPM_MAX,
             max 0 ((if s > 0 then VIB_IDLE + s * VIB_GAIN else 0) + 5 / 100 * j),
             hours],
          speed_pct = speed, motor_temp_c = temp, run_hours = hours,
          pfault = temp > OVERTEMP_C, step_n = step_n p + 1\<rparr>)"

definition data_source_count :: nat where
  "data_source_count = M_COUNT"

definition data_source_descriptor :: "nat \<Rightarrow> data_measurement option" where
  "data_source_descriptor i = (if i \<ge> M_COUNT then None else Some (descriptors ! i))"

definition data_source_sample :: "pump \<Rightarrow> nat \<Rightarrow> real" where
  "data_source_sample p i = (if i \<ge> M_COUNT then 0 else pvalues p ! i)"

definition app_sim_fault :: "pump \<Rightarrow> bool" where
  "app_sim_fault p = pfault p"

section \<open>What the Modbus server reads of it\<close>

text \<open>
  The conversion of a sample to an unsigned integer: towards zero, defined by the C standard only
  for values the type can hold. The bits of a sample as a \<open>float\<close> are a parameter.
\<close>

definition c_uint :: "real \<Rightarrow> u32" where
  "c_uint x = word_of_int (if x < 0 then - \<lfloor>- x\<rfloor> else \<lfloor>x\<rfloor>)"

definition pump_inputs :: "(real \<Rightarrow> u32) \<Rightarrow> bool \<Rightarrow> pump \<Rightarrow> modbus_inputs" where
  "pump_inputs float_bits online p =
     \<lparr>scaled = (\<lambda>m k. c_uint (data_source_sample p m * real k)),
      fbits = (\<lambda>m. float_bits (data_source_sample p m)),
      sim_fault = app_sim_fault p, net_connected = online\<rparr>"

section \<open>Invariant\<close>

text \<open>
  The values a client can be served, whatever the controls are: the motor between standstill and
  full speed, the temperature between ambient and the full-speed steady state.
\<close>

definition pump_ok :: "pump \<Rightarrow> bool" where
  "pump_ok p \<longleftrightarrow> 0 \<le> speed_pct p \<and> speed_pct p \<le> 100
     \<and> AMBIENT_C \<le> motor_temp_c p \<and> motor_temp_c p \<le> AMBIENT_C + TEMP_RISE_C
     \<and> 0 \<le> run_hours p \<and> length (pvalues p) = M_COUNT
     \<and> 0 \<le> pvalues p ! 0 \<and> pvalues p ! 0 \<le> 152
     \<and> 0 \<le> pvalues p ! 1 \<and> pvalues p ! 1 \<le> 7
     \<and> 0 \<le> pvalues p ! 2 \<and> pvalues p ! 2 \<le> 95
     \<and> 0 \<le> pvalues p ! 3 \<and> pvalues p ! 3 \<le> 2900
     \<and> 0 \<le> pvalues p ! 4 \<and> pvalues p ! 4 \<le> 5
     \<and> pvalues p ! 5 = run_hours p"

lemma commanded_range: "0 \<le> commanded c n \<and> commanded c n \<le> 100"
  by (simp add: commanded_def Let_def)

lemma convex_step:
  fixes x y k lo hi :: real
  assumes "0 \<le> k" "k \<le> 1" "lo \<le> x" "x \<le> hi" "lo \<le> y" "y \<le> hi"
  shows "lo \<le> x + (y - x) * k \<and> x + (y - x) * k \<le> hi"
proof -
  have e: "x + (y - x) * k = (1 - k) * x + k * y" by (simp add: algebra_simps)
  have "lo = (1 - k) * lo + k * lo" "hi = (1 - k) * hi + k * hi" by (simp_all add: algebra_simps)
  moreover have "(1 - k) * lo \<le> (1 - k) * x" "k * lo \<le> k * y" "(1 - k) * x \<le> (1 - k) * hi" "k * y \<le> k * hi"
    using assms by (auto intro: mult_left_mono)
  ultimately show ?thesis unfolding e by linarith
qed

text \<open>The parts of a step, each under a name of its own.\<close>

definition next_speed :: "controls \<Rightarrow> pump \<Rightarrow> real" where
  "next_speed c p =
     (let v = speed_pct p + (commanded c (step_n p) - speed_pct p) * RAMP_K in if v < 5 / 100 then 0 else v)"

definition next_temp :: "controls \<Rightarrow> pump \<Rightarrow> real" where
  "next_temp c p = motor_temp_c p
     + (AMBIENT_C + next_speed c p / 100 * TEMP_RISE_C - motor_temp_c p) * THERMAL_K"

lemma sim_step_parts [simp]:
  "speed_pct (sim_step ms c p) = next_speed c p"
  "motor_temp_c (sim_step ms c p) = next_temp c p"
  "pfault (sim_step ms c p) \<longleftrightarrow> next_temp c p > OVERTEMP_C"
  "step_n (sim_step ms c p) = step_n p + 1"
  "run_hours (sim_step ms c p) = run_hours p + (if pump_active c then dt_seconds ms / 3600 else 0)"
  by (simp_all add: sim_step_def next_speed_def next_temp_def Let_def)

lemma next_speed_range:
  assumes "0 \<le> speed_pct p" "speed_pct p \<le> hi" "commanded c (step_n p) \<le> hi"
  shows "0 \<le> next_speed c p \<and> next_speed c p \<le> hi"
  using convex_step [of "1 / 4" 0 "speed_pct p" hi "commanded c (step_n p)"] assms commanded_range
  by (auto simp: next_speed_def Let_def)

lemma next_temp_range:
  assumes "AMBIENT_C \<le> motor_temp_c p" "motor_temp_c p \<le> AMBIENT_C + hi / 100 * TEMP_RISE_C"
    and "0 \<le> next_speed c p" "next_speed c p \<le> hi"
  shows "AMBIENT_C \<le> next_temp c p \<and> next_temp c p \<le> AMBIENT_C + hi / 100 * TEMP_RISE_C"
  unfolding next_temp_def by (rule convex_step) (use assms in auto)

lemma jitter_range: "- 1 / 100 \<le> 1 / 100 * sin x \<and> 1 / 100 * sin x \<le> (1 / 100 :: real)"
  using sin_le_one [of x] sin_ge_minus_one [of x] by simp

lemma scaled_jitter:
  fixes a x hi :: real
  assumes "0 \<le> a" "a \<le> hi"
  shows "0 \<le> a * (1 + 1 / 100 * sin x) \<and> a * (1 + 1 / 100 * sin x) \<le> hi * (101 / 100)"
proof -
  have "0 \<le> 1 + 1 / 100 * sin x" "1 + 1 / 100 * sin x \<le> 101 / 100" using jitter_range [of x] by linarith+
  then show ?thesis using assms by (intro conjI mult_nonneg_nonneg mult_mono) auto
qed

lemma sim_step_ok:
  assumes "pump_ok p"
  shows "pump_ok (sim_step ms c p)"
proof -
  let ?q = "sim_step ms c p" and ?v = "next_speed c p" and ?t = "next_temp c p"
  let ?j = "sin (real (unat (step_n p)) * (7 / 10))"
  have v: "0 \<le> ?v" "?v \<le> 100" using next_speed_range [of p 100 c] assms commanded_range by (auto simp: pump_ok_def)
  have t: "25 \<le> ?t" "?t \<le> 95" using next_temp_range [of p 100 c] assms v by (auto simp: pump_ok_def)
  have s: "0 \<le> ?v / 100 * (?v / 100)" "?v / 100 * (?v / 100) \<le> 1"
    using v mult_mono [of "?v / 100" 1 "?v / 100" 1] by auto
  have vals: "pvalues ?q =
      [?v / 100 * 150 * (1 + 1 / 100 * ?j), ?v / 100 * (?v / 100) * 6 * (1 + 1 / 100 * ?j), ?t,
       ?v / 100 * 2900, max 0 ((if ?v / 100 > 0 then 3 / 10 + ?v / 100 * (38 / 10) else 0) + 5 / 100 * ?j),
       run_hours ?q]"
    by (simp add: sim_step_def next_speed_def next_temp_def Let_def)
  have j: "5 / 100 * ?j \<le> 5 / 100" using sin_le_one [of "real (unat (step_n p)) * (7 / 10)"] by simp
  have f: "0 \<le> ?v / 100 * 150 * (1 + 1 / 100 * ?j)" "?v / 100 * 150 * (1 + 1 / 100 * ?j) \<le> 150 * (101 / 100)"
    using scaled_jitter [of "?v / 100 * 150" 150] v by auto
  have g: "0 \<le> ?v / 100 * (?v / 100) * 6 * (1 + 1 / 100 * ?j)"
    "?v / 100 * (?v / 100) * 6 * (1 + 1 / 100 * ?j) \<le> 6 * (101 / 100)"
    using scaled_jitter [of "?v / 100 * (?v / 100) * 6" 6] s by auto
  have m: "0 \<le> max 0 w \<and> (w \<le> 5 \<longrightarrow> max 0 w \<le> 5)" for w :: real by simp
  have "(if ?v / 100 > 0 then 3 / 10 + ?v / 100 * (38 / 10) else 0) \<le> (4 + 1 / 10 :: real)"
    using v by (simp split: if_split)
  with j have w: "(if ?v / 100 > 0 then 3 / 10 + ?v / 100 * (38 / 10) else 0) + 5 / 100 * ?j \<le> 5"
    by linarith
  have h: "0 \<le> run_hours ?q" using assms by (simp add: pump_ok_def dt_seconds_def)
  have "0 \<le> ?t" using t by linarith
  then show ?thesis
    unfolding pump_ok_def vals using v t f g h m w by (simp add: eval_nat_numeral)
qed

interpretation pumpsys: event_system "sim_step ms" pump_ok for ms
  by unfold_locales (rule sim_step_ok)

lemma init_ok: "pump_ok (data_source_init pump_boot)"
  by (simp add: pump_ok_def data_source_init_def pump_boot_def eval_nat_numeral)

section \<open>What is served fits its registers\<close>

lemma uint_c_uint: "0 \<le> x \<Longrightarrow> x < 4294967296 \<Longrightarrow> uint (c_uint x) = \<lfloor>x\<rfloor>"
  by (simp add: c_uint_def uint_word_of_int floor_less_iff)

lemma uint_reg:
  assumes "0 \<le> x" "x < 65536"
  shows "uint (ucast (c_uint x) :: u16) = \<lfloor>x\<rfloor>"
proof -
  have "\<lfloor>x\<rfloor> < 65536" "0 \<le> \<lfloor>x\<rfloor>" using assms by (simp_all add: floor_less_iff)
  then show ?thesis
    using uint_c_uint [of x] assms by (simp add: unsigned_ucast_eq take_bit_eq_mod)
qed

text \<open>
  C39. Whatever the controls have been, each of the scaled input registers reads exactly its
  measurement in the register's unit, rounded down: no value is negative, none needs more than
  the 16 bits, and the motor temperature fits the signed register it is documented as.
\<close>

theorem registers_hold_measurements:
  fixes cs :: "controls list" and ms :: nat and fb :: "real \<Rightarrow> u32" and online :: bool
  defines "p \<equiv> fold (sim_step ms) cs (data_source_init pump_boot)"
  defines "rd \<equiv> \<lambda>a. map_sum id uint (input_reg_rd (pump_inputs fb online p) a)"
  shows "rd 0 = Inr \<lfloor>data_source_sample p MEAS_FLOW * 10\<rfloor>
    \<and> rd 1 = Inr \<lfloor>data_source_sample p MEAS_PRESSURE * 100\<rfloor>
    \<and> rd 2 = Inr \<lfloor>data_source_sample p MEAS_MOTOR_TEMP * 10\<rfloor>
    \<and> rd 3 = Inr \<lfloor>data_source_sample p MEAS_RPM\<rfloor>
    \<and> rd 4 = Inr \<lfloor>data_source_sample p MEAS_VIBRATION * 100\<rfloor>
    \<and> data_source_sample p MEAS_MOTOR_TEMP * 10 < 32768"
proof -
  have "pump_ok p"
    unfolding p_def using pumpsys.run_keeps [OF init_ok] by (simp add: pumpsys.run_def)
  then have v: "0 \<le> pvalues p ! 0 * 10 \<and> pvalues p ! 0 * 10 < 65536"
    "0 \<le> pvalues p ! 1 * 100 \<and> pvalues p ! 1 * 100 < 65536"
    "0 \<le> pvalues p ! 2 * 10 \<and> pvalues p ! 2 * 10 < 65536"
    "0 \<le> pvalues p ! 3 \<and> pvalues p ! 3 < 65536"
    "0 \<le> pvalues p ! 4 * 100 \<and> pvalues p ! 4 * 100 < 65536"
    "pvalues p ! 2 * 10 < 32768"
    by (auto simp: pump_ok_def)
  show ?thesis
    unfolding rd_def input_reg_rd_def pump_inputs_def data_source_sample_def
    using v by (simp add: uint_reg)
qed

section \<open>Coasting down\<close>

lemma next_speed_off:
  "\<not> pump_active c \<Longrightarrow> next_speed c p = (if speed_pct p * 3 / 4 < 5 / 100 then 0 else speed_pct p * 3 / 4)"
  by (auto simp: next_speed_def commanded_def Let_def)

lemma coast_speed:
  fixes ms :: nat
  assumes "\<forall>c \<in> set cs. \<not> pump_active c" "pump_ok p"
  defines "q \<equiv> fold (sim_step ms) cs p"
  shows "speed_pct q \<le> 100 * (3 / 4) ^ length cs \<and> run_hours q = run_hours p
    \<and> (cs \<noteq> [] \<longrightarrow> speed_pct q = 0 \<or> 5 / 100 \<le> speed_pct q)"
  unfolding q_def using assms(1)
proof (induction cs rule: rev_induct)
  case Nil
  then show ?case using assms(2) by (simp add: pump_ok_def)
next
  case (snoc c cs)
  then show ?case by (auto simp: next_speed_off)
qed

lemma coast_temp:
  assumes "\<forall>c \<in> set cs. \<not> pump_active c" "pump_ok p" "speed_pct p = 0"
  shows "motor_temp_c (fold (sim_step ms) cs p) - 25 \<le> 70 * (97 / 100) ^ length cs"
  using assms
proof (induction cs arbitrary: p rule: rev_induct)
  case Nil
  then show ?case by (simp add: pump_ok_def)
next
  case (snoc c cs)
  let ?q = "fold (sim_step ms) cs p"
  have "speed_pct ?q = 0"
    using snoc.prems(1, 3) by (induction cs rule: rev_induct) (auto simp: next_speed_off)
  then have "next_speed c ?q = 0" using snoc.prems(1) by (simp add: next_speed_off)
  then have "next_temp c ?q - 25 = (motor_temp_c ?q - 25) * (97 / 100)"
    by (simp add: next_temp_def field_simps)
  moreover have "motor_temp_c ?q - 25 \<le> 70 * (97 / 100) ^ length cs"
    using snoc.IH [OF _ snoc.prems(2, 3)] snoc.prems(1) by auto
  then have "(motor_temp_c ?q - 25) * (97 / 100) \<le> 70 * (97 / 100) ^ length cs * (97 / 100)"
    by (intro mult_right_mono) auto
  ultimately show ?case by simp
qed

text \<open>
  C40. A pump that is switched off comes to rest: however fast it ran, after 27 steps the motor, the
  flow and the pressure are exactly zero and stay there, the running time no longer grows, and
  after 33 steps a tripped over-temperature fault is gone.
\<close>

theorem pump_comes_to_rest:
  fixes ms :: nat
  assumes "pump_ok p" "\<forall>c \<in> set cs. \<not> pump_active c"
  defines "q \<equiv> fold (sim_step ms) cs p"
  shows "(27 \<le> length cs \<longrightarrow> data_source_sample q MEAS_RPM = 0 \<and> data_source_sample q MEAS_FLOW = 0
      \<and> data_source_sample q MEAS_PRESSURE = 0)
    \<and> (33 \<le> length cs \<longrightarrow> \<not> app_sim_fault q)
    \<and> run_hours q = run_hours p"
proof (intro conjI impI)
  have still: "speed_pct (fold (sim_step ms) cs' p) = 0"
    if "27 \<le> length cs'" "\<forall>c \<in> set cs'. \<not> pump_active c" for cs'
  proof -
    have "(3 / 4 :: real) ^ length cs' \<le> (3 / 4) ^ 27" using that(1) by (intro power_decreasing) auto
    moreover have "100 * (3 / 4 :: real) ^ 27 < 5 / 100" by (simp add: power_divide)
    ultimately have "speed_pct (fold (sim_step ms) cs' p) < 5 / 100"
      using coast_speed [OF that(2) assms(1), of ms] by linarith
    moreover have "cs' \<noteq> []" using that(1) by auto
    ultimately show ?thesis using coast_speed [OF that(2) assms(1), of ms] by auto
  qed
  have zero: "pvalues q ! 0 = 0 \<and> pvalues q ! 1 = 0 \<and> pvalues q ! 3 = 0" if n: "27 \<le> length cs"
  proof -
    obtain cs' c where cs: "cs = cs' @ [c]" using n by (cases cs rule: rev_cases) auto
    have "speed_pct q = 0" unfolding q_def by (rule still [OF n assms(2)])
    then have "next_speed c (fold (sim_step ms) cs' p) = 0" by (simp add: q_def cs)
    then show ?thesis by (simp add: q_def cs sim_step_def next_speed_def Let_def)
  qed
  then show "data_source_sample q MEAS_RPM = 0" "data_source_sample q MEAS_FLOW = 0"
    "data_source_sample q MEAS_PRESSURE = 0" if "27 \<le> length cs"
    using that by (simp_all add: data_source_sample_def)
  show "run_hours q = run_hours p" using coast_speed [OF assms(2, 1)] by (simp add: q_def)
  show "\<not> app_sim_fault q" if n: "33 \<le> length cs"
  proof -
    define a b where "a = take 27 cs" and "b = drop 27 cs"
    have cs: "cs = a @ b" and la: "length a = 27" and lb: "6 \<le> length b" using n by (auto simp: a_def b_def)
    let ?m = "fold (sim_step ms) a p"
    have m: "pump_ok ?m" using pumpsys.run_keeps [OF assms(1), of ms a] by (simp add: pumpsys.run_def)
    have "motor_temp_c q - 25 \<le> 70 * (97 / 100) ^ length b"
      unfolding q_def cs fold_append o_apply
      by (rule coast_temp) (use assms(2) cs still la m in auto)
    moreover have "(97 / 100 :: real) ^ length b \<le> (97 / 100) ^ 6" using lb by (intro power_decreasing) auto
    moreover have "70 * (97 / 100 :: real) ^ 6 < 60" by (simp add: power_divide)
    ultimately have t: "motor_temp_c q < 85" by linarith
    obtain cs' c where "cs = cs' @ [c]" using n by (cases cs rule: rev_cases) auto
    with t show ?thesis by (simp add: q_def app_sim_fault_def)
  qed
qed

theorem pump_comes_to_rest_witness:
  "data_source_sample (fold (sim_step 1000) (replicate 30 (controls_init default_controls_cfg))
     (sim_step 1000 (controls_init default_controls_cfg\<lparr>g_running := True, g_mode := 2, g_setpoint := 100\<rparr>)
       (data_source_init pump_boot))) MEAS_RPM = 0"
  using pump_comes_to_rest [of "sim_step 1000
      (controls_init default_controls_cfg\<lparr>g_running := True, g_mode := 2, g_setpoint := 100\<rparr>)
      (data_source_init pump_boot)" "replicate 30 (controls_init default_controls_cfg)" 1000]
  by (simp add: sim_step_ok init_ok pump_active_def controls_init_def default_controls_cfg_def)

section \<open>The over-temperature trip\<close>

definition mild :: "controls \<Rightarrow> bool" where
  "mild c \<longleftrightarrow> \<not> pump_active c \<or> g_mode c \<noteq> MODE_MANUAL \<or> g_setpoint c \<le> 85"

lemma mild_commanded: "mild c \<Longrightarrow> commanded c n \<le> 85"
  using sin_le_one [of "real (unat n) / 20"] by (auto simp: mild_def commanded_def Let_def simp del: sin_le_one)

definition cool :: "pump \<Rightarrow> bool" where
  "cool p \<longleftrightarrow> 0 \<le> speed_pct p \<and> speed_pct p \<le> 85 \<and> 25 \<le> motor_temp_c p \<and> motor_temp_c p \<le> 25 + 85 / 100 * 70
     \<and> \<not> pfault p"

interpretation coolsys: guarded_system "sim_step ms" mild cool for ms
proof (unfold_locales)
  fix c :: controls and p :: pump
  assume c: "mild c" "cool p"
  have v: "0 \<le> next_speed c p \<and> next_speed c p \<le> 85"
    by (rule next_speed_range) (use c mild_commanded in \<open>auto simp: cool_def\<close>)
  then have "25 \<le> next_temp c p \<and> next_temp c p \<le> 25 + 85 / 100 * 70"
    by (intro next_temp_range) (use c in \<open>auto simp: cool_def\<close>)
  with v show "cool (sim_step ms c p)" by (simp add: cool_def)
qed

lemma full_load_step:
  assumes "pump_active c" "g_mode c = MODE_MANUAL" "100 \<le> g_setpoint c" "pump_ok p"
    and "100 - speed_pct p \<le> e" "95 - motor_temp_c p \<le> d"
  shows "100 - next_speed c p \<le> e * 3 / 4 \<and> 95 - next_temp c p \<le> d * 97 / 100 + e * 63 / 4000"
proof -
  have c: "commanded c (step_n p) = 100" using assms(1-3) by (simp add: commanded_def Let_def)
  have r: "0 \<le> speed_pct p" "speed_pct p \<le> 100" using assms(4) by (simp_all add: pump_ok_def)
  have v: "next_speed c p = speed_pct p + (100 - speed_pct p) / 4"
    unfolding next_speed_def Let_def c by (subst if_not_P) (use r in \<open>simp_all add: field_simps\<close>)
  have t: "next_temp c p = motor_temp_c p + (25 + next_speed c p / 100 * 70 - motor_temp_c p) * (3 / 100)"
    by (simp add: next_temp_def)
  show ?thesis unfolding t v using assms(5, 6) by (auto simp: field_simps)
qed

lemma full_load:
  assumes "\<forall>c \<in> set cs. pump_active c \<and> g_mode c = MODE_MANUAL \<and> 100 \<le> g_setpoint c" "pump_ok p"
    and "100 - speed_pct p \<le> e" "0 \<le> e"
  shows "100 - speed_pct (fold (sim_step ms) cs p) \<le> e * (3 / 4) ^ length cs
    \<and> 95 - motor_temp_c (fold (sim_step ms) cs p) \<le> 70 * (97 / 100) ^ length cs + e * 21 / 40"
  using assms(1)
proof (induction cs rule: rev_induct)
  case Nil
  then show ?case using assms(2-4) by (simp add: pump_ok_def)
next
  case (snoc c cs)
  let ?q = "fold (sim_step ms) cs p"
  have q: "pump_ok ?q" using pumpsys.run_keeps [OF assms(2), of ms cs] by (simp add: pumpsys.run_def)
  have IH: "100 - speed_pct ?q \<le> e * (3 / 4) ^ length cs"
    "95 - motor_temp_c ?q \<le> 70 * (97 / 100) ^ length cs + e * 21 / 40" using snoc by auto
  have p1: "e * (3 / 4) ^ length cs \<le> e" using assms(4) by (intro mult_left_le) (auto simp: power_le_one)
  have "100 - next_speed c ?q \<le> e * (3 / 4) ^ length cs * 3 / 4"
    using full_load_step [OF _ _ _ q IH] snoc.prems by auto
  moreover have "95 - next_temp c ?q
      \<le> (70 * (97 / 100) ^ length cs + e * 21 / 40) * 97 / 100 + e * (3 / 4) ^ length cs * 63 / 4000"
    using full_load_step [OF _ _ _ q IH] snoc.prems by auto
  moreover have "(70 * (97 / 100) ^ length cs + e * 21 / 40) * 97 / 100 + e * (3 / 4) ^ length cs * 63 / 4000
      \<le> 70 * (97 / 100) ^ Suc (length cs) + e * 21 / 40"
  proof -
    have "(70 * x + e * 21 / 40) * 97 / 100 + y * 63 / 4000 \<le> 70 * (97 / 100 * x) + e * 21 / 40"
      if "y \<le> e" for x y :: real
      using that by (simp add: field_simps)
    from this [OF p1] show ?thesis unfolding power_Suc .
  qed
  ultimately show ?case by simp
qed

text \<open>
  The over-temperature trip follows the load: as long as the pump is off, in automatic mode or
  asked for at most 85 % it never trips, and a pump asked for its full speed has tripped after at
  most 100 steps, from whatever state it was in.
\<close>

theorem overtemp_follows_load:
  assumes "pump_ok p"
  shows "(list_all mild cs \<longrightarrow> \<not> app_sim_fault (fold (sim_step ms) cs (data_source_init pump_boot)))
    \<and> (100 \<le> length cs \<and> (\<forall>c \<in> set cs. pump_active c \<and> g_mode c = MODE_MANUAL \<and> 100 \<le> g_setpoint c)
        \<longrightarrow> app_sim_fault (fold (sim_step ms) cs p))"
proof (intro conjI impI)
  assume "list_all mild cs"
  moreover have "cool (data_source_init pump_boot)"
    by (simp add: cool_def data_source_init_def pump_boot_def)
  ultimately have "cool (fold (sim_step ms) cs (data_source_init pump_boot))"
    using coolsys.run_keeps_ok [of cs _ ms] by (simp add: coolsys.run_def)
  then show "\<not> app_sim_fault (fold (sim_step ms) cs (data_source_init pump_boot))"
    by (simp add: cool_def app_sim_fault_def)
next
  assume c: "100 \<le> length cs \<and> (\<forall>c \<in> set cs. pump_active c \<and> g_mode c = MODE_MANUAL \<and> 100 \<le> g_setpoint c)"
  define a b where "a = take 20 cs" and "b = drop 20 cs"
  have cs: "cs = a @ b" and la: "length a = 20" and lb: "80 \<le> length b" using c by (auto simp: a_def b_def)
  let ?m = "fold (sim_step ms) a p" and ?e = "100 * (3 / 4) ^ 20 :: real"
  have m: "pump_ok ?m" using pumpsys.run_keeps [OF assms, of ms a] by (simp add: pumpsys.run_def)
  have "100 - speed_pct p \<le> 100" using assms by (simp add: pump_ok_def)
  then have "100 - speed_pct ?m \<le> ?e"
    using full_load [of a p 100 ms] c assms by (simp add: cs la)
  then have "95 - motor_temp_c (fold (sim_step ms) b ?m) \<le> 70 * (97 / 100) ^ length b + ?e * 21 / 40"
    using full_load [of b ?m ?e ms] c m by (simp add: cs)
  moreover have "(97 / 100 :: real) ^ length b \<le> (97 / 100) ^ 80" using lb by (intro power_decreasing) auto
  moreover have "70 * (97 / 100 :: real) ^ 80 + ?e * 21 / 40 < 10" by (simp add: power_divide)
  ultimately have t: "85 < motor_temp_c (fold (sim_step ms) cs p)" unfolding cs fold_append o_apply by linarith
  obtain cs' d where "cs = cs' @ [d]" using lb unfolding cs by (cases b rule: rev_cases) auto
  with t show "app_sim_fault (fold (sim_step ms) cs p)" by (simp add: app_sim_fault_def)
qed

theorem overtemp_follows_load_witness:
  "app_sim_fault (fold (sim_step 1000)
     (replicate 100 \<lparr>g_setpoint = 100, g_running = True, g_mode = 2, g_local_writes = True\<rparr>)
     (data_source_init pump_boot))"
  using overtemp_follows_load [OF init_ok,
      of "replicate 100 \<lparr>g_setpoint = 100, g_running = True, g_mode = 2, g_local_writes = True\<rparr>" 1000]
  by (simp add: pump_active_def)

end
