(* ===== verification/Environment.thy ===== *)
theory Environment
  imports Pump
begin

text \<open>
  The environment simulation of \<^verbatim>\<open>src/lib/common/sim_environment.c\<close>, the default source of the OPC UA
  server: three measurements that follow the uptime as sines. As in \<open>Pump\<close>, \<open>double\<close> arithmetic is
  read as exact arithmetic on the reals.
\<close>

section \<open>The simulation\<close>

record sim_signal =
  ss_desc :: data_measurement
  ss_base :: real
  ss_amplitude :: real
  ss_period_s :: real

definition signals :: "sim_signal list" where
  "signals =
     [\<lparr>ss_desc = \<lparr>dm_name = ''temperature'', dm_unit = ''Cel''\<rparr>, ss_base = 22, ss_amplitude = 3, ss_period_s = 60\<rparr>,
      \<lparr>ss_desc = \<lparr>dm_name = ''humidity'', dm_unit = ''%RH''\<rparr>, ss_base = 45, ss_amplitude = 10, ss_period_s = 120\<rparr>,
      \<lparr>ss_desc = \<lparr>dm_name = ''pressure'', dm_unit = ''hPa''\<rparr>, ss_base = 1013, ss_amplitude = 5, ss_period_s = 300\<rparr>]"

abbreviation (input) SIM_COUNT :: nat where "SIM_COUNT \<equiv> 3"

definition env_count :: nat where "env_count = SIM_COUNT"

definition env_descriptor :: "nat \<Rightarrow> data_measurement option" where
  "env_descriptor i = (if i \<ge> SIM_COUNT then None else Some (ss_desc (signals ! i)))"

text \<open>The state of the source is the uptime in milliseconds.\<close>

definition env_sample :: "int \<Rightarrow> nat \<Rightarrow> real" where
  "env_sample uptime_ms i =
     (if i \<ge> SIM_COUNT then 0
      else let s = signals ! i;
               t = real_of_int uptime_ms / 1000;
               phase = 2 * 3.14159265358979323846 * t / ss_period_s s
           in ss_base s + ss_amplitude s * sin phase)"

definition env_sim_fault :: bool where "env_sim_fault = False"

section \<open>Bounds\<close>

lemma three_signals: "i < SIM_COUNT \<Longrightarrow> P 0 \<Longrightarrow> P 1 \<Longrightarrow> P 2 \<Longrightarrow> P (i :: nat)"
  by (auto simp: less_Suc_eq numeral_3_eq_3 numeral_2_eq_2)

lemma env_sample_band:
  assumes "i < SIM_COUNT"
  shows "\<bar>env_sample t i - ss_base (signals ! i)\<bar> \<le> ss_amplitude (signals ! i)"
proof -
  let ?s = "signals ! i"
  obtain x where x: "env_sample t i = ss_base ?s + ss_amplitude ?s * sin x"
    using assms by (auto simp: env_sample_def Let_def)
  have a: "0 \<le> ss_amplitude ?s" using assms by (rule three_signals) (simp_all add: signals_def)
  have "\<bar>ss_amplitude ?s * sin x\<bar> \<le> ss_amplitude ?s * 1"
    unfolding abs_mult using a abs_sin_le_one [of x] by (intro mult_mono) simp_all
  then show ?thesis by (simp add: x)
qed

text \<open>
  Whatever the uptime, the temperature is between 19 and 25 degrees, the humidity between 35 and 55 per
  cent and the pressure between 1008 and 1018 hPa; any other index is answered with 0, never with a
  read outside the table.
\<close>

theorem environment_bounds:
  "env_sample t 0 \<in> {19..25} \<and> env_sample t 1 \<in> {35..55} \<and> env_sample t 2 \<in> {1008..1018}
   \<and> (if i < env_count then env_descriptor i = Some (ss_desc (signals ! i))
      else env_descriptor i = None \<and> env_sample t i = 0)"
  using env_sample_band [of 0 t] env_sample_band [of 1 t] env_sample_band [of 2 t]
  by (auto simp: signals_def env_count_def env_descriptor_def abs_le_iff)
    (simp_all add: env_sample_def)

end
