(* ===== verification/Opcua_Nodes.thy ===== *)
theory Opcua_Nodes
  imports Controls
begin

text \<open>
  The OPC UA address space (\<^verbatim>\<open>src/lib/opcua/address_space.c\<close>): the nodes the server is given, the
  write callbacks of the two control nodes, and the periodic update of the measurements. The server
  is the open62541 library: calls to it are recorded, and what it answers is a parameter. Samples
  are of any type \<open>'d\<close> (a \<open>double\<close> in the code).
\<close>

section \<open>Calls into the server\<close>

datatype 'd ua_value = UaInt32 int | UaBoolean bool | UaDouble 'd | UaString string

datatype 'd ua_call =
    AddDevice string
  | AddNode string bool "'d ua_value"
  | SetWriteCallback string
  | WriteValue string "'d ua_value"

text \<open>\<open>AddNode id writable value\<close> is \<open>UA_Server_addVariableNode\<close> with the access level of the code.\<close>

record 'd data_source =
  ds_measurements :: "string list"
  ds_sample :: "nat \<Rightarrow> 'd"

record ua_identity =
  ua_device_id :: string
  ua_firmware_name :: string
  ua_firmware_version :: string
  ua_build_timestamp :: string

definition MAX_MEASUREMENTS :: nat where "MAX_MEASUREMENTS = 16"

definition measurement_count :: "'d data_source \<Rightarrow> nat" where
  "measurement_count ds =
     (if length (ds_measurements ds) > MAX_MEASUREMENTS then MAX_MEASUREMENTS else length (ds_measurements ds))"

definition add_device_object :: "string \<Rightarrow> 'd ua_call" where
  "add_device_object device_name = AddDevice device_name"

definition add_readonly_string :: "string \<Rightarrow> string \<Rightarrow> 'd ua_call" where
  "add_readonly_string nid value = AddNode nid False (UaString value)"

definition add_info_nodes :: "ua_identity \<Rightarrow> 'd ua_call list" where
  "add_info_nodes u =
     [add_readonly_string ''DeviceId'' (ua_device_id u),
      add_readonly_string ''FirmwareName'' (ua_firmware_name u),
      add_readonly_string ''FirmwareVersion'' (ua_firmware_version u),
      add_readonly_string ''BuildTimestamp'' (ua_build_timestamp u)]"

text \<open>The loop over the measurements stops at the first the server refuses.\<close>

fun add_measurements :: "('d ua_call \<Rightarrow> bool) \<Rightarrow> 'd data_source \<Rightarrow> nat list \<Rightarrow> 'd ua_call list \<times> bool" where
  "add_measurements ok ds [] = ([], True)"
| "add_measurements ok ds (i # is) =
     (let c = AddNode (ds_measurements ds ! i) False (UaDouble (ds_sample ds i))
      in if \<not> ok c then ([c], False)
         else let (cs, good) = add_measurements ok ds is in (c # cs, good))"

definition add_writable :: "('d ua_call \<Rightarrow> bool) \<Rightarrow> string \<Rightarrow> 'd ua_value \<Rightarrow> 'd ua_call list" where
  "add_writable ok nid initial =
     (let c = AddNode nid True initial in if ok c then [c, SetWriteCallback nid] else [c])"

definition add_control_nodes :: "('d ua_call \<Rightarrow> bool) \<Rightarrow> controls \<Rightarrow> 'd ua_call list" where
  "add_control_nodes ok c =
     add_writable ok ''Setpoint'' (UaInt32 (g_setpoint c)) @ add_writable ok ''Running'' (UaBoolean (g_running c))"

definition address_space_setup ::
  "('d ua_call \<Rightarrow> bool) \<Rightarrow> string \<Rightarrow> ua_identity \<Rightarrow> 'd data_source \<Rightarrow> controls \<Rightarrow> 'd ua_call list \<times> bool" where
  "address_space_setup ok device_name u ds c =
     (if \<not> ok (add_device_object device_name) then ([add_device_object device_name], False)
      else
        let calls = add_device_object device_name # add_info_nodes u;
            (ms, good) = add_measurements ok ds [0..<measurement_count ds]
        in if \<not> good then (calls @ ms, False)
           else (calls @ ms @ add_control_nodes ok c, True))"

definition address_space_update :: "'d data_source \<Rightarrow> 'd ua_call list" where
  "address_space_update ds =
     map (\<lambda>i. WriteValue (ds_measurements ds ! i) (UaDouble (ds_sample ds i))) [0..<measurement_count ds]"

section \<open>Writes by a client\<close>

text \<open>
  \<open>None\<close> is a value the client left out. The result is the correction the callback writes back, with
  \<open>writing_back\<close> set meanwhile, and the control points.
\<close>

definition on_setpoint_write ::
  "control_cfg \<Rightarrow> bool \<Rightarrow> 'd ua_value option \<Rightarrow> controls \<Rightarrow> 'd ua_call list \<times> controls" where
  "on_setpoint_write cfg writing_back data c =
     (case (writing_back, data) of
        (False, Some (UaInt32 v)) \<Rightarrow>
          (let (clamped, c) = app_control_set_setpoint cfg v c
           in (if clamped \<noteq> v then [WriteValue ''Setpoint'' (UaInt32 clamped)] else [], c))
      | _ \<Rightarrow> ([], c))"

definition on_running_write :: "'d ua_value option \<Rightarrow> controls \<Rightarrow> controls" where
  "on_running_write data c =
     (case data of Some (UaBoolean b) \<Rightarrow> app_control_set_running b c | _ \<Rightarrow> c)"

text \<open>
  The value of the setpoint node after a write: what the client wrote, then what the callback writes
  back, for which the callback runs again.
\<close>

definition setpoint_node :: "control_cfg \<Rightarrow> int \<Rightarrow> controls \<Rightarrow> int \<times> controls" where
  "setpoint_node cfg v c =
     (case on_setpoint_write cfg False (Some (UaInt32 v :: unit ua_value)) c of
        (WriteValue _ (UaInt32 w) # _, c) \<Rightarrow> (w, snd (on_setpoint_write cfg True (Some (UaInt32 w :: unit ua_value)) c))
      | (_, c) \<Rightarrow> (v, c))"

lemma setpoint_node_eq:
  "setpoint_node cfg v c = (fst (app_control_set_setpoint cfg v c),
     c\<lparr>g_setpoint := fst (app_control_set_setpoint cfg v c)\<rparr>)"
proof -
  let ?w = "fst (app_control_set_setpoint cfg v c)"
  have "app_control_set_setpoint cfg v c = (?w, c\<lparr>g_setpoint := ?w\<rparr>)"
    by (simp add: app_control_set_setpoint_def Let_def)
  then obtain w where w: "app_control_set_setpoint cfg v c = (w, c\<lparr>g_setpoint := w\<rparr>)" by blast
  show ?thesis by (cases "w = v") (simp_all add: setpoint_node_def on_setpoint_write_def w)
qed

text \<open>
  The setpoint node never shows anything but the setpoint in force: whatever integer a client writes,
  afterwards node and control point agree, lie in the configured range, and nothing else has changed.
\<close>

theorem setpoint_node_agrees:
  assumes "setpoint_min cfg \<le> setpoint_max cfg"
  shows "fst (setpoint_node cfg v c) = g_setpoint (snd (setpoint_node cfg v c))
    \<and> setpoint_min cfg \<le> fst (setpoint_node cfg v c) \<and> fst (setpoint_node cfg v c) \<le> setpoint_max cfg
    \<and> snd (setpoint_node cfg v c) = c\<lparr>g_setpoint := fst (setpoint_node cfg v c)\<rparr>
    \<and> (setpoint_min cfg \<le> v \<and> v \<le> setpoint_max cfg \<longrightarrow> fst (setpoint_node cfg v c) = v)"
  using assms unfolding setpoint_node_eq by (auto simp: app_control_set_setpoint_def Let_def)

theorem setpoint_node_agrees_witness:
  "fst (setpoint_node default_controls_cfg 5000 (controls_init default_controls_cfg)) \<le> 1000
   \<and> fst (setpoint_node default_controls_cfg 7 (controls_init default_controls_cfg)) = 7"
proof -
  have m: "setpoint_min default_controls_cfg = -1000" "setpoint_max default_controls_cfg = 1000"
    by (simp_all add: default_controls_cfg_def)
  show ?thesis
    using setpoint_node_agrees [of default_controls_cfg 5000 "controls_init default_controls_cfg"]
      setpoint_node_agrees [of default_controls_cfg 7 "controls_init default_controls_cfg"]
    unfolding m by linarith
qed

section \<open>What a client can write\<close>

lemma add_measurements_calls:
  "c \<in> set (fst (add_measurements ok ds is)) \<Longrightarrow> \<exists>i \<in> set is. c = AddNode (ds_measurements ds ! i) False (UaDouble (ds_sample ds i))"
  by (induction ok ds "is" rule: add_measurements.induct) (auto simp: Let_def split: if_splits prod.splits)

lemma added_measurement:
  "snd (add_measurements ok ds is) \<Longrightarrow> i \<in> set is \<Longrightarrow>
    AddNode (ds_measurements ds ! i) False (UaDouble (ds_sample ds i)) \<in> set (fst (add_measurements ok ds is))"
  by (induction ok ds "is" rule: add_measurements.induct) (auto simp: Let_def split: if_splits prod.splits)

text \<open>
  Measurements and identity are read-only: whatever the server refuses during set-up, a node that can
  be written is the setpoint or the running flag, and set-up succeeds only with every measurement there.
\<close>

theorem only_controls_writable:
  "(AddNode nid True v \<in> set (fst (address_space_setup ok dev u ds c)) \<longrightarrow> nid \<in> {''Setpoint'', ''Running''})
   \<and> (snd (address_space_setup ok dev u ds c) \<longrightarrow>
       (\<forall>i < measurement_count ds. \<exists>x. AddNode (ds_measurements ds ! i) False x \<in> set (fst (address_space_setup ok dev u ds c))))"
proof -
  have "AddNode nid True v \<notin> set (fst (add_measurements ok ds is))" for "is"
    using add_measurements_calls [of "AddNode nid True v" ok ds "is"] by auto
  then have "AddNode nid True v \<in> set (fst (address_space_setup ok dev u ds c)) \<longrightarrow> nid \<in> {''Setpoint'', ''Running''}"
    by (auto simp: address_space_setup_def add_device_object_def add_readonly_string_def add_info_nodes_def add_control_nodes_def add_writable_def Let_def
        split: if_splits prod.splits) (metis fst_conv)+
  moreover have "snd (address_space_setup ok dev u ds c) \<longrightarrow>
       (\<forall>i < measurement_count ds. \<exists>x. AddNode (ds_measurements ds ! i) False x \<in> set (fst (address_space_setup ok dev u ds c)))"
    using added_measurement [of ok ds "[0..<measurement_count ds]"]
    by (fastforce simp: address_space_setup_def Let_def split: if_splits prod.splits)
  ultimately show ?thesis by blast
qed

end
