(* ===== verification/Data_Source.thy ===== *)
theory Data_Source
  imports Environment Sim_Switch Opcua_Nodes
begin

text \<open>
  The interface \<^verbatim>\<open>src/lib/common/data_source.h\<close> between the simulations and the frontends that serve
  them: what a source promises, what the OPC UA address space makes of any source that keeps it, and
  the three simulations of this repository as such sources.
\<close>

section \<open>The switch's descriptors\<close>

definition switch_descriptors :: "data_measurement list" where
  "switch_descriptors =
     [\<lparr>dm_name = ''if_up'', dm_unit = ''count''\<rparr>,
      \<lparr>dm_name = ''in_octets_total'', dm_unit = ''octets''\<rparr>,
      \<lparr>dm_name = ''out_octets_total'', dm_unit = ''octets''\<rparr>]"

definition switch_descriptor :: "nat \<Rightarrow> data_measurement option" where
  "switch_descriptor i = (if i \<ge> 3 then None else Some (switch_descriptors ! i))"

definition switch_sample :: "sim_state \<Rightarrow> nat \<Rightarrow> real" where
  "switch_sample s i = real (Sim_Switch.data_source_sample s i)"

section \<open>The interface\<close>

text \<open>The data source the address space is given: the names of the descriptors and the samples.\<close>

definition source :: "nat \<Rightarrow> (nat \<Rightarrow> data_measurement option) \<Rightarrow> (nat \<Rightarrow> real) \<Rightarrow> real data_source" where
  "source n descriptor sample =
     \<lparr>ds_measurements = map (\<lambda>i. case descriptor i of Some d \<Rightarrow> dm_name d | None \<Rightarrow> []) [0..<n], ds_sample = sample\<rparr>"

locale data_source_api =
  fixes count :: nat and descriptor :: "nat \<Rightarrow> data_measurement option" and sample :: "'s \<Rightarrow> nat \<Rightarrow> real"
  assumes descriptor_range: "descriptor i = None \<longleftrightarrow> count \<le> i"
    and sample_range: "count \<le> i \<Longrightarrow> sample s i = 0"
    and count_few: "count \<le> MAX_MEASUREMENTS"
    and names_distinct: "distinct (ds_measurements (source count descriptor (sample s)))"
begin

lemma all_measured: "measurement_count (source count descriptor (sample s)) = count"
  using count_few by (simp add: measurement_count_def source_def)

lemma same_names: "ds_measurements (source count descriptor (sample s)) = ds_measurements (source count descriptor (sample t))"
  by (simp add: source_def)

lemma node_of: "i < count \<Longrightarrow> descriptor i = Some d \<Longrightarrow> ds_measurements (source count descriptor (sample s)) ! i = dm_name d"
  by (simp add: source_def)

text \<open>An update writes every measurement, once, with its sample.\<close>

lemma update_writes:
  "i < count \<Longrightarrow> descriptor i = Some d \<Longrightarrow>
    address_space_update (source count descriptor (sample s)) ! i = WriteValue (dm_name d) (UaDouble (sample s i))"
  using all_measured [of s] node_of [of i d s]
  by (simp add: address_space_update_def source_def)

lemma update_length: "length (address_space_update (source count descriptor (sample s))) = count"
  using all_measured [of s] by (simp add: address_space_update_def)

end

lemma setup_adds:
  assumes "snd (address_space_setup ok dev u ds c)" "i < measurement_count ds"
  shows "AddNode (ds_measurements ds ! i) False (UaDouble (ds_sample ds i)) \<in> set (fst (address_space_setup ok dev u ds c))"
  using assms added_measurement [of ok ds "[0..<measurement_count ds]" i]
  by (auto simp: address_space_setup_def Let_def split: if_splits prod.splits)

context data_source_api
begin

text \<open>
  The updates of a server whose set-up succeeded write into nodes set-up created, whatever the source
  shows in the meantime, each node once.
\<close>

lemma update_after_setup:
  assumes "snd (address_space_setup ok dev u (source count descriptor (sample s)) c)"
  shows "list_all (\<lambda>w. \<exists>nid x y. w = WriteValue nid (UaDouble x)
      \<and> AddNode nid False (UaDouble y) \<in> set (fst (address_space_setup ok dev u (source count descriptor (sample s)) c)))
    (address_space_update (source count descriptor (sample t)))"
    and "distinct (map (\<lambda>w. case w of WriteValue nid _ \<Rightarrow> nid | _ \<Rightarrow> [])
      (address_space_update (source count descriptor (sample t))))"
proof -
  let ?ns = "ds_measurements (source count descriptor (sample t))"
  have made: "AddNode (?ns ! i) False (UaDouble (sample s i))
      \<in> set (fst (address_space_setup ok dev u (source count descriptor (sample s)) c))" if "i < count" for i
    using setup_adds [OF assms, of i] that all_measured [of s] same_names [of s t] by (simp add: source_def)
  then show "list_all (\<lambda>w. \<exists>nid x y. w = WriteValue nid (UaDouble x)
      \<and> AddNode nid False (UaDouble y) \<in> set (fst (address_space_setup ok dev u (source count descriptor (sample s)) c)))
    (address_space_update (source count descriptor (sample t)))"
    using all_measured [of t] by (fastforce simp: address_space_update_def list_all_iff intro: made)
  have "length ?ns = count" by (simp add: source_def)
  then have "map (\<lambda>w. case w of WriteValue nid _ \<Rightarrow> nid | _ \<Rightarrow> [])
      (address_space_update (source count descriptor (sample t))) = ?ns"
    using all_measured [of t] by (auto simp: address_space_update_def intro: nth_equalityI)
  then show "distinct (map (\<lambda>w. case w of WriteValue nid _ \<Rightarrow> nid | _ \<Rightarrow> [])
      (address_space_update (source count descriptor (sample t))))"
    using names_distinct [of t] by simp
qed

end

section \<open>The sources\<close>

interpretation env: data_source_api env_count env_descriptor env_sample
  by unfold_locales
    (auto simp: env_count_def env_descriptor_def env_sample_def MAX_MEASUREMENTS_def source_def signals_def upt_rec)

interpretation pump: data_source_api Pump.data_source_count Pump.data_source_descriptor Pump.data_source_sample
  by unfold_locales
    (auto simp: Pump.data_source_count_def Pump.data_source_descriptor_def Pump.data_source_sample_def
      MAX_MEASUREMENTS_def source_def descriptors_def upt_rec)

interpretation switch: data_source_api Sim_Switch.data_source_count switch_descriptor switch_sample
  by unfold_locales
    (auto simp: Sim_Switch.data_source_count_def switch_descriptor_def switch_sample_def
      Sim_Switch.data_source_sample_def Let_def MAX_MEASUREMENTS_def source_def switch_descriptors_def upt_rec)

text \<open>
  Whichever simulation an image is built with, a server whose address space was set up is updated in
  place: every update writes each measurement of the simulation once, into a node set-up created for
  it, and nothing else; with the environment simulation, the temperature written lies in its band.
\<close>

theorem updates_write_created_nodes:
  assumes "snd (address_space_setup ok dev u (source env_count env_descriptor (env_sample t)) c)"
    and "snd (address_space_setup ok dev u (source Pump.data_source_count Pump.data_source_descriptor (Pump.data_source_sample p)) c)"
    and "snd (address_space_setup ok dev u (source Sim_Switch.data_source_count switch_descriptor (switch_sample s)) c)"
  defines "writes \<equiv> \<lambda>made ws. list_all (\<lambda>w. \<exists>nid x y. w = WriteValue nid (UaDouble x) \<and> AddNode nid False (UaDouble y) \<in> set made) ws
      \<and> distinct (map (\<lambda>w. case w of WriteValue nid _ \<Rightarrow> nid | _ \<Rightarrow> []) ws)"
  shows "writes (fst (address_space_setup ok dev u (source env_count env_descriptor (env_sample t)) c))
      (address_space_update (source env_count env_descriptor (env_sample t')))
    \<and> writes (fst (address_space_setup ok dev u (source Pump.data_source_count Pump.data_source_descriptor (Pump.data_source_sample p)) c))
      (address_space_update (source Pump.data_source_count Pump.data_source_descriptor (Pump.data_source_sample p')))
    \<and> writes (fst (address_space_setup ok dev u (source Sim_Switch.data_source_count switch_descriptor (switch_sample s)) c))
      (address_space_update (source Sim_Switch.data_source_count switch_descriptor (switch_sample s')))
    \<and> address_space_update (source env_count env_descriptor (env_sample t')) ! 0
      = WriteValue ''temperature'' (UaDouble (env_sample t' 0))"
proof -
  have "env_descriptor 0 = Some \<lparr>dm_name = ''temperature'', dm_unit = ''Cel''\<rparr>"
    by (simp add: env_descriptor_def signals_def)
  then have "address_space_update (source env_count env_descriptor (env_sample t')) ! 0
      = WriteValue ''temperature'' (UaDouble (env_sample t' 0))"
    using env.update_writes [of 0 _ t'] by (simp add: env_count_def)
  then show ?thesis
    unfolding writes_def
    using env.update_after_setup [OF assms(1)] pump.update_after_setup [OF assms(2)] switch.update_after_setup [OF assms(3)]
    by blast
qed

lemma setup_succeeds: "snd (address_space_setup (\<lambda>_. True) dev u ds c)"
proof -
  have "snd (add_measurements (\<lambda>_. True) ds is)" for "is"
    by (induction "is") (simp_all add: split_beta Let_def)
  then show ?thesis by (simp add: address_space_setup_def split_beta Let_def)
qed

theorem updates_write_created_nodes_witness:
  "\<exists>y. AddNode ''temperature'' False (UaDouble y) \<in> set (fst (address_space_setup (\<lambda>_. True) ''dev'' u
     (source env_count env_descriptor (env_sample 0)) c))"
proof -
  let ?made = "fst (address_space_setup (\<lambda>_. True) ''dev'' u (source env_count env_descriptor (env_sample 0)) c)"
  let ?ws = "address_space_update (source env_count env_descriptor (env_sample 1000))"
  have made: "list_all (\<lambda>w. \<exists>nid x y. w = WriteValue nid (UaDouble x) \<and> AddNode nid False (UaDouble y) \<in> set ?made) ?ws"
    and first: "?ws ! 0 = WriteValue ''temperature'' (UaDouble (env_sample 1000 0))"
    using updates_write_created_nodes [where ok = "\<lambda>_. True" and dev = "''dev''" and u = u and c = c and t = 0 and t' = 1000
        and p = pump_boot and p' = pump_boot and s = "Sim_Switch.data_source_init 5 15" and s' = "Sim_Switch.data_source_init 5 15",
        OF setup_succeeds setup_succeeds setup_succeeds] by blast+
  have "0 < length ?ws" using env.update_length [of 1000] by (simp add: env_count_def)
  then have "?ws ! 0 \<in> set ?ws" by (rule nth_mem)
  with made obtain nid x y where w: "?ws ! 0 = WriteValue nid (UaDouble x)" "AddNode nid False (UaDouble y) \<in> set ?made"
    unfolding list_all_iff by blast
  have "nid = ''temperature''" using w(1) unfolding first by simp
  with w(2) show ?thesis by blast
qed

end
