(* ===== verification/Pump_Drive.thy ===== *)
theory Pump_Drive
  imports Pump
begin

text \<open>
  The control loop of the Modbus image, end to end: a master's writes to the coil and the holding
  registers (\<^verbatim>\<open>src/lib/modbus/modbus_server.c\<close>), the control points (\<^verbatim>\<open>controls.c\<close>), the simulation that
  follows them (\<^verbatim>\<open>sim_pump.c\<close>), and the input register the master reads the speed from.
\<close>

section \<open>Approaching a setpoint\<close>

text \<open>The pump in manual mode with a setpoint between standstill and full speed.\<close>

definition drives :: "int \<Rightarrow> controls \<Rightarrow> bool" where
  "drives sp c \<longleftrightarrow> g_running c \<and> g_mode c = MODE_MANUAL \<and> g_setpoint c = sp \<and> 0 \<le> sp \<and> sp \<le> 100"

lemma drives_commanded: "drives sp c \<Longrightarrow> commanded c n = real_of_int sp"
  by (simp add: drives_def commanded_def pump_active_def Let_def)

text \<open>Each step takes three quarters of the distance away; a pump on its way up is never cut to zero.\<close>

lemma drive_step:
  assumes "drives sp c" "0 \<le> speed_pct p"
  shows "\<bar>next_speed c p - real_of_int sp\<bar> \<le> \<bar>speed_pct p - real_of_int sp\<bar> * (3 / 4)"
proof -
  let ?v = "speed_pct p + (real_of_int sp - speed_pct p) * (1 / 4)"
  have v: "?v - real_of_int sp = (speed_pct p - real_of_int sp) * (3 / 4)" by (simp add: field_simps)
  show ?thesis
  proof (cases "?v < 5 / 100")
    case True
    have "sp = 0"
    proof (rule ccontr)
      assume "sp \<noteq> 0"
      then have "1 \<le> real_of_int sp" using assms(1) by (simp add: drives_def)
      with True assms(2) show False by (simp add: field_simps)
    qed
    with True assms(2) show ?thesis by (simp add: next_speed_def drives_commanded [OF assms(1)])
  next
    case False
    then have "next_speed c p = ?v" by (simp add: next_speed_def drives_commanded [OF assms(1)])
    moreover have "\<bar>?v - real_of_int sp\<bar> = \<bar>speed_pct p - real_of_int sp\<bar> * (3 / 4)" unfolding v abs_mult by simp
    ultimately show ?thesis by simp
  qed
qed

lemma drive_run:
  assumes "list_all (drives sp) cs" "pump_ok p"
  shows "\<bar>speed_pct (fold (sim_step ms) cs p) - real_of_int sp\<bar> \<le> 100 * (3 / 4) ^ length cs \<or> cs = []"
  using assms
proof (induction cs rule: rev_induct)
  case Nil
  then show ?case by simp
next
  case (snoc c cs)
  let ?q = "fold (sim_step ms) cs p"
  have q: "pump_ok ?q" using pumpsys.run_keeps [OF snoc.prems(2), of ms cs] by (simp add: pumpsys.run_def)
  have c: "drives sp c" using snoc.prems(1) by simp
  have "\<bar>speed_pct ?q - real_of_int sp\<bar> \<le> 100 * (3 / 4) ^ length cs"
  proof (cases "cs = []")
    case True
    then show ?thesis using q c by (auto simp: pump_ok_def drives_def abs_le_iff)
  next
    case False
    then show ?thesis using snoc by simp
  qed
  then have "\<bar>speed_pct ?q - real_of_int sp\<bar> * (3 / 4) \<le> 100 * (3 / 4) ^ length cs * (3 / 4)"
    by (rule mult_right_mono) simp
  moreover have "\<bar>next_speed c ?q - real_of_int sp\<bar> \<le> \<bar>speed_pct ?q - real_of_int sp\<bar> * (3 / 4)"
    by (rule drive_step [OF c]) (use q in \<open>simp add: pump_ok_def\<close>)
  ultimately show ?case by simp
qed

lemma rpm_of_speed: "cs \<noteq> [] \<Longrightarrow> pvalues (fold (sim_step ms) cs p) ! 3 = speed_pct (fold (sim_step ms) cs p) / 100 * 2900"
  by (cases cs rule: rev_cases) (simp_all add: sim_step_def Let_def eval_nat_numeral)

section \<open>What a master sets is what it gets\<close>

text \<open>The three writes of a master that starts the pump at \<open>sp\<close> per cent: coil 0, mode, setpoint.\<close>

definition master_starts :: "control_cfg \<Rightarrow> u16 \<Rightarrow> controls \<Rightarrow> rc list \<times> controls" where
  "master_starts cfg sp c =
     (let (r1, c) = coil_wr 0 True c;
          (r2, c) = holding_reg_wr cfg 1 2 c;
          (r3, c) = holding_reg_wr cfg 0 sp c
      in ([r1, r2, r3], c))"

lemma master_starts_drives:
  assumes "control_write_allowed c" "uint sp \<le> 100" "setpoint_min cfg \<le> uint sp" "uint sp \<le> setpoint_max cfg"
  shows "fst (master_starts cfg sp c) = [OK, OK, OK] \<and> drives (uint sp) (snd (master_starts cfg sp c))
    \<and> holding_reg_rd (snd (master_starts cfg sp c)) 0 = Inr sp"
  using assms
  by (simp add: master_starts_def coil_wr_def holding_reg_wr_def control_write_allowed_def app_control_set_running_def
      app_control_set_mode_def app_control_set_setpoint_def drives_def holding_reg_rd_def Let_def)

text \<open>
  C16. A master that switches the pump on, in manual mode, at a percentage within the configured range gets
  that speed: every write is accepted, the setpoint reads back, and whatever the pump did before,
  after forty steps the speed register shows the commanded speed, 29 revolutions per minute and per
  cent, or one below it, and keeps showing it as long as the controls are left alone.
\<close>

theorem master_sets_speed:
  fixes cfg :: control_cfg and ms :: nat and fb :: "real \<Rightarrow> u32" and online :: bool
  assumes "control_write_allowed c" "uint sp \<le> 100" "setpoint_min cfg \<le> uint sp" "uint sp \<le> setpoint_max cfg"
    and "pump_ok p" "40 \<le> n"
  defines "d \<equiv> master_starts cfg sp c"
  defines "q \<equiv> fold (sim_step ms) (replicate n (snd d)) p"
  shows "fst d = [OK, OK, OK] \<and> holding_reg_rd (snd d) 0 = Inr sp
    \<and> map_sum id uint (input_reg_rd (pump_inputs fb online q) 3) \<in> {Inr (29 * uint sp), Inr (29 * uint sp - 1)}"
proof -
  have d: "fst d = [OK, OK, OK]" "drives (uint sp) (snd d)" "holding_reg_rd (snd d) 0 = Inr sp"
    using master_starts_drives [OF assms(1-4)] by (simp_all add: d_def)
  let ?sp = "real_of_int (uint sp)" and ?cs = "replicate n (snd d)"
  have ne: "?cs \<noteq> []" using assms(6) by simp
  have "\<bar>speed_pct q - ?sp\<bar> \<le> 100 * (3 / 4) ^ n"
    using drive_run [of "uint sp" ?cs p ms] d(2) ne assms(5) by (simp add: q_def list_all_iff)
  also have "\<dots> \<le> 100 * (3 / 4) ^ 40" using assms(6) by (intro mult_left_mono power_decreasing) auto
  also have "\<dots> \<le> 1 / 100" by (simp add: power_divide)
  finally have near: "\<bar>speed_pct q - ?sp\<bar> \<le> 1 / 100" .
  have ok: "pump_ok q" using pumpsys.run_keeps [OF assms(5), of ms ?cs] by (simp add: q_def pumpsys.run_def)
  have "pvalues q ! 3 = speed_pct q / 100 * 2900" unfolding q_def by (rule rpm_of_speed [OF ne])
  moreover have "speed_pct q - ?sp \<le> 1 / 100" "?sp - speed_pct q \<le> 1 / 100" using near unfolding abs_le_iff by linarith+
  ultimately have rpm: "29 * ?sp - 1 \<le> pvalues q ! 3" "pvalues q ! 3 < 29 * ?sp + 1" by linarith+
  have v: "0 \<le> pvalues q ! 3" "pvalues q ! 3 < 65536" using ok by (auto simp: pump_ok_def)
  have "map_sum id uint (input_reg_rd (pump_inputs fb online q) 3) = Inr \<lfloor>pvalues q ! 3\<rfloor>"
    using v by (simp add: input_reg_rd_def pump_inputs_def data_source_sample_def uint_reg)
  moreover have "29 * uint sp - 1 \<le> \<lfloor>pvalues q ! 3\<rfloor>" "\<lfloor>pvalues q ! 3\<rfloor> < 29 * uint sp + 1"
    unfolding le_floor_iff floor_less_iff using rpm by simp_all
  then have "\<lfloor>pvalues q ! 3\<rfloor> = 29 * uint sp \<or> \<lfloor>pvalues q ! 3\<rfloor> = 29 * uint sp - 1" by linarith
  ultimately show ?thesis using d by auto
qed

theorem master_sets_speed_witness:
  "map_sum id uint (input_reg_rd (pump_inputs (\<lambda>_. 0) True (fold (sim_step 1000)
      (replicate 60 (snd (master_starts default_controls_cfg 50 (controls_init default_controls_cfg)))) (data_source_init pump_boot))) 3)
    \<in> {Inr 1450, Inr 1449}"
  using master_sets_speed [where ms = 1000 and fb = "\<lambda>_. 0" and online = True and sp = 50 and n = 60
      and c = "controls_init default_controls_cfg" and cfg = default_controls_cfg and p = "data_source_init pump_boot"] init_ok
  by (simp add: control_write_allowed_def controls_init_def default_controls_cfg_def)

end
