(* ===== verification/Firmware.thy ===== *)
theory Firmware
  imports Settings Status_Led Pump
begin

text \<open>
  The application images: the entry points \<^verbatim>\<open>src/apps/*/src/main.c\<close>, the device identity of
  \<^verbatim>\<open>src/lib/common/identity.c\<close>, the glue between each application and the cloud client
  (\<^verbatim>\<open>src/apps/*/src/tedge_glue.c\<close>) and the start of the OPC-UA server
  (\<^verbatim>\<open>src/lib/opcua/opcua_server.c\<close>). The client itself is not part of this repository: the calls
  made to it are recorded, and what it answers is a parameter.
\<close>

section \<open>Identity\<close>

text \<open>
  The external ID of a device onboarded by the provisioner, looked up once per boot, takes
  precedence over the host name.
\<close>

record ident_cache =
  looked :: bool
  ztp_id :: string

definition app_identity_device_id ::
  "bool \<Rightarrow> settings_io \<Rightarrow> settings \<Rightarrow> string \<Rightarrow> ident_cache \<Rightarrow> string \<times> ident_cache" where
  "app_identity_device_id cred_store sio st hostname c =
     (if cred_store then
        let c = (if \<not> looked c then
                   c\<lparr>looked := True,
                     ztp_id := (case prov_c8y_external_id sio st 64 of Inl _ \<Rightarrow> [] | Inr x \<Rightarrow> x)\<rparr>
                 else c)
        in (if ztp_id c \<noteq> [] then ztp_id c else hostname, c)
      else (hostname, c))"

section \<open>What an application calls\<close>

datatype app_call =
    DisplayInit
  | StageConnecting
  | StageError
  | NetInit
  | WaitConnected nat
  | ProtoStart
  | TedgeInit string string string
  | C8yCall tedge_call
  | DeclareParameters string
  | ControlApply
  | TedgeStart
  | ScheduleTelemetry int
  | RegisterLogType string

record app_env =
  cred_store :: bool
  tedge :: bool
  parameters :: bool
  telemetry :: bool
  log_upload :: bool
  opcua_server :: bool
  hostname :: string
  set_io :: settings_io
  client :: tedge_client
  io_net_init :: rc
  io_wait :: rc
  io_proto :: rc
  io_tedge_init :: rc
  io_declare :: "string \<Rightarrow> rc"
  io_tedge_start :: rc
  param_store :: "string \<Rightarrow> tedge_params"
  ctl_cfg :: control_cfg
  tele_cfg :: telemetry_cfg

record device =
  dev_settings :: settings
  dev_ident :: ident_cache
  dev_controls :: controls

definition device_boot :: "settings \<Rightarrow> app_env \<Rightarrow> device" where
  "device_boot st e =
     \<lparr>dev_settings = st, dev_ident = \<lparr>looked = False, ztp_id = []\<rparr>, dev_controls = controls_init (ctl_cfg e)\<rparr>"

definition device_id :: "app_env \<Rightarrow> device \<Rightarrow> string \<times> device" where
  "device_id e d =
     (let (x, c) = app_identity_device_id (cred_store e) (set_io e) (dev_settings d) (hostname e) (dev_ident d)
      in (x, d\<lparr>dev_ident := c\<rparr>))"

text \<open>The \<open>struct tedge_identity\<close> initialiser asks for the device ID twice, then \<open>tedge_init\<close>.\<close>

definition tedge_init :: "app_env \<Rightarrow> string \<Rightarrow> device \<Rightarrow> rc \<times> app_call list \<times> device" where
  "tedge_init e type d =
     (let (xid, d) = device_id e d; (name, d) = device_id e d
      in (io_tedge_init e, [TedgeInit xid name type], d))"

definition glue_handoff :: "app_env \<Rightarrow> device \<Rightarrow> app_call list \<times> device" where
  "glue_handoff e d =
     (if cred_store e then
        case prov_c8y_handoff (set_io e) (client e) (dev_settings d) of
          (_, calls, st) \<Rightarrow> (map C8yCall calls, d\<lparr>dev_settings := st\<rparr>)
      else ([], d))"

abbreviation (input) PUMP_SET :: string where "PUMP_SET \<equiv> ''zephyr_modbus_telemetry''"
abbreviation (input) CONTROL_SET :: string where "CONTROL_SET \<equiv> ''zephyr_modbus_control''"
abbreviation (input) SERVER_SET :: string where "SERVER_SET \<equiv> ''zephyr_opcua_telemetry''"
abbreviation (input) AGENT_SET :: string where "AGENT_SET \<equiv> ''zephyr_snmp_telemetry''"

section \<open>Starting the client\<close>

text \<open>\<open>tedge_glue_start\<close> of the Modbus server: a parameter set that cannot be declared ends it.\<close>

definition modbus_glue_tail :: "app_env \<Rightarrow> device \<Rightarrow> rc \<times> app_call list \<times> device" where
  "modbus_glue_tail e d =
     (if io_tedge_start e \<noteq> OK then (io_tedge_start e, [TedgeStart], d)
      else (OK, TedgeStart
        # (if telemetry e
           then [ScheduleTelemetry (if parameters e then param_interval_s (tele_cfg e) (param_store e PUMP_SET)
                                    else interval_default (tele_cfg e))] else [])
        @ (if log_upload e then [RegisterLogType ''app-status''] else []), d))"

definition modbus_glue_controls :: "app_env \<Rightarrow> device \<Rightarrow> rc \<times> app_call list \<times> device" where
  "modbus_glue_controls e d =
     (if \<not> parameters e then modbus_glue_tail e d
      else if io_declare e CONTROL_SET \<noteq> OK then (io_declare e CONTROL_SET, [DeclareParameters CONTROL_SET], d)
      else
        let d = d\<lparr>dev_controls := control_apply (ctl_cfg e) (param_store e CONTROL_SET) (dev_controls d)\<rparr>;
            (rc, calls, d) = modbus_glue_tail e d
        in (rc, DeclareParameters CONTROL_SET # ControlApply # calls, d))"

definition modbus_glue_start :: "app_env \<Rightarrow> device \<Rightarrow> rc \<times> app_call list \<times> device" where
  "modbus_glue_start e d =
     (let (rc, calls, d) = tedge_init e ''thin-edge.io-zephyr-modbus'' d
      in if rc \<noteq> OK then (rc, calls, d)
         else
           let (hand, d) = glue_handoff e d; calls = calls @ hand
           in if parameters e \<and> telemetry e then
                if io_declare e PUMP_SET \<noteq> OK
                then (io_declare e PUMP_SET, calls @ [DeclareParameters PUMP_SET], d)
                else let (rc, rest, d) = modbus_glue_controls e d
                     in (rc, calls @ DeclareParameters PUMP_SET # rest, d)
              else let (rc, rest, d) = modbus_glue_controls e d in (rc, calls @ rest, d))"

text \<open>\<open>tedge_glue_start\<close> of the OPC-UA server and of the SNMP agent: it only warns.\<close>

definition opcua_glue_start :: "app_env \<Rightarrow> device \<Rightarrow> rc \<times> app_call list \<times> device" where
  "opcua_glue_start e d =
     (let (rc, calls, d) = tedge_init e ''thin-edge.io-zephyr-opcua'' d
      in if rc \<noteq> OK then (rc, calls, d)
         else
           let (hand, d) = glue_handoff e d
           in (io_tedge_start e,
               calls @ hand @ (if parameters e \<and> telemetry e then [DeclareParameters SERVER_SET] else []) @ [TedgeStart],
               d))"

definition snmp_glue_start :: "app_env \<Rightarrow> device \<Rightarrow> rc \<times> app_call list \<times> device" where
  "snmp_glue_start e d =
     (let (rc, calls, d) = tedge_init e ''thin-edge.io-zephyr-snmp'' d
      in if rc \<noteq> OK then (rc, calls, d)
         else
           let (hand, d) = glue_handoff e d
           in (io_tedge_start e,
               calls @ hand @ (if parameters e \<and> telemetry e then [DeclareParameters AGENT_SET] else []) @ [TedgeStart],
               d))"

definition agent_glue_start :: "app_env \<Rightarrow> device \<Rightarrow> rc \<times> app_call list \<times> device" where
  "agent_glue_start e d =
     (let (rc, calls, d) = tedge_init e ''thin-edge.io-zephyr-agent'' d
      in if rc \<noteq> OK then (rc, calls, d)
         else
           let (hand, d) = glue_handoff e d; calls = calls @ hand @ [TedgeStart]
           in if io_tedge_start e \<noteq> OK then (io_tedge_start e, calls, d)
              else (OK, calls @ (if telemetry e then [ScheduleTelemetry (interval_default (tele_cfg e))] else []), d))"

section \<open>Entry points\<close>

text \<open>
  The part every \<open>main\<close> starts with: display, network, and at most a minute for it to come up.
  \<open>rest\<close> is what follows in the image.
\<close>

definition bring_up :: "app_env \<Rightarrow> (device \<Rightarrow> app_call list \<times> device) \<Rightarrow> device \<Rightarrow> app_call list \<times> device" where
  "bring_up e rest d =
     (if io_net_init e \<noteq> OK then ([DisplayInit, StageConnecting, NetInit, StageError], d)
      else if io_wait e \<noteq> OK
      then ([DisplayInit, StageConnecting, NetInit, WaitConnected 60, StageError], d)
      else let (calls, d) = rest d in ([DisplayInit, StageConnecting, NetInit, WaitConnected 60] @ calls, d))"

definition modbus_main :: "app_env \<Rightarrow> device \<Rightarrow> app_call list \<times> device" where
  "modbus_main e = bring_up e (\<lambda>d.
     if io_proto e \<noteq> OK then ([ProtoStart, StageError], d)
     else if tedge e then case modbus_glue_start e d of (_, calls, d) \<Rightarrow> (ProtoStart # calls, d)
     else ([ProtoStart], d))"

definition glue_and_telemetry ::
  "app_env \<Rightarrow> (device \<Rightarrow> rc \<times> app_call list \<times> device) \<Rightarrow> device \<Rightarrow> app_call list \<times> device" where
  "glue_and_telemetry e glue d =
     (if tedge e then
        case glue d of (rc, calls, d) \<Rightarrow>
          (calls @ (if rc = OK \<and> telemetry e then [ScheduleTelemetry (interval_default (tele_cfg e))] else []), d)
      else ([], d))"

definition opcua_main :: "app_env \<Rightarrow> device \<Rightarrow> app_call list \<times> device" where
  "opcua_main e = bring_up e (\<lambda>d.
     if opcua_server e then
       if io_proto e \<noteq> OK then ([ProtoStart, StageError], d)
       else case glue_and_telemetry e (opcua_glue_start e) d of (calls, d) \<Rightarrow> (ProtoStart # calls, d)
     else glue_and_telemetry e (opcua_glue_start e) d)"

definition snmp_main :: "app_env \<Rightarrow> device \<Rightarrow> app_call list \<times> device" where
  "snmp_main e = bring_up e (\<lambda>d.
     if io_proto e \<noteq> OK then ([ProtoStart, StageError], d)
     else case glue_and_telemetry e (snmp_glue_start e) d of (calls, d) \<Rightarrow> (ProtoStart # calls, d))"

definition agent_main :: "app_env \<Rightarrow> device \<Rightarrow> app_call list \<times> device" where
  "agent_main e = bring_up e (\<lambda>d.
     case agent_glue_start e d of (rc, calls, d) \<Rightarrow> (calls @ (if rc \<noteq> OK then [StageError] else []), d))"

section \<open>Hooks and commands\<close>

datatype tedge_state =
    TEDGE_STATE_STOPPED | TEDGE_STATE_WAITING_NETWORK | TEDGE_STATE_WAITING_TIME
  | TEDGE_STATE_AWAITING_REGISTRATION | TEDGE_STATE_CONNECTING | TEDGE_STATE_CONNECTED
  | TEDGE_STATE_UPDATING

text \<open>\<open>on_state\<close>: what the LED shows follows the client.\<close>

definition on_state :: "int \<Rightarrow> tedge_state \<Rightarrow> led_state \<Rightarrow> led_state" where
  "on_state now st led =
     (case st of
        TEDGE_STATE_AWAITING_REGISTRATION \<Rightarrow> status_led_set_mode now STATUS_LED_PROVISIONING led
      | TEDGE_STATE_CONNECTED \<Rightarrow> status_led_set_mode now STATUS_LED_CONNECTED led
      | _ \<Rightarrow> led)"

definition state_names :: "string list" where
  "state_names = [''stopped'', ''waiting-network'', ''waiting-time'', ''awaiting-registration'',
     ''connecting'', ''connected'', ''updating'']"

text \<open>\<open>tedge diag\<close> in a build without the allocator statistics; the state is the raw enum value.\<close>

definition cmd_diag :: "nat \<Rightarrow> nat \<Rightarrow> string" where
  "cmd_diag state uptime_ms =
     ''tedge state='' @ (if state < length state_names then state_names ! state else ''?'')
     @ '' uptime='' @ dec (uptime_ms div 1000) @ ''s''"

datatype severity = TEDGE_ALARM_CRITICAL | TEDGE_ALARM_MAJOR | TEDGE_ALARM_MINOR | TEDGE_ALARM_WARNING

definition severity_names :: "(string \<times> severity) list" where
  "severity_names = [(''critical'', TEDGE_ALARM_CRITICAL), (''major'', TEDGE_ALARM_MAJOR),
     (''minor'', TEDGE_ALARM_MINOR), (''warning'', TEDGE_ALARM_WARNING)]"

text \<open>\<open>tedge alarm [severity] [text]\<close>, \<open>tedge event [text]\<close>, \<open>tedge clear [type]\<close>: what is published.\<close>

definition cmd_alarm :: "string list \<Rightarrow> string \<times> severity \<times> string" where
  "cmd_alarm argv =
     (''app_test_alarm'',
      (if length argv > 1 then
         fold (\<lambda>(n, v) s. if argv ! 1 = n then v else s) severity_names TEDGE_ALARM_WARNING
       else TEDGE_ALARM_WARNING),
      (if length argv > 2 then argv ! 2 else ''test alarm''))"

definition cmd_event :: "string list \<Rightarrow> string \<times> string" where
  "cmd_event argv = (''app_test'', if length argv > 1 then argv ! 1 else ''test event'')"

definition cmd_clear :: "string list \<Rightarrow> string" where
  "cmd_clear argv = (if length argv > 1 then argv ! 1 else ''app_test_alarm'')"

section \<open>Telemetry\<close>

record measurement_value =
  mv_series :: string
  mv_unit :: string
  mv_value :: real

text \<open>
  \<open>telemetry_fn\<close>: what is published, if anything, and the delay in seconds until the next turn.
  The server images send the measurements of their data source, at most eight.
\<close>

definition source_values :: "pump \<Rightarrow> measurement_value list" where
  "source_values p =
     map (\<lambda>i. case data_source_descriptor i of
            Some d \<Rightarrow> \<lparr>mv_series = dm_name d, mv_unit = dm_unit d, mv_value = data_source_sample p i\<rparr>
          | None \<Rightarrow> \<lparr>mv_series = [], mv_unit = [], mv_value = 0\<rparr>)
       [0..<min data_source_count 8]"

definition modbus_telemetry_fn ::
  "telemetry_cfg \<Rightarrow> tedge_params option \<Rightarrow> pump \<Rightarrow> (string \<times> measurement_value list) option \<times> int" where
  "modbus_telemetry_fn t ps p =
     (let count = length (source_values p)
      in case ps of
           Some ps \<Rightarrow>
             (if count > 0 \<and> param_telemetry_on ps then Some (param_measurement_type t ps, source_values p)
              else None, param_interval_s t ps)
         | None \<Rightarrow> (if count > 0 then Some (type_default t, source_values p) else None, interval_default t))"

definition opcua_telemetry_fn ::
  "telemetry_cfg \<Rightarrow> tedge_params option \<Rightarrow> measurement_value list
    \<Rightarrow> (string \<times> measurement_value list) option \<times> int" where
  "opcua_telemetry_fn t ps vs =
     (let interval = (case ps of Some ps \<Rightarrow> param_interval_s t ps | None \<Rightarrow> interval_default t);
          enabled = (case ps of Some ps \<Rightarrow> param_telemetry_on ps | None \<Rightarrow> True)
      in (if enabled \<and> take 8 vs \<noteq> [] then Some (type_default t, take 8 vs) else None, interval))"

definition snmp_telemetry_fn ::
  "telemetry_cfg \<Rightarrow> tedge_params option \<Rightarrow> nat \<Rightarrow> (string \<times> measurement_value list) option \<times> int" where
  "snmp_telemetry_fn t ps uptime_ms =
     (let interval = (case ps of Some ps \<Rightarrow> param_interval_s t ps | None \<Rightarrow> interval_default t);
          enabled = (case ps of Some ps \<Rightarrow> param_telemetry_on ps | None \<Rightarrow> True);
          v = \<lparr>mv_series = ''uptime'', mv_unit = ''s'', mv_value = real (uptime_ms div 1000)\<rparr>
      in (if enabled then Some (type_default t, [v]) else None, interval))"

text \<open>
  The bare agent: uptime, the free heap if it can be read, the signal while associated.
\<close>

definition agent_telemetry_fn ::
  "telemetry_cfg \<Rightarrow> nat \<Rightarrow> nat option \<Rightarrow> bool \<Rightarrow> int option \<Rightarrow> (string \<times> measurement_value list) \<times> int" where
  "agent_telemetry_fn t uptime_ms heap_free online rssi =
     ((type_default t,
       [\<lparr>mv_series = ''uptime'', mv_unit = ''s'', mv_value = real (uptime_ms div 1000)\<rparr>]
       @ (case heap_free of None \<Rightarrow> [] | Some b \<Rightarrow> [\<lparr>mv_series = ''heap_free'', mv_unit = ''B'', mv_value = real b\<rparr>])
       @ (if online then
            case rssi of None \<Rightarrow> [] | Some r \<Rightarrow> [\<lparr>mv_series = ''rssi'', mv_unit = ''dBm'', mv_value = real_of_int r\<rparr>]
          else [])),
      interval_default t)"

section \<open>The application log\<close>

text \<open>
  \<open>status_log\<close> formats each line into a 128-byte buffer and hands the writer as many bytes as
  \<open>snprintf\<close> says the line has. A longer line is cut in the buffer but its whole length is handed
  on: \<open>None\<close> is a read past the end of the buffer.
\<close>

definition LOG_LINE :: nat where "LOG_LINE = 128"

definition log_chunk :: "string \<Rightarrow> string option" where
  "log_chunk text =
     (let buf = take (LOG_LINE - 1) text @ [CHR 0x00]
      in if length text \<le> LOG_LINE then Some (take (length text) buf) else None)"

definition to_int :: "real \<Rightarrow> int" where
  "to_int x = (if x < 0 then - \<lfloor>- x\<rfloor> else \<lfloor>x\<rfloor>)"

text \<open>\<open>%02d\<close>.\<close>

definition dec2 :: "int \<Rightarrow> string" where
  "dec2 i = (let t = dec_int i in if length t < 2 then CHR ''0'' # t else t)"

definition head_line :: "string \<Rightarrow> string \<Rightarrow> string \<Rightarrow> string" where
  "head_line dev fw ver = ''device '' @ dev @ '', firmware '' @ fw @ '' '' @ ver @ [CHR 0x0A]"

definition value_line :: "pump \<Rightarrow> nat \<Rightarrow> string" where
  "value_line p i =
     (case data_source_descriptor i of None \<Rightarrow> []
      | Some d \<Rightarrow>
          let x = data_source_sample p i
          in dm_name d @ '' = '' @ dec_int (to_int x) @ ''.'' @ dec2 (to_int ((x - real_of_int (to_int x)) * 100))
             @ '' '' @ dm_unit d @ [CHR 0x0A])"

text \<open>The lines handed to the writer, in order, and its first error, which ends the log.\<close>

fun write_lines :: "(string option \<Rightarrow> rc) \<Rightarrow> string list \<Rightarrow> string option list \<times> rc" where
  "write_lines wr [] = ([], OK)"
| "write_lines wr (l # ls) =
     (case wr (log_chunk l) of
        OK \<Rightarrow> (let (out, rc) = write_lines wr ls in (log_chunk l # out, rc))
      | Err e \<Rightarrow> ([log_chunk l], Err e))"

definition status_log :: "(string option \<Rightarrow> rc) \<Rightarrow> string \<Rightarrow> string \<Rightarrow> string \<Rightarrow> pump \<Rightarrow> string option list \<times> rc" where
  "status_log wr dev fw ver p = write_lines wr (head_line dev fw ver # map (value_line p) [0..<data_source_count])"

section \<open>The OPC-UA server thread\<close>

record ua_io =
  ua_config_ok :: bool
  ua_new_ok :: bool
  ua_space_ok :: bool
  ua_startup_ok :: bool

record ua_state =
  ua_running :: bool
  ua_failed :: bool
  ua_server :: bool

datatype ua_event = Iterate | SampleAll int

definition opcua_server_start :: "ua_state \<Rightarrow> bool \<times> ua_state" where
  "opcua_server_start s = (if ua_running s then (False, s) else (True, s\<lparr>ua_running := True\<rparr>))"

text \<open>Stopping asks the thread to end and waits for it, at most five seconds.\<close>

definition opcua_server_stop :: "ua_state \<Rightarrow> ua_state" where
  "opcua_server_stop s = s\<lparr>ua_running := False\<rparr>"

text \<open>\<open>configure_server\<close>: the name shown and the resource limits; the last two with subscriptions.\<close>

record ua_limits =
  application_name :: string
  max_sessions :: nat
  max_secure_channels :: nat
  max_session_timeout_ms :: nat
  tcp_buf_size :: nat
  max_subscriptions :: "nat option"
  max_monitored_items :: "nat option"

definition configure_server :: "string \<Rightarrow> (nat \<times> nat) option \<Rightarrow> ua_limits" where
  "configure_server host subscriptions =
     \<lparr>application_name = host, max_sessions = 4, max_secure_channels = 6, max_session_timeout_ms = 10000,
      tcp_buf_size = 8192, max_subscriptions = map_option fst subscriptions,
      max_monitored_items = map_option snd subscriptions\<rparr>"

text \<open>The loop of the thread at the given times, until \<open>running\<close> is cleared.\<close>

fun opcua_loop :: "nat \<Rightarrow> int \<Rightarrow> int list \<Rightarrow> ua_event list" where
  "opcua_loop interval_ms last_sample [] = []"
| "opcua_loop interval_ms last_sample (now # ts) =
     Iterate # (if now - last_sample \<ge> int interval_ms then SampleAll now # opcua_loop interval_ms now ts
                else opcua_loop interval_ms last_sample ts)"

definition opcua_thread_fn :: "nat \<Rightarrow> ua_io \<Rightarrow> int list \<Rightarrow> ua_state \<Rightarrow> ua_event list \<times> ua_state" where
  "opcua_thread_fn interval_ms io ts s =
     (if \<not> ua_config_ok io then ([], s\<lparr>ua_failed := True\<rparr>)
      else if \<not> ua_new_ok io then ([], s\<lparr>ua_failed := True\<rparr>)
      else if \<not> ua_space_ok io then ([], s\<lparr>ua_failed := True, ua_server := False\<rparr>)
      else if \<not> ua_startup_ok io then ([], s\<lparr>ua_failed := True, ua_server := False\<rparr>)
      else (opcua_loop interval_ms 0 ts, s\<lparr>ua_server := False\<rparr>))"

definition opcua_server_failed :: "ua_state \<Rightarrow> bool" where
  "opcua_server_failed s = ua_failed s"

definition firmware_confirm_check :: "ua_state \<Rightarrow> rc" where
  "firmware_confirm_check s = (if opcua_server_failed s then Err EIO else OK)"

text \<open>A server that failed is not started again: \<open>running\<close> stays set until \<open>opcua_server_stop\<close>.\<close>

lemma failed_server_not_restarted:
  assumes "opcua_server_start s = (True, s1)" "opcua_thread_fn interval_ms io ts s1 = (es, s2)"
  shows "opcua_server_start s2 = (False, s2) \<and> fst (opcua_server_start (opcua_server_stop s2))"
  using assms by (auto simp: opcua_server_start_def opcua_thread_fn_def opcua_server_stop_def split: if_splits)

section \<open>Start-up order\<close>

text \<open>The order in which the parts of an image may come up.\<close>

definition phase :: "app_call \<Rightarrow> nat" where
  "phase c = (case c of
     DisplayInit \<Rightarrow> 0 | StageConnecting \<Rightarrow> 1 | NetInit \<Rightarrow> 2 | WaitConnected _ \<Rightarrow> 3 | ProtoStart \<Rightarrow> 4
   | TedgeInit _ _ _ \<Rightarrow> 5 | C8yCall _ \<Rightarrow> 6 | DeclareParameters _ \<Rightarrow> 7 | ControlApply \<Rightarrow> 8
   | TedgeStart \<Rightarrow> 9 | ScheduleTelemetry _ \<Rightarrow> 10 | RegisterLogType _ \<Rightarrow> 11 | StageError \<Rightarrow> 12)"

definition ordered :: "app_call list \<Rightarrow> bool" where
  "ordered cs \<longleftrightarrow> sorted (map phase cs)"

lemma sorted_replicate_phase: "sorted (map (phase \<circ> C8yCall) xs)"
  by (induction xs) (auto simp: phase_def)

definition client_may_start :: "app_env \<Rightarrow> bool" where
  "client_may_start e \<longleftrightarrow> io_net_init e = OK \<and> io_wait e = OK \<and> io_tedge_init e = OK"

lemma tedge_init_form: "\<exists>x y d'. tedge_init e t d = (io_tedge_init e, [TedgeInit x y t], d')"
  by (simp add: tedge_init_def split: prod.split)

lemma glue_handoff_form: "\<exists>cs d'. glue_handoff e d = (map C8yCall cs, d')"
  by (auto simp: glue_handoff_def split: prod.split intro: exI [of _ "[]"])

lemmas order_simps = ordered_def sorted_append sorted_replicate_phase phase_def Let_def client_may_start_def

lemma modbus_tail_order:
  "ordered (fst (snd (modbus_glue_tail e d))) \<and> (\<forall>c \<in> set (fst (snd (modbus_glue_tail e d))). 9 \<le> phase c)
    \<and> TedgeStart \<in> set (fst (snd (modbus_glue_tail e d)))"
  by (auto simp: modbus_glue_tail_def order_simps)

lemma modbus_controls_order:
  "ordered (fst (snd (modbus_glue_controls e d))) \<and> (\<forall>c \<in> set (fst (snd (modbus_glue_controls e d))). 7 \<le> phase c)
    \<and> (TedgeStart \<in> set (fst (snd (modbus_glue_controls e d)))
        \<longleftrightarrow> parameters e \<longrightarrow> io_declare e CONTROL_SET = OK)"
proof (cases "parameters e \<and> io_declare e CONTROL_SET = OK")
  case True
  let ?d = "d\<lparr>dev_controls := control_apply (ctl_cfg e) (param_store e CONTROL_SET) (dev_controls d)\<rparr>"
  obtain rc cs d' where t: "modbus_glue_tail e ?d = (rc, cs, d')" using prod_cases3 by blast
  show ?thesis
    using modbus_tail_order [of e ?d] True by (auto simp: modbus_glue_controls_def t order_simps)
next
  case False
  then show ?thesis
    using modbus_tail_order [of e d] by (auto simp: modbus_glue_controls_def order_simps)
qed

lemma modbus_glue_order:
  "ordered (fst (snd (modbus_glue_start e d))) \<and> (\<forall>c \<in> set (fst (snd (modbus_glue_start e d))). 5 \<le> phase c)
    \<and> (TedgeStart \<in> set (fst (snd (modbus_glue_start e d))) \<longleftrightarrow> io_tedge_init e = OK
        \<and> (parameters e \<longrightarrow> io_declare e CONTROL_SET = OK)
        \<and> (parameters e \<and> telemetry e \<longrightarrow> io_declare e PUMP_SET = OK))"
proof -
  obtain x y d1 where i: "tedge_init e ''thin-edge.io-zephyr-modbus'' d
      = (io_tedge_init e, [TedgeInit x y ''thin-edge.io-zephyr-modbus''], d1)"
    using tedge_init_form by blast
  obtain hs d2 where h: "glue_handoff e d1 = (map C8yCall hs, d2)" using glue_handoff_form by blast
  obtain rc cs d3 where c: "modbus_glue_controls e d2 = (rc, cs, d3)" using prod_cases3 by blast
  show ?thesis
    unfolding modbus_glue_start_def i Let_def prod.case h c
    using modbus_controls_order [of e d2] by (auto simp: c order_simps)
qed

lemma modbus_order:
  "ordered (fst (modbus_main e d)) \<and>
   (TedgeStart \<in> set (fst (modbus_main e d)) \<longleftrightarrow> client_may_start e \<and> tedge e \<and> io_proto e = OK
      \<and> (parameters e \<longrightarrow> io_declare e CONTROL_SET = OK)
      \<and> (parameters e \<and> telemetry e \<longrightarrow> io_declare e PUMP_SET = OK))"
proof -
  obtain rc cs d' where c: "modbus_glue_start e d = (rc, cs, d')" using prod_cases3 by blast
  show ?thesis
    using modbus_glue_order [of e d] by (auto simp: modbus_main_def bring_up_def c order_simps)
qed

lemma opcua_glue_order:
  "ordered (fst (snd (opcua_glue_start e d))) \<and> (\<forall>c \<in> set (fst (snd (opcua_glue_start e d))). 5 \<le> phase c \<and> phase c \<le> 9)
    \<and> (TedgeStart \<in> set (fst (snd (opcua_glue_start e d))) \<longleftrightarrow> io_tedge_init e = OK)"
proof -
  obtain x y d1 where i: "tedge_init e ''thin-edge.io-zephyr-opcua'' d
      = (io_tedge_init e, [TedgeInit x y ''thin-edge.io-zephyr-opcua''], d1)"
    using tedge_init_form by blast
  obtain hs d2 where h: "glue_handoff e d1 = (map C8yCall hs, d2)" using glue_handoff_form by blast
  show ?thesis unfolding opcua_glue_start_def i Let_def prod.case h by (auto simp: order_simps)
qed

lemma snmp_glue_order:
  "ordered (fst (snd (snmp_glue_start e d))) \<and> (\<forall>c \<in> set (fst (snd (snmp_glue_start e d))). 5 \<le> phase c \<and> phase c \<le> 9)
    \<and> (TedgeStart \<in> set (fst (snd (snmp_glue_start e d))) \<longleftrightarrow> io_tedge_init e = OK)"
proof -
  obtain x y d1 where i: "tedge_init e ''thin-edge.io-zephyr-snmp'' d
      = (io_tedge_init e, [TedgeInit x y ''thin-edge.io-zephyr-snmp''], d1)"
    using tedge_init_form by blast
  obtain hs d2 where h: "glue_handoff e d1 = (map C8yCall hs, d2)" using glue_handoff_form by blast
  show ?thesis unfolding snmp_glue_start_def i Let_def prod.case h by (auto simp: order_simps)
qed

lemma agent_glue_order:
  "ordered (fst (snd (agent_glue_start e d))) \<and> (\<forall>c \<in> set (fst (snd (agent_glue_start e d))). 5 \<le> phase c \<and> phase c \<le> 10)
    \<and> (TedgeStart \<in> set (fst (snd (agent_glue_start e d))) \<longleftrightarrow> io_tedge_init e = OK)"
proof -
  obtain x y d1 where i: "tedge_init e ''thin-edge.io-zephyr-agent'' d
      = (io_tedge_init e, [TedgeInit x y ''thin-edge.io-zephyr-agent''], d1)"
    using tedge_init_form by blast
  obtain hs d2 where h: "glue_handoff e d1 = (map C8yCall hs, d2)" using glue_handoff_form by blast
  show ?thesis unfolding agent_glue_start_def i Let_def prod.case h by (auto simp: order_simps)
qed

lemma glue_and_telemetry_order:
  assumes "ordered (fst (snd (glue d)))" "\<forall>c \<in> set (fst (snd (glue d))). 5 \<le> phase c \<and> phase c \<le> 9"
  shows "ordered (fst (glue_and_telemetry e glue d))
    \<and> (\<forall>c \<in> set (fst (glue_and_telemetry e glue d)). 5 \<le> phase c)
    \<and> (TedgeStart \<in> set (fst (glue_and_telemetry e glue d)) \<longleftrightarrow> tedge e \<and> TedgeStart \<in> set (fst (snd (glue d))))"
proof -
  obtain rc cs d' where c: "glue d = (rc, cs, d')" using prod_cases3 by blast
  have t: "phase (ScheduleTelemetry i) = 10" for i by (simp add: phase_def)
  show ?thesis
    using assms by (auto simp: glue_and_telemetry_def c ordered_def sorted_append t)
qed

lemma opcua_order:
  "ordered (fst (opcua_main e d)) \<and>
   (TedgeStart \<in> set (fst (opcua_main e d)) \<longleftrightarrow> client_may_start e \<and> tedge e
      \<and> (opcua_server e \<longrightarrow> io_proto e = OK))"
proof -
  obtain cs d' where c: "glue_and_telemetry e (opcua_glue_start e) d = (cs, d')" by fastforce
  show ?thesis
    using glue_and_telemetry_order [of "opcua_glue_start e" d e] opcua_glue_order [of e d]
    by (auto simp: opcua_main_def bring_up_def c order_simps)
qed

lemma snmp_order:
  "ordered (fst (snmp_main e d)) \<and>
   (TedgeStart \<in> set (fst (snmp_main e d)) \<longleftrightarrow> client_may_start e \<and> tedge e \<and> io_proto e = OK)"
proof -
  obtain cs d' where c: "glue_and_telemetry e (snmp_glue_start e) d = (cs, d')" by fastforce
  show ?thesis
    using glue_and_telemetry_order [of "snmp_glue_start e" d e] snmp_glue_order [of e d]
    by (auto simp: snmp_main_def bring_up_def c order_simps)
qed

lemma agent_order:
  "ordered (fst (agent_main e d)) \<and> (TedgeStart \<in> set (fst (agent_main e d)) \<longleftrightarrow> client_may_start e)"
proof -
  obtain rc cs d' where c: "agent_glue_start e d = (rc, cs, d')" using prod_cases3 by blast
  have "phase c \<le> 12" if "phase c \<le> 10" for c using that by simp
  then show ?thesis
    using agent_glue_order [of e d] by (auto simp: agent_main_def bring_up_def c order_simps)
qed

text \<open>
  Every image comes up in the same order, whatever its configuration and wherever it fails: the
  display, the network, the protocol server, the client's identity, the onboarding data, the
  parameters, and only then the client, its telemetry and its logs. The client is started exactly
  when everything before it that can stop the image has worked: for the Modbus server also the
  declaration of its parameters, which the other servers only warn about.
\<close>

theorem startup_order:
  "(\<forall>main \<in> {modbus_main, opcua_main, snmp_main, agent_main}. ordered (fst (main e d)))
    \<and> (TedgeStart \<in> set (fst (modbus_main e d)) \<longleftrightarrow> client_may_start e \<and> tedge e \<and> io_proto e = OK
        \<and> (parameters e \<longrightarrow> io_declare e CONTROL_SET = OK)
        \<and> (parameters e \<and> telemetry e \<longrightarrow> io_declare e PUMP_SET = OK))
    \<and> (TedgeStart \<in> set (fst (opcua_main e d)) \<longleftrightarrow> client_may_start e \<and> tedge e
        \<and> (opcua_server e \<longrightarrow> io_proto e = OK))
    \<and> (TedgeStart \<in> set (fst (snmp_main e d)) \<longleftrightarrow> client_may_start e \<and> tedge e \<and> io_proto e = OK)
    \<and> (TedgeStart \<in> set (fst (agent_main e d)) \<longleftrightarrow> client_may_start e)"
  using modbus_order [of e d] opcua_order [of e d] snmp_order [of e d] agent_order [of e d] by simp

definition sample_env :: app_env where
  "sample_env =
     \<lparr>cred_store = True, tedge = True, parameters = True, telemetry = True, log_upload = True,
      opcua_server = True, hostname = ''zephyr-0001'', set_io = settings_work,
      client = \<lparr>accept_url = (\<lambda>_. OK), accept_otp = (\<lambda>_. OK)\<rparr>, io_net_init = OK, io_wait = OK, io_proto = OK,
      io_tedge_init = OK, io_declare = (\<lambda>_. OK), io_tedge_start = OK,
      param_store = (\<lambda>_. \<lparr>get_bool = (\<lambda>_. None), get_int = (\<lambda>_. None), get_string = (\<lambda>_. None)\<rparr>),
      ctl_cfg = default_controls_cfg, tele_cfg = \<lparr>interval_default = 30, type_default = ''pump''\<rparr>\<rparr>"

theorem startup_order_witness:
  "TedgeStart \<in> set (fst (modbus_main sample_env (device_boot Map.empty sample_env)))"
  using startup_order [of sample_env "device_boot Map.empty sample_env"]
  by (simp add: sample_env_def client_may_start_def)

section \<open>The identity is stable\<close>

text \<open>The name a device is to be known by: the external ID of its onboarding, if it has one.\<close>

definition known_id :: "app_env \<Rightarrow> settings \<Rightarrow> string" where
  "known_id e st =
     (if cred_store e then
        case prov_c8y_external_id (set_io e) st 64 of Inr x \<Rightarrow> x | Inl _ \<Rightarrow> hostname e
      else hostname e)"

lemma clear_keeps_external_id: "prov_c8y_clear io s (c8y_key ''external_id'') = s (c8y_key ''external_id'')"
  by (simp add: prov_c8y_clear_def c8y_fields_def settings_delete_def split: rc.split)

lemma external_id_only:
  "s (c8y_key ''external_id'') = s' (c8y_key ''external_id'') \<Longrightarrow>
    prov_c8y_external_id io s n = prov_c8y_external_id io s' n"
  by (cases "io_init io")
    (simp_all add: prov_c8y_external_id_def Let_def load_stored stored_def, simp add: prov_c8y_load_def)

lemma handoff_keeps_id:
  assumes "glue_handoff e d = (cs, d')"
  shows "known_id e (dev_settings d') = known_id e (dev_settings d)"
  using assms external_id_only [of "prov_c8y_clear (set_io e) (dev_settings d)" "dev_settings d" "set_io e" 64]
  by (auto simp: glue_handoff_def known_id_def prov_c8y_handoff_def clear_keeps_external_id Let_def
      split: if_splits prod.splits)

lemma tedge_init_known:
  assumes "\<not> looked (dev_ident d)"
  shows "\<exists>d'. dev_settings d' = dev_settings d \<and> (\<forall>t. tedge_init e t d
    = (io_tedge_init e, [TedgeInit (known_id e (dev_settings d)) (known_id e (dev_settings d)) t], d'))"
  using assms
  by (auto simp: tedge_init_def device_id_def app_identity_device_id_def known_id_def prov_c8y_external_id_def
      Let_def split: prod.splits)

definition named :: "string \<Rightarrow> app_call \<Rightarrow> bool" where
  "named i c = (case c of TedgeInit x y _ \<Rightarrow> x = i \<and> y = i | _ \<Rightarrow> True)"

definition keeps_id :: "app_env \<Rightarrow> string \<Rightarrow> app_call list \<times> device \<Rightarrow> bool" where
  "keeps_id e i r \<longleftrightarrow> known_id e (dev_settings (snd r)) = i \<and> list_all (named i) (fst r)"

lemma named_simps [simp]:
  "named i DisplayInit" "named i StageConnecting" "named i StageError" "named i NetInit"
  "named i (WaitConnected n)" "named i ProtoStart" "named i (TedgeInit x y t) \<longleftrightarrow> x = i \<and> y = i"
  "named i (C8yCall c)" "named i (DeclareParameters s)" "named i ControlApply" "named i TedgeStart"
  "named i (ScheduleTelemetry d)" "named i (RegisterLogType s)"
  by (simp_all add: named_def)

lemma named_map [simp]: "list_all (named i) (map C8yCall hs)"
  by (simp add: list_all_iff)

lemma modbus_controls_keep:
  "keeps_id e (known_id e (dev_settings d)) (snd (modbus_glue_controls e d))"
  by (auto simp: keeps_id_def modbus_glue_controls_def modbus_glue_tail_def Let_def)

lemma glue_keeps_id:
  assumes "\<not> looked (dev_ident d)"
    and "glue \<in> {modbus_glue_start, opcua_glue_start, snmp_glue_start, agent_glue_start}"
  shows "keeps_id e (known_id e (dev_settings d)) (snd (glue e d))"
proof -
  obtain d1 where i: "\<And>t. tedge_init e t d
      = (io_tedge_init e, [TedgeInit (known_id e (dev_settings d)) (known_id e (dev_settings d)) t], d1)"
    and s1: "dev_settings d1 = dev_settings d"
    using tedge_init_known [OF assms(1), of e] by blast
  obtain hs d2 where h: "glue_handoff e d1 = (map C8yCall hs, d2)" using glue_handoff_form by blast
  have s2: "known_id e (dev_settings d2) = known_id e (dev_settings d)" using handoff_keeps_id [OF h] s1 by simp
  obtain rc cs d3 where c: "modbus_glue_controls e d2 = (rc, cs, d3)" using prod_cases3 by blast
  have "keeps_id e (known_id e (dev_settings d)) (cs, d3)" using modbus_controls_keep [of e d2] c s2 by simp
  then show ?thesis
    using assms(2) s1 s2
    by (elim insertE emptyE)
      (simp_all add: modbus_glue_start_def opcua_glue_start_def snmp_glue_start_def agent_glue_start_def
        i h c keeps_id_def Let_def)
qed

lemma bring_up_keeps:
  "keeps_id e (known_id e (dev_settings d)) (rest d) \<Longrightarrow> keeps_id e (known_id e (dev_settings d)) (bring_up e rest d)"
  by (auto simp: bring_up_def keeps_id_def split: prod.split)

lemma telemetry_keeps:
  "keeps_id e (known_id e (dev_settings d)) (snd (glue d)) \<Longrightarrow>
    keeps_id e (known_id e (dev_settings d)) (glue_and_telemetry e glue d)"
  by (auto simp: glue_and_telemetry_def keeps_id_def split: prod.split)

lemma main_keeps_id:
  assumes "\<not> looked (dev_ident d)" "main \<in> {modbus_main, opcua_main, snmp_main, agent_main}"
  shows "keeps_id e (known_id e (dev_settings d)) (main e d)"
proof -
  let ?K = "keeps_id e (known_id e (dev_settings d))"
  have g: "?K (snd (modbus_glue_start e d))" "?K (snd (opcua_glue_start e d))"
    "?K (snd (snmp_glue_start e d))" "?K (snd (agent_glue_start e d))"
    using glue_keeps_id [OF assms(1), of _ e] by simp_all
  have "?K (modbus_main e d)" unfolding modbus_main_def
    by (rule bring_up_keeps) (use g(1) in \<open>auto simp: keeps_id_def split: prod.split\<close>)
  moreover have "?K (opcua_main e d)" unfolding opcua_main_def
    by (rule bring_up_keeps) (use telemetry_keeps [of e d "opcua_glue_start e", OF g(2)] in \<open>auto simp: keeps_id_def split: prod.split\<close>)
  moreover have "?K (snmp_main e d)" unfolding snmp_main_def
    by (rule bring_up_keeps) (use telemetry_keeps [of e d "snmp_glue_start e", OF g(3)] in \<open>auto simp: keeps_id_def split: prod.split\<close>)
  moreover have "?K (agent_main e d)" unfolding agent_main_def
    by (rule bring_up_keeps) (use g(4) in \<open>auto simp: keeps_id_def split: prod.split\<close>)
  ultimately show ?thesis using assms(2) by auto
qed

definition next_boot :: "(app_env \<Rightarrow> device \<Rightarrow> app_call list \<times> device) \<Rightarrow> app_env \<Rightarrow> settings \<Rightarrow> settings" where
  "next_boot main e st = dev_settings (snd (main e (device_boot st e)))"

text \<open>
  The cloud knows a device by one name: however often it boots, and although the hand-over erases
  the onboarding data, the client is always started under the external ID of the onboarding, or
  under the host name of a device that never had one.
\<close>

theorem identity_survives_handoff:
  assumes "main \<in> {modbus_main, opcua_main, snmp_main, agent_main}"
    and "TedgeInit x y t \<in> set (fst (main e (device_boot ((next_boot main e ^^ k) st) e)))"
  shows "x = known_id e st \<and> y = known_id e st"
proof -
  have k: "keeps_id e (known_id e s) (main e (device_boot s e))" for s
    using main_keeps_id [of "device_boot s e" main e] assms(1) by (simp add: device_boot_def)
  have "known_id e ((next_boot main e ^^ k) st) = known_id e st"
    by (induction k) (use k in \<open>auto simp: next_boot_def keeps_id_def\<close>)
  then show ?thesis
    using k [of "(next_boot main e ^^ k) st"] assms(2) by (auto simp: keeps_id_def list_all_iff)
qed

theorem identity_survives_handoff_witness:
  "let st = [c8y_key ''external_id'' \<mapsto> ''plant-7'', c8y_key ''otp'' \<mapsto> ''pw'']
   in (\<exists>y t. TedgeInit ''plant-7'' y t \<in> set (fst (agent_main sample_env
        (device_boot ((next_boot agent_main sample_env ^^ 3) st) sample_env))))"
proof -
  let ?st = "[c8y_key ''external_id'' \<mapsto> ''plant-7'', c8y_key ''otp'' \<mapsto> ''pw'']"
  let ?d = "device_boot ((next_boot agent_main sample_env ^^ 3) ?st) sample_env"
  obtain x y d' where "tedge_init sample_env ''thin-edge.io-zephyr-agent'' ?d
      = (io_tedge_init sample_env, [TedgeInit x y ''thin-edge.io-zephyr-agent''], d')"
    using tedge_init_form by blast
  then have m: "TedgeInit x y ''thin-edge.io-zephyr-agent'' \<in> set (fst (agent_main sample_env ?d))"
    by (simp add: agent_main_def bring_up_def agent_glue_start_def sample_env_def Let_def split: prod.split)
  have "known_id sample_env ?st = ''plant-7''"
    by (simp add: known_id_def sample_env_def prov_c8y_external_id_def load_stored settings_work_def stored_def
        cstr_def Let_def)
  then show ?thesis using identity_survives_handoff [of agent_main x y "''thin-edge.io-zephyr-agent''" sample_env 3 ?st] m by auto
qed

section \<open>The log upload\<close>

lemma log_chunk_exact: "length text < LOG_LINE \<Longrightarrow> log_chunk text = Some text"
  by (simp add: log_chunk_def LOG_LINE_def)

lemma log_chunk_overread: "LOG_LINE < length text \<Longrightarrow> log_chunk text = None"
  by (simp add: log_chunk_def)

lemma write_lines_ok: "write_lines (\<lambda>_. OK) ls = (map log_chunk ls, OK)"
  by (induction ls) simp_all

lemma length_dec_int: "0 \<le> i \<Longrightarrow> i < 10 ^ k \<Longrightarrow> 0 < k \<Longrightarrow> length (dec_int i) \<le> k"
  using length_dec [of k "nat i"] by (simp add: dec_int_def nat_less_iff)

lemma fraction_two_digits: "0 \<le> x \<Longrightarrow> length (dec2 (to_int ((x - real_of_int (to_int x)) * 100))) \<le> 2"
proof -
  assume x: "0 \<le> x"
  let ?f = "to_int ((x - real_of_int (to_int x)) * 100)"
  have "0 \<le> ?f" "?f < 100" using x by (simp_all add: to_int_def floor_less_iff) linarith+
  then have "length (dec_int ?f) \<le> 2" using length_dec_int [of ?f 2] by simp
  then show ?thesis by (simp add: dec2_def Let_def)
qed

lemma value_line_fits:
  assumes "pump_ok p" "run_hours p < 10 ^ 9"
  shows "length (value_line p i) < LOG_LINE"
proof (cases "i < 6")
  case True
  let ?x = "data_source_sample p i"
  have i: "i \<in> {0, 1, 2, 3, 4, 5}" using True by auto
  then have x: "0 \<le> ?x" "?x < 10 ^ 9"
    using assms by (auto simp: pump_ok_def data_source_sample_def)
  then have "length (dec_int (to_int ?x)) \<le> 9"
    by (intro length_dec_int) (simp_all add: to_int_def floor_less_iff)
  moreover have "length (dec2 (to_int ((?x - real_of_int (to_int ?x)) * 100))) \<le> 2"
    using fraction_two_digits x(1) by blast
  moreover obtain d where d: "data_source_descriptor i = Some d" "length (dm_name d) \<le> 13" "length (dm_unit d) \<le> 5"
    using i by (auto simp: data_source_descriptor_def descriptors_def eval_nat_numeral)
  ultimately show ?thesis by (simp add: value_line_def Let_def LOG_LINE_def)
next
  case False
  then show ?thesis by (simp add: value_line_def data_source_descriptor_def LOG_LINE_def)
qed

text \<open>
  The status log hands the writer exactly the formatted lines as long as device ID, firmware name
  and version together have at most 107 characters; from 109 on the first write reads past the end
  of the line buffer. The lines of the pump's measurements always fit.
\<close>

theorem status_log_lines:
  assumes "pump_ok p" "run_hours p < 10 ^ 9"
  defines "n \<equiv> \<lambda>dev fw ver. length dev + length fw + length (ver :: string)"
  shows "(n dev fw ver \<le> 107 \<longrightarrow> status_log (\<lambda>_. OK) dev fw ver p
        = (Some (head_line dev fw ver) # map (\<lambda>i. Some (value_line p i)) [0..<6], OK))
    \<and> (109 \<le> n dev fw ver \<longrightarrow> hd (fst (status_log (\<lambda>_. OK) dev fw ver p)) = None)"
proof -
  have l: "length (head_line dev fw ver) = 20 + n dev fw ver" by (simp add: head_line_def n_def)
  have "map (log_chunk \<circ> value_line p) [0..<6] = map (\<lambda>i. Some (value_line p i)) [0..<6]"
    using value_line_fits [OF assms(1, 2)] by (auto simp: log_chunk_exact)
  then show ?thesis
    using l log_chunk_exact [of "head_line dev fw ver"] log_chunk_overread [of "head_line dev fw ver"]
    by (simp add: status_log_def write_lines_ok data_source_count_def LOG_LINE_def del: upt_Suc)
qed

theorem status_log_lines_witness:
  "hd (fst (status_log (\<lambda>_. OK) (replicate 63 CHR ''x'') (replicate 32 CHR ''f'') ''2026.10.0-rc.1'' (data_source_init pump_boot)))
    = None"
  using status_log_lines [OF init_ok, of "replicate 63 CHR ''x''" "replicate 32 CHR ''f''" "''2026.10.0-rc.1''"]
  by (simp add: data_source_init_def pump_boot_def)

section \<open>The OPC-UA server\<close>

definition samples :: "ua_event list \<Rightarrow> int list" where
  "samples es = concat (map (\<lambda>e. case e of SampleAll t \<Rightarrow> [t] | Iterate \<Rightarrow> []) es)"

lemma samples_simps [simp]:
  "samples [] = []" "samples (Iterate # es) = samples es" "samples (SampleAll t # es) = t # samples es"
  by (simp_all add: samples_def)

lemma loop_samples:
  assumes "sorted (l # ts)" "0 < ms"
  shows "set (samples (opcua_loop ms l ts)) \<subseteq> set ts
    \<and> sorted_wrt (\<lambda>a b. a + int ms \<le> b) (l # samples (opcua_loop ms l ts))
    \<and> (\<forall>t \<in> set ts. \<exists>u \<in> set (l # samples (opcua_loop ms l ts)). u \<le> t \<and> t < u + int ms)"
  using assms(1)
proof (induction ts arbitrary: l)
  case Nil
  then show ?case by simp
next
  case (Cons t ts)
  show ?case
  proof (cases "t - l \<ge> int ms")
    case True
    then show ?thesis using Cons.IH [of t] Cons.prems assms(2) by fastforce
  next
    case False
    then show ?thesis using Cons.IH [of l] Cons.prems by auto
  qed
qed

text \<open>
  An update of the OPC-UA firmware is confirmed exactly when its server got into its loop, and
  there every value is written once per interval: two updates are never less than an interval
  apart, and no turn of the loop starts later than an interval after the last update without
  making one.
\<close>

theorem opcua_confirmed_iff_serving:
  assumes "opcua_thread_fn ms io ts s = (es, s')" "\<not> ua_failed s" "sorted (0 # ts)" "0 < ms"
  shows "(firmware_confirm_check s' = OK \<longleftrightarrow>
      ua_config_ok io \<and> ua_new_ok io \<and> ua_space_ok io \<and> ua_startup_ok io)
    \<and> (firmware_confirm_check s' = OK \<longrightarrow>
        length (filter (\<lambda>e. e = Iterate) es) = length ts
        \<and> sorted_wrt (\<lambda>a b. a + int ms \<le> b) (0 # samples es)
        \<and> (\<forall>t \<in> set ts. \<exists>u \<in> set (0 # samples es). u \<le> t \<and> t < u + int ms))"
proof -
  have "length (filter (\<lambda>e. e = Iterate) (opcua_loop ms l ts)) = length ts" for l
    by (induction ts arbitrary: l) auto
  then show ?thesis
    using assms(1, 2) loop_samples [OF assms(3, 4)]
    by (auto simp: opcua_thread_fn_def firmware_confirm_check_def opcua_server_failed_def split: if_splits)
qed

theorem opcua_confirmed_iff_serving_witness:
  "firmware_confirm_check (snd (opcua_thread_fn 1000
      \<lparr>ua_config_ok = True, ua_new_ok = True, ua_space_ok = False, ua_startup_ok = True\<rparr> [10, 20]
      \<lparr>ua_running = True, ua_failed = False, ua_server = True\<rparr>)) \<noteq> OK"
proof -
  let ?r = "opcua_thread_fn 1000 \<lparr>ua_config_ok = True, ua_new_ok = True, ua_space_ok = False, ua_startup_ok = True\<rparr>
      [10, 20] \<lparr>ua_running = True, ua_failed = False, ua_server = True\<rparr>"
  have "?r = (fst ?r, snd ?r)" by simp
  from opcua_confirmed_iff_serving [OF this] show ?thesis by simp
qed

end
