(* ===== verification/Ztp_Link.thy ===== *)
theory Ztp_Link
  imports Prelude
begin

text \<open>
  The BLE link of the provisioner, \<^verbatim>\<open>src/apps/wifi-provisioner/src/ztp.c\<close>: reassembly of the
  framed messages a relay writes, the queue to the main thread, and the framing of what is sent.
  A message is a sequence of fragments, each a big-endian length and that many bytes; a zero
  length ends it.
\<close>

abbreviation (input) FRAG_MAX :: nat where "FRAG_MAX \<equiv> 512"
abbreviation (input) TX_FRAG_MAX :: nat where "TX_FRAG_MAX \<equiv> 180"
abbreviation (input) QUEUE_MAX :: nat where "QUEUE_MAX \<equiv> 4"

datatype ztp_msg = MSG_KICK | MSG_RESPONSE | MSG_OVERFLOW | MSG_BUTTON

text \<open>
  The reassembly state: \<open>rx_buf\<close> up to \<open>rx_len\<close>, \<open>frag\<close> up to \<open>frag_have\<close>, and the message queue.
\<close>

record rx_state =
  rx_buf :: bytes
  rx_overflow :: bool
  rx_busy :: bool
  frag :: bytes
  ztp_q :: "ztp_msg list"

definition rx_init :: rx_state where
  "rx_init = \<lparr>rx_buf = [], rx_overflow = False, rx_busy = False, frag = [], ztp_q = []\<rparr>"

text \<open>A full queue drops the message: the result of \<open>k_msgq_put\<close> is not looked at.\<close>

definition post :: "ztp_msg \<Rightarrow> rx_state \<Rightarrow> rx_state" where
  "post m s = (if length (ztp_q s) < QUEUE_MAX then s\<lparr>ztp_q := ztp_q s @ [m]\<rparr> else s)"

definition rx_reset :: "rx_state \<Rightarrow> rx_state" where
  "rx_reset s = s\<lparr>rx_buf := [], rx_overflow := False, frag := []\<rparr>"

definition release_rx :: "rx_state \<Rightarrow> rx_state" where
  "release_rx s = (rx_reset s)\<lparr>rx_busy := False\<rparr>"

definition rx_fragment :: "nat \<Rightarrow> rx_state \<Rightarrow> rx_state" where
  "rx_fragment rx_bytes s =
     (let n = be_nat (take 2 (frag s))
      in if n = 0 then
           post (if rx_buf s = [] then MSG_KICK else if rx_overflow s then MSG_OVERFLOW else MSG_RESPONSE)
             (s\<lparr>rx_busy := True\<rparr>)
         else if length (rx_buf s) + n > rx_bytes then s\<lparr>rx_overflow := True\<rparr>
         else s\<lparr>rx_buf := rx_buf s @ take n (drop 2 (frag s))\<rparr>)"

definition write_request :: "nat \<Rightarrow> bool \<Rightarrow> nat \<Rightarrow> bytes \<Rightarrow> rx_state \<Rightarrow> att \<times> rx_state" where
  "write_request rx_bytes prepare off buf s =
     (if prepare then (Took 0, s)
      else if rx_busy s then (Took (length buf), s)
      else
        let s = (if off = 0 then s\<lparr>frag := []\<rparr> else s)
        in if off \<noteq> 0 \<and> off \<noteq> length (frag s) then (INVALID_OFFSET, s)
           else if length (frag s) + length buf > 2 + FRAG_MAX then (INVALID_ATTRIBUTE_LEN, s)
           else
             let s = s\<lparr>frag := frag s @ buf\<rparr>
             in if length (frag s) \<ge> 2 \<and> length (frag s) \<ge> 2 + be_nat (take 2 (frag s))
                then (Took (length buf), (rx_fragment rx_bytes s)\<lparr>frag := []\<rparr>)
                else (Took (length buf), s))"

text \<open>The receive side of \<open>on_disconnected\<close>, and the debounced button.\<close>

definition rx_disconnected :: "rx_state \<Rightarrow> rx_state" where
  "rx_disconnected s = (if rx_busy s then s else rx_reset s)"

definition ztp_btn_work_fn :: "bool \<Rightarrow> bool \<Rightarrow> rx_state \<Rightarrow> bool \<times> rx_state" where
  "ztp_btn_work_fn btn_level level s =
     (if level \<noteq> btn_level then (level, if level then post MSG_BUTTON s else s) else (btn_level, s))"

section \<open>Sending\<close>

text \<open>
  The Bluetooth stack while a message is sent: for the \<open>i\<close>-th notification, whether the relay is
  still connected and what \<open>bt_gatt_notify\<close> returns; and the negotiated MTU.
\<close>

record tx_io =
  tx_connected :: "nat \<Rightarrow> bool"
  tx_notify :: "nat \<Rightarrow> rc"
  tx_mtu :: nat

text \<open>The try counter \<open>i\<close>, the number \<open>k\<close> of notifications so far, and what went out.\<close>

fun notify_retry :: "tx_io \<Rightarrow> nat \<Rightarrow> nat \<Rightarrow> bytes \<Rightarrow> bytes list \<Rightarrow> rc \<times> nat \<times> bytes list" where
  "notify_retry io 0 k p out = (Err ENOMEM, k, out)"
| "notify_retry io (Suc i) k p out =
     (if \<not> tx_connected io k then (Err ENOTCONN, k, out)
      else case tx_notify io k of
        Err ENOMEM \<Rightarrow> notify_retry io i (k + 1) p out
      | Err e \<Rightarrow> (Err e, k + 1, out)
      | OK \<Rightarrow> (OK, k + 1, out @ [p]))"

definition put_be16 :: "nat \<Rightarrow> bytes" where
  "put_be16 n = [of_nat (n div 256), of_nat n]"

text \<open>The loop over the chunks of the data, then the empty frame that ends the message.\<close>

function send_chunks :: "tx_io \<Rightarrow> nat \<Rightarrow> nat \<Rightarrow> bytes \<Rightarrow> bytes list \<Rightarrow> rc \<times> nat \<times> bytes list" where
  "send_chunks io chunk k data out =
     (if data = [] \<or> chunk = 0 then notify_retry io 250 k (put_be16 0) out
      else
        let n = min chunk (length data)
        in case notify_retry io 250 k (put_be16 n @ take n data) out of
             (OK, k, out) \<Rightarrow> send_chunks io chunk k (drop n data) out
           | (Err e, k, out) \<Rightarrow> (Err e, k, out))"
  by pat_completeness auto
termination
  by (relation "measure (\<lambda>(io, chunk, k, data, out). length data)") (auto simp: Let_def)

declare send_chunks.simps [simp del]

text \<open>
  \<open>(size_t)mtu - 3 - 2\<close> wraps below 5, and \<open>MIN\<close> then picks \<open>TX_FRAG_MAX\<close>.
\<close>

definition tx_chunk :: "nat \<Rightarrow> nat" where
  "tx_chunk mtu = (if mtu < 5 then TX_FRAG_MAX else min TX_FRAG_MAX (mtu - 5))"

definition send_message :: "tx_io \<Rightarrow> bytes \<Rightarrow> rc \<times> bytes list" where
  "send_message io data =
     (if \<not> tx_connected io 0 then (Err ENOTCONN, [])
      else if tx_chunk (tx_mtu io) = 0 then (Err EINVAL, [])
      else case send_chunks io (tx_chunk (tx_mtu io)) 0 data [] of (rc, k, out) \<Rightarrow> (rc, out))"

section \<open>Events\<close>

text \<open>
  What can touch the receive state: the relay's writes, a disconnect, the button, and the main
  thread taking the next message and, when it is done with it, releasing the buffer. \<open>TakeMsg\<close>
  returns nothing here; the main thread's reaction is in the run loop.
\<close>

datatype link_event =
    Write bool nat bytes
  | Disconnect
  | Button
  | TakeMsg

definition link_react :: "nat \<Rightarrow> link_event \<Rightarrow> rx_state \<Rightarrow> rx_state" where
  "link_react rx_bytes e s =
     (case e of
        Write p off buf \<Rightarrow> snd (write_request rx_bytes p off buf s)
      | Disconnect \<Rightarrow> rx_disconnected s
      | Button \<Rightarrow> post MSG_BUTTON s
      | TakeMsg \<Rightarrow>
          (case ztp_q s of
             [] \<Rightarrow> s
           | m # q \<Rightarrow> let s = s\<lparr>ztp_q := q\<rparr> in if m = MSG_BUTTON then s else release_rx s))"

definition rx_messages :: "rx_state \<Rightarrow> ztp_msg list" where
  "rx_messages s = filter (\<lambda>m. m \<noteq> MSG_BUTTON) (ztp_q s)"

text \<open>
  Buffers and queue within bounds, and ownership: a message waits for the main thread only while
  \<open>rx_busy\<close> keeps the Bluetooth thread out of the buffer, and never more than one does.
\<close>

definition link_ok :: "nat \<Rightarrow> rx_state \<Rightarrow> bool" where
  "link_ok rx_bytes s \<longleftrightarrow>
     length (rx_buf s) \<le> rx_bytes \<and> length (frag s) \<le> 2 + FRAG_MAX \<and> length (ztp_q s) \<le> QUEUE_MAX
     \<and> length (rx_messages s) \<le> 1 \<and> (rx_messages s \<noteq> [] \<longrightarrow> rx_busy s)"

lemma post_simps [simp]:
  "rx_buf (post m s) = rx_buf s" "rx_overflow (post m s) = rx_overflow s" "rx_busy (post m s) = rx_busy s"
  "frag (post m s) = frag s"
  by (simp_all add: post_def)

lemma rx_reset_simps [simp]:
  "rx_buf (rx_reset s) = []" "frag (rx_reset s) = []" "rx_busy (rx_reset s) = rx_busy s"
  "ztp_q (rx_reset s) = ztp_q s" "rx_overflow (rx_reset s) = False"
  by (simp_all add: rx_reset_def)

lemma rx_messages_post:
  "rx_messages (post m s) = (if length (ztp_q s) < QUEUE_MAX \<and> m \<noteq> MSG_BUTTON
     then rx_messages s @ [m] else rx_messages s)"
  by (simp add: rx_messages_def post_def)

lemma rx_messages_frame:
  "ztp_q t = ztp_q s \<Longrightarrow> rx_messages t = rx_messages s"
  by (simp add: rx_messages_def)

lemma post_ok:
  assumes "link_ok n s" and "m \<noteq> MSG_BUTTON \<Longrightarrow> rx_messages s = [] \<and> rx_busy s"
  shows "link_ok n (post m s)"
proof -
  have "length (ztp_q (post m s)) \<le> QUEUE_MAX" using assms(1) by (simp add: post_def link_ok_def)
  moreover have "length (rx_messages (post m s)) \<le> 1" "rx_messages (post m s) \<noteq> [] \<longrightarrow> rx_busy s"
    using assms by (auto simp: rx_messages_post link_ok_def)
  ultimately show ?thesis using assms(1) by (simp add: link_ok_def)
qed

lemma link_ok_frame:
  assumes "link_ok n s" "length (rx_buf t) \<le> n" "length (frag t) \<le> 2 + FRAG_MAX" "ztp_q t = ztp_q s"
    "rx_busy s \<longrightarrow> rx_busy t"
  shows "link_ok n t"
  using assms by (auto simp: link_ok_def rx_messages_def)

lemma rx_fragment_ok:
  assumes ok: "link_ok n s" and nb: "\<not> rx_busy s"
  shows "link_ok n ((rx_fragment n s)\<lparr>frag := []\<rparr>)"
proof -
  have none: "rx_messages (s\<lparr>rx_busy := True\<rparr>) = []"
    using ok nb by (auto simp: link_ok_def rx_messages_def)
  have "link_ok n (s\<lparr>rx_busy := True\<rparr>)" by (rule link_ok_frame [OF ok]) (use ok in \<open>simp_all add: link_ok_def\<close>)
  then have posted: "link_ok n (post m (s\<lparr>rx_busy := True\<rparr>))" for m
    by (rule post_ok) (simp add: none)
  have inside: "length (rx_buf s) \<le> n" "length (frag s) \<le> 2 + FRAG_MAX" using ok by (simp_all add: link_ok_def)
  show ?thesis
  proof (cases "be_nat (take 2 (frag s)) = 0")
    case True
    then have "\<exists>m. rx_fragment n s = post m (s\<lparr>rx_busy := True\<rparr>)" by (auto simp: rx_fragment_def)
    then obtain m where m: "rx_fragment n s = post m (s\<lparr>rx_busy := True\<rparr>)" by blast
    show ?thesis unfolding m by (rule link_ok_frame [OF posted]) (simp_all add: inside)
  next
    case False
    then show ?thesis
      using inside by (intro link_ok_frame [OF ok]) (auto simp: rx_fragment_def Let_def)
  qed
qed

lemma write_request_ok: "link_ok n s \<Longrightarrow> link_ok n (snd (write_request n p off buf s))"
proof -
  assume ok: "link_ok n s"
  define s1 where "s1 = (if off = 0 then s\<lparr>frag := []\<rparr> else s)"
  define s2 where "s2 = s1\<lparr>frag := frag s1 @ buf\<rparr>"
  have ok1: "link_ok n s1" using ok by (simp add: s1_def link_ok_def rx_messages_def)
  have busy: "rx_busy s2 = rx_busy s" by (simp add: s1_def s2_def)
  have ok2: "link_ok n s2" if "length (frag s1) + length buf \<le> 2 + FRAG_MAX"
    using ok1 that by (simp add: s2_def link_ok_def rx_messages_def)
  show ?thesis
    using ok ok1 ok2 busy rx_fragment_ok [of n s2]
    by (simp add: write_request_def Let_def flip: s1_def s2_def)
qed

interpretation link: event_system "link_react n" "link_ok n" for n
proof
  fix s e assume ok: "link_ok n s"
  show "link_ok n (link_react n e s)"
  proof (cases e)
    case (Write p off buf)
    then show ?thesis using ok by (simp add: link_react_def write_request_ok)
  next
    case Disconnect
    then show ?thesis using ok by (auto simp: link_react_def rx_disconnected_def link_ok_def rx_messages_def)
  next
    case Button
    moreover have "link_ok n (post MSG_BUTTON s)" by (rule post_ok [OF ok]) simp
    ultimately show ?thesis by (simp add: link_react_def)
  next
    case TakeMsg
    show ?thesis
    proof (cases "ztp_q s")
      case (Cons m q)
      have "link_ok n (s\<lparr>ztp_q := q\<rparr>)" "m \<noteq> MSG_BUTTON \<Longrightarrow> rx_messages (s\<lparr>ztp_q := q\<rparr>) = []"
        using ok Cons by (auto simp: link_ok_def rx_messages_def split: if_splits)
      then show ?thesis
        using TakeMsg Cons by (auto simp: link_react_def Let_def release_rx_def link_ok_def rx_messages_def)
    qed (use TakeMsg ok in \<open>simp add: link_react_def\<close>)
  qed
qed


section \<open>Reassembly\<close>

text \<open>A framed message: its fragments, each small enough for one write, and the empty frame.\<close>

definition frame :: "bytes \<Rightarrow> bytes" where
  "frame d = put_be16 (length d) @ d"

definition frag_ok :: "bytes \<Rightarrow> bool" where
  "frag_ok d \<longleftrightarrow> d \<noteq> [] \<and> length d \<le> FRAG_MAX"

definition write_frames :: "nat \<Rightarrow> bytes list \<Rightarrow> rx_state \<Rightarrow> rx_state" where
  "write_frames n fs s = fold (\<lambda>f s. snd (write_request n False 0 f s)) fs s"

lemma be_nat_put_be16: "n < 65536 \<Longrightarrow> be_nat (put_be16 n) = n"
proof -
  assume n: "n < 65536"
  have hi: "unat (of_nat (n div 256) :: byte) = n div 256"
    using n by (simp add: unat_of_nat take_bit_eq_mod less_mult_imp_div_less)
  have "unat (of_nat n :: byte) = n mod 256" by (simp add: unat_of_nat take_bit_eq_mod)
  with hi show ?thesis by (simp add: put_be16_def div_mult_mod_eq)
qed

lemma length_put_be16 [simp]: "length (put_be16 n) = 2"
  by (simp add: put_be16_def)

lemma write_frame:
  assumes "\<not> rx_busy s" "length d \<le> FRAG_MAX"
  shows "snd (write_request n False 0 (frame d) s)
    = (if d = [] then (post (if rx_buf s = [] then MSG_KICK else if rx_overflow s then MSG_OVERFLOW else MSG_RESPONSE)
          (s\<lparr>rx_busy := True\<rparr>))\<lparr>frag := []\<rparr>
       else if length (rx_buf s) + length d > n then s\<lparr>rx_overflow := True, frag := []\<rparr>
       else s\<lparr>rx_buf := rx_buf s @ d, frag := []\<rparr>)"
proof -
  have len: "be_nat (take 2 (frame d)) = length d"
    using assms(2) by (simp add: frame_def be_nat_put_be16)
  have body: "drop 2 (frame d) = d" "length (frame d) = 2 + length d" by (simp_all add: frame_def)
  show ?thesis
    using assms by (simp add: write_request_def rx_fragment_def len body post_def)
qed

lemma write_frames_body:
  assumes "list_all frag_ok ds" "length (rx_buf s) + length (concat ds) \<le> n" "\<not> rx_busy s"
  shows "write_frames n (map frame ds) s = s\<lparr>rx_buf := rx_buf s @ concat ds,
     frag := if ds = [] then frag s else []\<rparr>"
  using assms
proof (induction ds arbitrary: s)
  case Nil
  then show ?case by (simp add: write_frames_def)
next
  case (Cons d ds)
  have "snd (write_request n False 0 (frame d) s) = s\<lparr>rx_buf := rx_buf s @ d, frag := []\<rparr>"
    using Cons.prems write_frame [of s d n] by (auto simp: frag_ok_def)
  then show ?case
    using Cons.IH [of "s\<lparr>rx_buf := rx_buf s @ d, frag := []\<rparr>"] Cons.prems by (simp add: write_frames_def)
qed

lemma write_frames_overflow:
  assumes "list_all (\<lambda>d. length d \<le> FRAG_MAX \<and> d \<noteq> []) ds" "\<not> rx_busy s" "length (rx_buf s) \<le> n"
  shows "\<not> rx_busy (write_frames n (map frame ds) s)
    \<and> ztp_q (write_frames n (map frame ds) s) = ztp_q s
    \<and> (rx_buf s \<noteq> [] \<longrightarrow> rx_buf (write_frames n (map frame ds) s) \<noteq> [])
    \<and> (rx_overflow s \<or> length (rx_buf s) + length (concat ds) > n
        \<longrightarrow> rx_overflow (write_frames n (map frame ds) s))"
  using assms
proof (induction ds arbitrary: s)
  case Nil
  then show ?case by (simp add: write_frames_def)
next
  case (Cons d ds)
  define t where "t = snd (write_request n False 0 (frame d) s)"
  have t: "t = (if length (rx_buf s) + length d > n then s\<lparr>rx_overflow := True, frag := []\<rparr>
       else s\<lparr>rx_buf := rx_buf s @ d, frag := []\<rparr>)"
    using Cons.prems write_frame [of s d n] by (simp add: t_def)
  have step: "write_frames n (map frame (d # ds)) s = write_frames n (map frame ds) t"
    by (simp add: write_frames_def t_def)
  show ?case
    using Cons.IH [of t] Cons.prems unfolding step by (auto simp: t split: if_splits)
qed

lemma write_frames_append: "write_frames n (fs @ gs) s = write_frames n gs (write_frames n fs s)"
  by (simp add: write_frames_def)

text \<open>
  C5. Whatever way a relay cuts a message into fragments, the device reassembles it exactly and
  hands it to the main thread: an empty message as the kick, one that fits as the response, and
  one that is too large as an overflow, never as a truncated response.
\<close>

theorem message_reassembled:
  assumes "list_all frag_ok ds" "FRAG_MAX \<le> n" "\<not> rx_busy s" "rx_buf s = []" "\<not> rx_overflow s"
    "length (ztp_q s) < QUEUE_MAX"
  defines "t \<equiv> write_frames n (map frame ds @ [frame []]) s"
  shows "rx_busy t \<and> (length (concat ds) \<le> n \<longrightarrow> rx_buf t = concat ds)
    \<and> ztp_q t = ztp_q s @ [if ds = [] then MSG_KICK else if length (concat ds) \<le> n then MSG_RESPONSE
        else MSG_OVERFLOW]"
proof (cases "length (concat ds) \<le> n")
  case True
  have "ds = [] \<longleftrightarrow> concat ds = []"
    using assms(1) by (cases ds) (auto simp: frag_ok_def)
  then show ?thesis
    using True assms write_frames_body [of ds s n]
    by (simp add: write_frames_append) (simp add: write_frames_def write_frame post_def)
next
  case False
  obtain d ds' where ds: "ds = d # ds'" using False by (cases ds) auto
  define u where "u = s\<lparr>rx_buf := d, frag := []\<rparr>"
  have d: "frag_ok d" "list_all frag_ok ds'" using assms(1) ds by auto
  have u: "write_frames n (map frame ds) s = write_frames n (map frame ds') u"
    using d assms(2-4) write_frame [of s d n] by (auto simp: ds write_frames_def u_def frag_ok_def)
  have fin: "\<not> rx_busy (write_frames n (map frame ds') u)" "ztp_q (write_frames n (map frame ds') u) = ztp_q s"
    "rx_buf (write_frames n (map frame ds') u) \<noteq> []" "rx_overflow (write_frames n (map frame ds') u)"
    using write_frames_overflow [of ds' u n] d False assms(2, 3)
    by (auto simp: u_def ds frag_ok_def list_all_iff)
  show ?thesis
    using False fin assms(6)
    by (simp add: t_def write_frames_append u) (simp add: write_frames_def write_frame post_def ds)
qed

theorem message_reassembled_witness:
  "rx_buf (write_frames 1024 (map frame [[1, 2, 3], [4]] @ [frame []]) rx_init) = [1, 2, 3, 4]
   \<and> ztp_q (write_frames 1024 (map frame [[1, 2, 3], [4]] @ [frame []]) rx_init) = [MSG_RESPONSE]"
  using message_reassembled [of "[[1, 2, 3], [4]]" 1024 rx_init] by (simp add: frag_ok_def rx_init_def)


section \<open>Both directions of the link\<close>

text \<open>A stack that takes every notification.\<close>

definition tx_good :: "tx_io \<Rightarrow> bool" where
  "tx_good io \<longleftrightarrow> (\<forall>i. tx_connected io i \<and> tx_notify io i = OK)"

fun chunks :: "nat \<Rightarrow> nat \<Rightarrow> bytes \<Rightarrow> bytes list" where
  "chunks 0 c d = []"
| "chunks (Suc k) c d = (if d = [] then [] else take c d # chunks k c (drop c d))"

lemma concat_chunks: "0 < c \<Longrightarrow> length d \<le> k \<Longrightarrow> concat (chunks k c d) = d"
  by (induction k arbitrary: d) auto

lemma chunks_ok: "0 < c \<Longrightarrow> c \<le> TX_FRAG_MAX \<Longrightarrow> list_all frag_ok (chunks k c d)"
  by (induction k arbitrary: d) (auto simp: frag_ok_def)

lemma notify_retry_good: "tx_good io \<Longrightarrow> notify_retry io 250 k p out = (OK, k + 1, out @ [p])"
  using notify_retry.simps(2) [of io 249 k p out] by (simp add: tx_good_def)

lemma send_chunks_good:
  assumes "tx_good io" "0 < c" "length d \<le> m"
  shows "\<exists>k'. send_chunks io c k d out = (OK, k', out @ map frame (chunks m c d) @ [frame []])"
  using assms
proof (induction m arbitrary: k d out)
  case 0
  then show ?case by (simp add: send_chunks.simps [of io c k "[]"] notify_retry_good frame_def)
next
  case (Suc m)
  show ?case
  proof (cases "d = []")
    case True
    then show ?thesis using Suc.prems by (simp add: send_chunks.simps [of io c k "[]"] notify_retry_good frame_def)
  next
    case False
    have eq: "drop (min c (length d)) d = drop c d" "take (min c (length d)) d = take c d"
      by (simp_all add: min_def)
    have "length (drop c d) \<le> m" using Suc.prems False by simp
    then obtain k' where "send_chunks io c (k + 1) (drop c d) (out @ [frame (take c d)]) =
        (OK, k', (out @ [frame (take c d)]) @ map frame (chunks m c (drop c d)) @ [frame []])"
      using Suc.IH Suc.prems by blast
    then show ?thesis
      using False Suc.prems
      by (simp add: send_chunks.simps [of io c k d] notify_retry_good eq frame_def min.commute)
  qed
qed

text \<open>
  The two directions of the framing agree: what \<open>send_message\<close> puts on the air at any usable MTU,
  written back fragment by fragment, is reassembled to the message that was sent.
\<close>

theorem framing_roundtrip:
  assumes "tx_good io" "5 < tx_mtu io" "data \<noteq> []" "length data \<le> n" "FRAG_MAX \<le> n"
  defines "t \<equiv> write_frames n (snd (send_message io data)) rx_init"
  shows "fst (send_message io data) = OK \<and> rx_buf t = data \<and> rx_busy t \<and> ztp_q t = [MSG_RESPONSE]"
proof -
  let ?c = "tx_chunk (tx_mtu io)" and ?ds = "chunks (length data) (tx_chunk (tx_mtu io)) data"
  have c: "0 < ?c" "?c \<le> TX_FRAG_MAX" using assms(2) by (auto simp: tx_chunk_def)
  obtain k where "send_chunks io ?c 0 data [] = (OK, k, map frame ?ds @ [frame []])"
    using send_chunks_good [OF assms(1) c(1), of data "length data" 0 "[]"] by auto
  then have sent: "send_message io data = (OK, map frame ?ds @ [frame []])"
    using assms(1) c by (simp add: send_message_def tx_good_def)
  have ok: "list_all frag_ok ?ds" "concat ?ds = data" using chunks_ok [OF c] concat_chunks [OF c(1)] by auto
  then have "?ds \<noteq> []" using assms(3) by (metis concat.simps(1))
  then show ?thesis
    using write_frames_body [OF ok(1), of rx_init n] ok assms(3, 4) sent
    by (simp add: t_def write_frames_append rx_init_def) (simp add: write_frames_def write_frame post_def)
qed

theorem framing_roundtrip_witness:
  "rx_buf (write_frames 4096 (snd (send_message
      \<lparr>tx_connected = (\<lambda>_. True), tx_notify = (\<lambda>_. OK), tx_mtu = 23\<rparr> (replicate 100 7))) rx_init)
   = replicate 100 7"
  using framing_roundtrip [of "\<lparr>tx_connected = (\<lambda>_. True), tx_notify = (\<lambda>_. OK), tx_mtu = 23\<rparr>"
      "replicate 100 7" 4096] by (simp add: tx_good_def)

text \<open>Events while the main thread works on a message leave that message alone.\<close>

lemma busy_frame:
  "rx_busy s \<Longrightarrow> e \<noteq> TakeMsg \<Longrightarrow>
    rx_buf (link_react n e s) = rx_buf s \<and> rx_busy (link_react n e s)
    \<and> rx_messages (link_react n e s) = rx_messages s"
  by (cases e)
    (auto simp: link_react_def write_request_def rx_disconnected_def rx_messages_post Let_def)

lemma run_busy_frame:
  "rx_busy s \<Longrightarrow> TakeMsg \<notin> set es \<Longrightarrow>
    rx_buf (link.run n es s) = rx_buf s \<and> rx_messages (link.run n es s) = rx_messages s
    \<and> rx_busy (link.run n es s)"
  by (induction es arbitrary: s) (auto simp: link.run_def busy_frame)

text \<open>
  Bounds and ownership of the receive buffer: after any sequence of writes, disconnects, button
  presses and main-thread turns every buffer and the queue are within bounds and at most one
  message waits; and while a complete message waits for the main thread, nothing a relay does
  changes it or queues a second one.
\<close>

theorem receive_buffer_owned:
  assumes "link_ok n s"
  shows "link_ok n (link.run n es s)
    \<and> (rx_busy s \<and> TakeMsg \<notin> set es \<longrightarrow>
        rx_buf (link.run n es s) = rx_buf s \<and> rx_messages (link.run n es s) = rx_messages s)"
  using link.run_keeps [OF assms] run_busy_frame by blast

theorem receive_buffer_owned_witness:
  "link_ok 1024 (link.run 1024 [Write False 0 [0, 0], Write False 0 [0, 1, 9], Button, Disconnect] rx_init)"
  using receive_buffer_owned [of 1024 rx_init]
  by (simp add: link_ok_def rx_init_def rx_messages_def)

lemma deaf_step:
  assumes "rx_busy s" "rx_messages s = []"
  shows "rx_busy (link_react n e s) \<and> rx_messages (link_react n e s) = []"
proof (cases "e = TakeMsg")
  case True
  then show ?thesis
    using assms by (cases "ztp_q s") (auto simp: link_react_def rx_messages_def Let_def split: if_splits)
next
  case False
  then show ?thesis using busy_frame [OF assms(1)] assms(2) by simp
qed

lemma deaf_run: "rx_busy s \<Longrightarrow> rx_messages s = [] \<Longrightarrow> rx_messages (link.run n es s) = []"
  by (induction es arbitrary: s) (auto simp: link.run_def dest: deaf_step)

text \<open>
  A message that completes while the queue holds four button presses is dropped, and the link
  is deaf from then on: \<open>rx_busy\<close> stays set with no message queued to clear it, so no later write,
  reconnect or button press ever gets a message to the main thread.
\<close>

theorem full_queue_deafens:
  assumes "ztp_q s = replicate QUEUE_MAX MSG_BUTTON" "\<not> rx_busy s"
  shows "rx_messages (link.run n (Write False 0 (frame []) # es) s) = []"
proof -
  let ?t = "link_react n (Write False 0 (frame [])) s"
  have q: "rx_messages s = []" using assms(1) by (simp add: rx_messages_def numeral_eq_Suc)
  have "?t = (post (if rx_buf s = [] then MSG_KICK else if rx_overflow s then MSG_OVERFLOW else MSG_RESPONSE)
          (s\<lparr>rx_busy := True\<rparr>))\<lparr>frag := []\<rparr>"
    using write_frame [OF assms(2), of "[]" n] by (simp add: link_react_def)
  then have "rx_busy ?t" "rx_messages ?t = []"
    using assms(1) q by (simp_all add: post_def rx_messages_def)
  then show ?thesis using deaf_run by (simp add: link.run_def)
qed

theorem full_queue_deafens_witness:
  "rx_messages (link.run 1024 ([Write False 0 (frame []), TakeMsg, TakeMsg, TakeMsg, TakeMsg, Disconnect,
      Write False 0 (frame [])]) (rx_init\<lparr>ztp_q := replicate 4 MSG_BUTTON\<rparr>)) = []"
  by (rule full_queue_deafens) (simp_all add: rx_init_def)

end
