(* ===== verification/Ztp_Apply.thy ===== *)
theory Ztp_Apply
  imports Ztp_Manifest Settings Net
begin

text \<open>
  Applying a provisioning bundle, \<^verbatim>\<open>src/apps/wifi-provisioner/src/ztp_apply.c\<close>: the INI walker,
  the wifi.v2 and c8y.v2 appliers, and the two-phase dispatch. Base64, the unsealing of modules
  (\<^verbatim>\<open>ztp_crypto.c\<close> over PSA), the join attempt and the credential store are inputs.
\<close>

section \<open>INI\<close>

text \<open>The callback is given the section, and the key and value unless it starts a new section.\<close>

type_synonym 's ini_fn = "string \<Rightarrow> (string \<times> string) option \<Rightarrow> 's \<Rightarrow> rc \<times> 's"

function ini_walk :: "'s ini_fn \<Rightarrow> string \<Rightarrow> string \<Rightarrow> 's \<Rightarrow> rc \<times> 's" where
  "ini_walk fn section cur s =
     (if cur = [] then (OK, s)
      else
        let line = takeWhile (\<lambda>c. c \<noteq> NL) cur;
            rest = drop (length line + 1) cur;
            stop = (if line \<noteq> [] \<and> last line = CR then butlast line else line)
        in if stop \<noteq> [] \<and> hd stop = CHR ''['' \<and> last stop = CHR '']'' then
             (let sec = butlast (tl stop)
              in case fn sec None s of
                   (OK, s) \<Rightarrow> ini_walk fn sec rest s
                 | (Err e, s) \<Rightarrow> (Err e, s))
           else if CHR ''='' \<notin> set stop then ini_walk fn section rest s
           else
             (case fn section (Some (takeWhile (\<lambda>c. c \<noteq> CHR ''='') stop,
                       drop 1 (dropWhile (\<lambda>c. c \<noteq> CHR ''='') stop))) s of
                (OK, s) \<Rightarrow> ini_walk fn section rest s
              | (Err e, s) \<Rightarrow> (Err e, s)))"
  by pat_completeness auto
termination
  by (relation "measure (\<lambda>(fn, section, cur, s). length cur)") (simp_all add: Let_def)

declare ini_walk.simps [simp del]

definition copy_val :: "nat \<Rightarrow> string \<Rightarrow> string option" where
  "copy_val sz v = (if length v \<ge> sz then None else Some v)"

section \<open>wifi.v2\<close>

record wifi_candidate =
  creds :: app_wifi_creds
  priority :: int
  is_open :: bool
  seen_ssid :: bool

record wifi_stage_state =
  best :: app_wifi_creds
  best_priority :: int
  have_best :: bool
  cur_cand :: wifi_candidate
  in_network :: bool

definition no_candidate :: wifi_candidate where
  "no_candidate = \<lparr>creds = no_creds, priority = 0, is_open = False, seen_ssid = False\<rparr>"

definition wifi_reset_state :: wifi_stage_state where
  "wifi_reset_state =
     \<lparr>best = no_creds, best_priority = 0, have_best = False, cur_cand = no_candidate, in_network = False\<rparr>"

definition wifi_close_section :: "wifi_stage_state \<Rightarrow> wifi_stage_state" where
  "wifi_close_section w =
     (let c = cur_cand w;
          w = (if in_network w \<and> seen_ssid c \<and> (\<not> have_best w \<or> priority c > best_priority w)
               then w\<lparr>best := (if is_open c then (creds c)\<lparr>psk := []\<rparr> else creds c),
                      best_priority := priority c, have_best := True\<rparr>
               else w)
      in w\<lparr>cur_cand := no_candidate, in_network := False\<rparr>)"

text \<open>The digits of a priority: at most six characters are looked at, the sign included.\<close>

definition parse_priority :: "string \<Rightarrow> int option" where
  "parse_priority v =
     (let neg = (v \<noteq> [] \<and> hd v = CHR ''-'');
          digits = drop (if neg then 1 else 0) (take 6 v)
      in if \<not> list_all is_digit digits then None
         else let p = foldl (\<lambda>p c. p * 10 + digit_val c) 0 digits in Some (if neg then - p else p))"

definition wifi_ini :: "wifi_stage_state ini_fn" where
  "wifi_ini section kv w =
     (case kv of
        None \<Rightarrow> (OK, (wifi_close_section w)\<lparr>in_network := (section = ''network'')\<rparr>)
      | Some (k, v) \<Rightarrow>
          (let c = cur_cand w
           in if \<not> in_network w then (OK, w)
              else if k = ''ssid'' then
                (if v = [] then (Err EINVAL, w)
                 else case copy_val 33 v of
                   None \<Rightarrow> (Err EINVAL, w)
                 | Some x \<Rightarrow> (OK, w\<lparr>cur_cand := c\<lparr>creds := (creds c)\<lparr>ssid := x\<rparr>, seen_ssid := True\<rparr>\<rparr>))
              else if k = ''password'' then
                (case copy_val 65 v of
                   None \<Rightarrow> (Err EINVAL, w)
                 | Some x \<Rightarrow> (OK, w\<lparr>cur_cand := c\<lparr>creds := (creds c)\<lparr>psk := x\<rparr>\<rparr>\<rparr>))
              else if k = ''key_mgmt'' then (OK, w\<lparr>cur_cand := c\<lparr>is_open := (v = ''NONE'')\<rparr>\<rparr>)
              else if k = ''priority'' then
                (case parse_priority v of
                   None \<Rightarrow> (Err EINVAL, w)
                 | Some p \<Rightarrow> (OK, w\<lparr>cur_cand := c\<lparr>priority := p\<rparr>\<rparr>))
              else (OK, w)))"

section \<open>The whole state\<close>

text \<open>
  \<open>a_wifi\<close> and \<open>a_c8y\<close> are the file's statics; \<open>a_creds\<close> (the credential store) and
  \<open>a_settings\<close> are what survives a reboot.
\<close>

record apply_state =
  a_wifi :: wifi_stage_state
  a_c8y :: prov_c8y
  a_creds :: "app_wifi_creds list"
  a_settings :: settings

record apply_env =
  e_join :: "app_wifi_creds \<Rightarrow> rc"
  e_set_personal :: "app_wifi_creds \<Rightarrow> rc"
  e_settings :: settings_io
  e_b64 :: "nat \<Rightarrow> string \<Rightarrow> string option"
  e_unseal :: "string \<Rightarrow> string \<Rightarrow> string \<Rightarrow> errno + string"

definition wifi_reset :: "apply_state \<Rightarrow> apply_state" where
  "wifi_reset s = s\<lparr>a_wifi := wifi_reset_state\<rparr>"

definition wifi_stage :: "string \<Rightarrow> apply_state \<Rightarrow> rc \<times> apply_state" where
  "wifi_stage p s =
     (let s = wifi_reset s;
          (rc, w) = ini_walk wifi_ini [] p (a_wifi s);
          w = wifi_close_section w;
          s = s\<lparr>a_wifi := w\<rparr>
      in if rc \<noteq> OK then (rc, s) else if \<not> have_best w then (Err ENODATA, s) else (OK, s))"

definition wifi_commit :: "apply_env \<Rightarrow> apply_state \<Rightarrow> rc \<times> apply_state" where
  "wifi_commit env s =
     (let b = best (a_wifi s)
      in case e_join env b of
           Err e \<Rightarrow> (Err ENETUNREACH, s)
         | OK \<Rightarrow>
             (let s = s\<lparr>a_creds := []\<rparr>
              in case e_set_personal env b of
                   OK \<Rightarrow> (OK, s\<lparr>a_creds := [b]\<rparr>)
                 | Err e \<Rightarrow> (Err e, s)))"

section \<open>c8y.v2\<close>

definition c8y_reset :: "apply_state \<Rightarrow> apply_state" where
  "c8y_reset s = s\<lparr>a_c8y := c8y_empty\<rparr>"

text \<open>The staged fields are C strings: what follows a NUL in a value is never read.\<close>

definition c8y_ini :: "prov_c8y ini_fn" where
  "c8y_ini section kv c =
     (case kv of
        None \<Rightarrow> (OK, c)
      | Some (k, v) \<Rightarrow>
          if section \<noteq> ''c8y'' then (OK, c)
          else if k = ''url'' then
            (case copy_val 128 v of None \<Rightarrow> (Err E2BIG, c) | Some x \<Rightarrow> (OK, c\<lparr>url := cstr x\<rparr>))
          else if k = ''tenant'' then
            (case copy_val 32 v of None \<Rightarrow> (Err E2BIG, c) | Some x \<Rightarrow> (OK, c\<lparr>tenant := cstr x\<rparr>))
          else if k = ''external_id'' then
            (case copy_val 64 v of None \<Rightarrow> (Err E2BIG, c) | Some x \<Rightarrow> (OK, c\<lparr>external_id := cstr x\<rparr>))
          else if k = ''one_time_password'' then
            (case copy_val 65 v of None \<Rightarrow> (Err E2BIG, c) | Some x \<Rightarrow> (OK, c\<lparr>otp := cstr x\<rparr>))
          else (OK, c))"

definition c8y_stage :: "string \<Rightarrow> apply_state \<Rightarrow> rc \<times> apply_state" where
  "c8y_stage p s =
     (let s = c8y_reset s;
          (rc, c) = ini_walk c8y_ini [] p (a_c8y s);
          s = s\<lparr>a_c8y := c\<rparr>
      in if rc \<noteq> OK then (rc, c8y_reset s)
         else if url c = [] then (Err ENODATA, s) else (OK, s))"

definition c8y_commit :: "apply_env \<Rightarrow> apply_state \<Rightarrow> rc \<times> apply_state" where
  "c8y_commit env s =
     (let (rc, st) = prov_c8y_store (e_settings env) (a_c8y s) (a_settings s)
      in (rc, c8y_reset (s\<lparr>a_settings := st\<rparr>)))"

section \<open>Dispatch\<close>

datatype applier = Wifi_v2 | C8y_v2

text \<open>Commit order is table order: Wi-Fi is proven before anything that needs the network is kept.\<close>

instantiation applier :: linorder
begin

definition less_eq_applier :: "applier \<Rightarrow> applier \<Rightarrow> bool" where
  "less_eq_applier a b \<longleftrightarrow> a = Wifi_v2 \<or> b = C8y_v2"

definition less_applier :: "applier \<Rightarrow> applier \<Rightarrow> bool" where
  "less_applier a b \<longleftrightarrow> a = Wifi_v2 \<and> b = C8y_v2"

instance
proof
  fix x y z :: applier
  show "(x < y) = (x \<le> y \<and> \<not> y \<le> x)" "x \<le> x" "x \<le> y \<Longrightarrow> y \<le> z \<Longrightarrow> x \<le> z"
    "x \<le> y \<Longrightarrow> y \<le> x \<Longrightarrow> x = y" "x \<le> y \<or> y \<le> x"
    by (cases x; cases y; cases z; simp add: less_eq_applier_def less_applier_def)+
qed

end

definition appliers :: "applier list" where
  "appliers = [Wifi_v2, C8y_v2]"

lemma appliers_in_order: "sorted appliers" "distinct appliers" "set appliers = UNIV"
  by (auto simp: appliers_def less_eq_applier_def intro: applier.exhaust)

primrec applier_type :: "applier \<Rightarrow> string" where
  "applier_type Wifi_v2 = ''wifi.v2''"
| "applier_type C8y_v2 = ''c8y.v2''"

primrec applier_stage :: "applier \<Rightarrow> string \<Rightarrow> apply_state \<Rightarrow> rc \<times> apply_state" where
  "applier_stage Wifi_v2 = wifi_stage"
| "applier_stage C8y_v2 = c8y_stage"

primrec applier_commit :: "apply_env \<Rightarrow> applier \<Rightarrow> apply_state \<Rightarrow> rc \<times> apply_state" where
  "applier_commit env Wifi_v2 = wifi_commit env"
| "applier_commit env C8y_v2 = c8y_commit env"

primrec applier_reset :: "applier \<Rightarrow> apply_state \<Rightarrow> apply_state" where
  "applier_reset Wifi_v2 = wifi_reset"
| "applier_reset C8y_v2 = c8y_reset"

definition b64_exact :: "apply_env \<Rightarrow> string \<Rightarrow> nat \<Rightarrow> string option" where
  "b64_exact env s want =
     (case e_b64 env want s of None \<Rightarrow> None | Some d \<Rightarrow> if length d \<noteq> want then None else Some d)"

abbreviation (input) PAYLOAD_MAX :: nat where "PAYLOAD_MAX \<equiv> 1024"

text \<open>Sizes of an uncompressed P-256 point, the nonce and the tag.\<close>

abbreviation (input) ZTP_P256_POINT_LEN :: nat where "ZTP_P256_POINT_LEN \<equiv> 65"
abbreviation (input) ZTP_SEAL_NONCE_LEN :: nat where "ZTP_SEAL_NONCE_LEN \<equiv> 12"
abbreviation (input) ZTP_SEAL_TAG_LEN :: nat where "ZTP_SEAL_TAG_LEN \<equiv> 16"

definition module_payload :: "apply_env \<Rightarrow> ztp_module \<Rightarrow> errno + string" where
  "module_payload env m =
     (if \<not> sealed m then
        (case e_b64 env PAYLOAD_MAX (payload m) of None \<Rightarrow> Inl EPROTO | Some d \<Rightarrow> Inr d)
      else if mformat m \<noteq> ''raw'' then Inl ENOTSUP
      else
        (case (b64_exact env (eph m) ZTP_P256_POINT_LEN, b64_exact env (nonce m) ZTP_SEAL_NONCE_LEN,
               e_b64 env (PAYLOAD_MAX + ZTP_SEAL_TAG_LEN) (ciphertext m)) of
           (Some ep, Some no, Some ct) \<Rightarrow> e_unseal env ep no ct
         | _ \<Rightarrow> Inl EPROTO))"

definition find_applier :: "string \<Rightarrow> applier option" where
  "find_applier t = find (\<lambda>a. applier_type a = t) appliers"

definition reset_all :: "apply_state \<Rightarrow> apply_state" where
  "reset_all s = fold applier_reset appliers s"

lemma next_module_shorter:
  "ztp_manifest_next_module cur = Module m rest \<Longrightarrow> length rest < length cur"
proof (induction cur rule: ztp_manifest_next_module.induct)
  case (1 cur)
  show ?case
  proof (cases "ztp_kv_next cur")
    case None
    then show ?thesis using "1.prems" by (simp add: ztp_manifest_next_module.simps [of cur])
  next
    case (Some p)
    obtain k v r where p: "p = ((k, v), r)" by (metis prod_cases3 surj_pair)
    have len: "length r < length cur" using Some kv_next_shorter by (simp add: p)
    show ?thesis
    proof (cases "k = ''module'' \<or> k = ''module-sealed''")
      case True
      then show ?thesis using "1.prems" Some p len
        by (auto simp: ztp_manifest_next_module.simps [of cur] split: option.splits list.splits)
    next
      case False
      then have "ztp_manifest_next_module cur = ztp_manifest_next_module r"
        using Some p by (simp add: ztp_manifest_next_module.simps [of cur])
      then show ?thesis using "1.IH" [of p "(k, v)" r k v] "1.prems" Some p False len by fastforce
    qed
  qed
qed

text \<open>
  Phase 1 of \<open>ztp_apply_manifest\<close>: the loop over the modules, with the appliers staged so far.
  On an error everything staged has been reset.
\<close>

function stage_modules ::
  "apply_env \<Rightarrow> string \<Rightarrow> applier list \<Rightarrow> apply_state \<Rightarrow> (errno + applier list) \<times> apply_state" where
  "stage_modules env cur staged s =
     (case ztp_manifest_next_module cur of
        NoMoreModules \<Rightarrow> (Inr staged, s)
      | BadModule \<Rightarrow> (Inl EPROTO, reset_all s)
      | Module m rest \<Rightarrow>
          (case find_applier (mtype m) of
             None \<Rightarrow> stage_modules env rest staged s
           | Some a \<Rightarrow>
               (case module_payload env m of
                  Inl e \<Rightarrow> (Inl e, reset_all s)
                | Inr p \<Rightarrow>
                    (case applier_stage a p s of
                       (OK, s) \<Rightarrow> stage_modules env rest (a # staged) s
                     | (Err e, s) \<Rightarrow> (Inl e, reset_all s)))))"
  by pat_completeness auto
termination
  by (relation "measure (\<lambda>(env, cur, staged, s). length cur)") (auto dest: next_module_shorter)

declare stage_modules.simps [simp del]

text \<open>Phase 2: commit in table order, stopping at the first failure.\<close>

fun commit_staged :: "apply_env \<Rightarrow> applier list \<Rightarrow> applier list \<Rightarrow> apply_state \<Rightarrow> rc \<times> apply_state" where
  "commit_staged env staged [] s = (OK, reset_all s)"
| "commit_staged env staged (a # as) s =
     (if a \<notin> set staged then commit_staged env staged as s
      else case applier_commit env a s of
        (OK, s) \<Rightarrow> commit_staged env staged as s
      | (Err e, s) \<Rightarrow> (Err e, reset_all s))"

definition ztp_apply_manifest :: "apply_env \<Rightarrow> string \<Rightarrow> string \<Rightarrow> apply_state \<Rightarrow> rc \<times> apply_state" where
  "ztp_apply_manifest env text dev s =
     (let hdr = ztp_manifest_header text
      in if \<not> hdr_version_ok hdr then (Err EPROTO, s)
         else if device_id hdr \<noteq> dev then (Err EPROTO, s)
         else
           (case stage_modules env text [] (reset_all s) of
              (Inl e, s) \<Rightarrow> (Err e, s)
            | (Inr staged, s) \<Rightarrow>
                if staged = [] then (Err ENODATA, s) else commit_staged env staged appliers s))"


section \<open>The contract of an applier\<close>

text \<open>What survives a reboot.\<close>

definition persistent :: "apply_state \<Rightarrow> app_wifi_creds list \<times> settings" where
  "persistent s = (a_creds s, a_settings s)"

definition scrubbed :: "apply_state \<Rightarrow> bool" where
  "scrubbed s \<longleftrightarrow> a_wifi s = wifi_reset_state \<and> a_c8y s = c8y_empty"

text \<open>
  Staging and resetting touch RAM only. A commit may fail, but when its gate does not hold it
  leaves what is persistent alone.
\<close>

locale module_applier =
  fixes stage :: "string \<Rightarrow> apply_state \<Rightarrow> rc \<times> apply_state"
    and commit :: "apply_env \<Rightarrow> apply_state \<Rightarrow> rc \<times> apply_state"
    and reset :: "apply_state \<Rightarrow> apply_state"
    and gate :: "apply_env \<Rightarrow> apply_state \<Rightarrow> bool"
  assumes stage_persistent: "persistent (snd (stage p s)) = persistent s"
    and reset_persistent: "persistent (reset s) = persistent s"
    and reset_again: "reset (reset s) = reset s"
    and commit_gated: "\<not> gate env s \<Longrightarrow> persistent (snd (commit env s)) = persistent s \<and> fst (commit env s) \<noteq> OK"
begin

lemma abandoned_stage: "persistent (reset (snd (stage p s))) = persistent s"
  by (simp add: stage_persistent reset_persistent)

lemma commit_ok_gate: "fst (commit env s) = OK \<Longrightarrow> gate env s"
  using commit_gated by blast

end

interpretation wifi: module_applier wifi_stage wifi_commit wifi_reset
  "\<lambda>env s. e_join env (best (a_wifi s)) = OK"
  by unfold_locales
    (auto simp: persistent_def wifi_stage_def wifi_reset_def wifi_commit_def Let_def
      split: prod.splits rc.splits)

interpretation c8y: module_applier c8y_stage c8y_commit c8y_reset "\<lambda>env s. True"
  by unfold_locales
    (auto simp: persistent_def c8y_stage_def c8y_reset_def Let_def split: prod.splits)

lemma applier_stage_persistent: "persistent (snd (applier_stage a p s)) = persistent s"
  by (cases a) (simp_all add: wifi.stage_persistent c8y.stage_persistent)

lemma reset_all_simps [simp]:
  "a_wifi (reset_all s) = wifi_reset_state" "a_c8y (reset_all s) = c8y_empty"
  "a_creds (reset_all s) = a_creds s" "a_settings (reset_all s) = a_settings s"
  by (simp_all add: reset_all_def appliers_def wifi_reset_def c8y_reset_def)

lemma reset_all_scrubs [simp]: "scrubbed (reset_all s)" "persistent (reset_all s) = persistent s"
  by (simp_all add: scrubbed_def persistent_def)

section \<open>What applying a bundle may change\<close>

lemma stage_modules_persistent: "persistent (snd (stage_modules env cur staged s)) = persistent s"
proof (induction env cur staged s rule: stage_modules.induct)
  case (1 env cur staged s)
  show ?case
    using "1.IH" applier_stage_persistent
    by (subst stage_modules.simps)
      (auto split: module_result.splits option.splits sum.splits prod.splits rc.splits;
       metis snd_conv)
qed

lemma stage_modules_error_scrubs:
  "stage_modules env cur staged s = (Inl e, s') \<Longrightarrow> scrubbed s'"
proof (induction env cur staged s rule: stage_modules.induct)
  case (1 env cur staged s)
  show ?case
    using "1.prems" "1.IH" unfolding stage_modules.simps [of env cur]
    by (auto split: module_result.splits option.splits sum.splits prod.splits rc.splits)
qed

lemma stage_modules_none:
  "stage_modules env cur staged s = (Inr [], s') \<Longrightarrow> staged = [] \<and> s' = s"
proof (induction env cur staged s rule: stage_modules.induct)
  case (1 env cur staged s)
  show ?case
    using "1.prems" "1.IH" unfolding stage_modules.simps [of env cur]
    by (auto split: module_result.splits option.splits sum.splits prod.splits rc.splits)
      (metis surj_pair)+
qed

text \<open>
  The outcome of committing a set of staged appliers in table order, the Wi-Fi gate written out.
\<close>

lemma commit_staged_outcome:
  assumes "commit_staged env staged appliers s = (rc, s')"
  shows "scrubbed s'"
    and "a_creds s' \<noteq> a_creds s \<Longrightarrow>
      Wifi_v2 \<in> set staged \<and> e_join env (best (a_wifi s)) = OK \<and> a_creds s' \<in> {[], [best (a_wifi s)]}"
    and "a_settings s' \<noteq> a_settings s \<Longrightarrow>
      C8y_v2 \<in> set staged \<and> (Wifi_v2 \<in> set staged \<longrightarrow> e_join env (best (a_wifi s)) = OK)"
    and "rc = OK \<Longrightarrow> Wifi_v2 \<in> set staged \<Longrightarrow> a_creds s' = [best (a_wifi s)]"
  using assms
  by (auto simp: appliers_def wifi_commit_def c8y_commit_def c8y_reset_def Let_def
      split: if_splits rc.splits prod.splits)


lemma apply_creds:
  assumes "ztp_apply_manifest env man dev s = (rc, s')"
  shows "a_creds s' = a_creds s \<or> (\<exists>c. e_join env c = OK \<and> a_creds s' \<in> {[], [c]})"
proof (cases "\<not> hdr_version_ok (ztp_manifest_header man) \<or> device_id (ztp_manifest_header man) \<noteq> dev")
  case True
  then show ?thesis using assms by (auto simp: ztp_apply_manifest_def Let_def split: if_splits)
next
  case False
  obtain r t where st: "stage_modules env man [] (reset_all s) = (r, t)" by fastforce
  have t: "a_creds t = a_creds s"
    using stage_modules_persistent [of env man "[]" "reset_all s"] by (simp add: st persistent_def)
  show ?thesis
  proof (cases "\<exists>staged. r = Inr staged \<and> staged \<noteq> []")
    case True
    then obtain staged where "commit_staged env staged appliers t = (rc, s')"
      using assms False st by (auto simp: ztp_apply_manifest_def Let_def)
    from commit_staged_outcome(2) [OF this] show ?thesis using t by auto
  next
    case no: False
    then show ?thesis
      using assms False st t by (auto simp: ztp_apply_manifest_def Let_def split: sum.splits if_splits)
  qed
qed


section \<open>Staged values\<close>

lemma ini_walk_keeps:
  assumes keeps: "\<And>fn sec kv s. P fn \<Longrightarrow> I s \<Longrightarrow> I (snd (fn sec kv s))" and P: "P fn"
  shows "I s \<Longrightarrow> I (snd (ini_walk fn sec cur s))"
  using P
proof (induction fn sec cur s rule: ini_walk.induct)
  case (1 fn sec cur s)
  have fn: "I s'" if "fn sec' kv s = (r, s')" for sec' kv r s'
    using keeps [OF "1.prems"(2,1)] that by (metis snd_conv)
  show ?case
    using "1.IH" "1.prems" fn unfolding ini_walk.simps [of fn sec cur]
    by (auto simp: Let_def split: prod.splits rc.splits)
qed

definition wifi_fits :: "wifi_stage_state \<Rightarrow> bool" where
  "wifi_fits w \<longleftrightarrow> length (ssid (best w)) \<le> 32 \<and> length (psk (best w)) \<le> 64
     \<and> length (ssid (creds (cur_cand w))) \<le> 32 \<and> length (psk (creds (cur_cand w))) \<le> 64"

lemma wifi_close_fits: "wifi_fits w \<Longrightarrow> wifi_fits (wifi_close_section w)"
  by (auto simp: wifi_fits_def wifi_close_section_def Let_def no_candidate_def no_creds_def)

lemma wifi_ini_fits: "wifi_fits w \<Longrightarrow> wifi_fits (snd (wifi_ini sec kv w))"
proof (cases kv)
  case None
  assume "wifi_fits w"
  then have "wifi_fits (wifi_close_section w)" by (rule wifi_close_fits)
  with None show ?thesis by (simp add: wifi_ini_def wifi_fits_def)
next
  case (Some p)
  assume "wifi_fits w"
  then show ?thesis
    by (cases p) (simp add: Some wifi_ini_def wifi_fits_def copy_val_def Let_def split: option.split)
qed

lemma length_cstr: "length (cstr v) \<le> length v"
  by (simp add: cstr_def length_takeWhile_le)

lemma c8y_ini_fits: "c8y_fits c \<Longrightarrow> c8y_fits (snd (c8y_ini sec kv c))"
  using le_less_trans [OF length_cstr]
  by (cases kv) (simp_all add: c8y_ini_def copy_val_def c8y_fits_def not_le split: option.split prod.split)

text \<open>
  Whatever the module bodies say, what is staged fits the buffers it will be joined, stored and
  loaded from: no value is truncated and none overruns.
\<close>

theorem staged_values_fit:
  "wifi_fits (a_wifi (snd (wifi_stage p s))) \<and> c8y_fits (a_c8y (snd (c8y_stage p s)))"
proof
  have "wifi_fits wifi_reset_state"
    by (simp add: wifi_fits_def wifi_reset_state_def no_candidate_def no_creds_def)
  then have "wifi_fits (snd (ini_walk wifi_ini [] p wifi_reset_state))"
    using ini_walk_keeps [where P = "\<lambda>f. f = wifi_ini" and I = wifi_fits and fn = wifi_ini]
    by (simp add: wifi_ini_fits)
  then show "wifi_fits (a_wifi (snd (wifi_stage p s)))"
    by (auto simp: wifi_stage_def Let_def wifi_reset_def wifi_close_fits split: prod.split)
  have e: "c8y_fits c8y_empty" by (simp add: c8y_fits_def c8y_empty_def cstr_def)
  then have "c8y_fits (snd (ini_walk c8y_ini [] p c8y_empty))"
    using ini_walk_keeps [where P = "\<lambda>f. f = c8y_ini" and I = c8y_fits and fn = c8y_ini]
    by (simp add: c8y_ini_fits)
  with e show "c8y_fits (a_c8y (snd (c8y_stage p s)))"
    by (auto simp: c8y_stage_def Let_def c8y_reset_def split: prod.split)
qed

section \<open>The network that wins\<close>

record net_spec =
  n_ssid :: string
  n_psk :: string
  n_prio :: string

text \<open>A network as the provisioning server writes it.\<close>

definition render_net :: "net_spec \<Rightarrow> string" where
  "render_net n = ''[network]'' @ NL # ''ssid'' @ CHR ''='' # n_ssid n @ NL # ''password'' @ CHR ''='' # n_psk n
     @ NL # ''priority'' @ CHR ''='' # n_prio n @ [NL]"

definition prio_val :: "string \<Rightarrow> int" where
  "prio_val d = foldl (\<lambda>p c. p * 10 + digit_val c) 0 d"

definition net_creds :: "net_spec \<Rightarrow> app_wifi_creds" where
  "net_creds n = \<lparr>ssid = n_ssid n, psk = n_psk n\<rparr>"

definition plain_text :: "string \<Rightarrow> bool" where
  "plain_text v \<longleftrightarrow> NL \<notin> set v \<and> CR \<notin> set v"

definition net_ok :: "net_spec \<Rightarrow> bool" where
  "net_ok n \<longleftrightarrow> n_ssid n \<noteq> [] \<and> length (n_ssid n) \<le> 32 \<and> length (n_psk n) \<le> 64
     \<and> length (n_prio n) \<le> 6 \<and> list_all is_digit (n_prio n) \<and> plain_text (n_ssid n) \<and> plain_text (n_psk n)"

lemma ini_line:
  assumes "plain_text line"
  shows "takeWhile (\<lambda>c. c \<noteq> NL) (line @ NL # rest) = line"
    "drop (length line + 1) (line @ NL # rest) = rest"
    "line \<noteq> [] \<and> last line = CR \<Longrightarrow> False"
  using assms by (auto simp: plain_text_def takeWhile_append dest: last_in_set)

lemma ini_walk_kv:
  assumes "plain_text (k @ v)" "CHR ''='' \<notin> set k" "k \<noteq> []" "hd k \<noteq> CHR ''[''"
  shows "ini_walk fn sec (k @ CHR ''='' # v @ NL # rest) s =
    (case fn sec (Some (k, v)) s of (OK, s) \<Rightarrow> ini_walk fn sec rest s | (Err e, s) \<Rightarrow> (Err e, s))"
proof -
  let ?line = "k @ CHR ''='' # v"
  have pl: "plain_text ?line" using assms(1) by (simp add: plain_text_def NL_def CR_def)
  have eq: "k @ CHR ''='' # v @ NL # rest = ?line @ NL # rest" by simp
  have key: "takeWhile (\<lambda>c. c \<noteq> CHR ''='') ?line = k" "dropWhile (\<lambda>c. c \<noteq> CHR ''='') ?line = CHR ''='' # v"
    using assms(2) by (auto simp: takeWhile_append dropWhile_append)
  have lst: "\<not> (?line \<noteq> [] \<and> last ?line = CR)" using ini_line(3) [OF pl] by blast
  have nb: "\<not> (?line \<noteq> [] \<and> hd ?line = CHR ''['' \<and> last ?line = CHR '']'')" using assms(3, 4) by simp
  show ?thesis
    unfolding eq ini_walk.simps [of fn sec "?line @ NL # rest"] Let_def ini_line(1, 2) [OF pl]
      if_not_P [OF lst] if_not_P [OF nb] key
    by simp
qed

lemma ini_walk_network:
  "ini_walk fn sec (''[network]'' @ NL # rest) s =
    (case fn ''network'' None s of (OK, s) \<Rightarrow> ini_walk fn ''network'' rest s | (Err e, s) \<Rightarrow> (Err e, s))"
proof -
  have pl: "plain_text ''[network]''" by (simp add: plain_text_def NL_def CR_def)
  have nm: "butlast (tl ''[network]'') = ''network''" by simp
  show ?thesis
    unfolding ini_walk.simps [of fn sec "''[network]'' @ NL # rest"] Let_def ini_line(1, 2) [OF pl]
    by (simp add: CR_def nm cong: rc.case_cong)
qed


lemma wifi_ini_network: "wifi_ini ''network'' None w = (OK, (wifi_close_section w)\<lparr>in_network := True\<rparr>)"
  by (simp add: wifi_ini_def)

lemma wifi_ini_pairs:
  assumes "in_network w"
  shows "v \<noteq> [] \<Longrightarrow> length v \<le> 32 \<Longrightarrow> wifi_ini sec (Some (''ssid'', v)) w
      = (OK, w\<lparr>cur_cand := (cur_cand w)\<lparr>creds := (creds (cur_cand w))\<lparr>ssid := v\<rparr>, seen_ssid := True\<rparr>\<rparr>)"
    and "length v \<le> 64 \<Longrightarrow> wifi_ini sec (Some (''password'', v)) w
      = (OK, w\<lparr>cur_cand := (cur_cand w)\<lparr>creds := (creds (cur_cand w))\<lparr>psk := v\<rparr>\<rparr>\<rparr>)"
    and "list_all is_digit v \<Longrightarrow> length v \<le> 6 \<Longrightarrow> wifi_ini sec (Some (''priority'', v)) w
      = (OK, w\<lparr>cur_cand := (cur_cand w)\<lparr>priority := prio_val v\<rparr>\<rparr>)"
proof -
  show "v \<noteq> [] \<Longrightarrow> length v \<le> 32 \<Longrightarrow> wifi_ini sec (Some (''ssid'', v)) w
      = (OK, w\<lparr>cur_cand := (cur_cand w)\<lparr>creds := (creds (cur_cand w))\<lparr>ssid := v\<rparr>, seen_ssid := True\<rparr>\<rparr>)"
    using assms by (simp add: wifi_ini_def copy_val_def Let_def)
  show "length v \<le> 64 \<Longrightarrow> wifi_ini sec (Some (''password'', v)) w
      = (OK, w\<lparr>cur_cand := (cur_cand w)\<lparr>creds := (creds (cur_cand w))\<lparr>psk := v\<rparr>\<rparr>\<rparr>)"
    using assms by (simp add: wifi_ini_def copy_val_def Let_def)
  assume d: "list_all is_digit v" "length v \<le> 6"
  then have "\<not> (v \<noteq> [] \<and> hd v = CHR ''-'')" by (cases v) (auto simp: is_digit_def)
  then have "parse_priority v = Some (prio_val v)"
    using d by (auto simp: parse_priority_def prio_val_def Let_def)
  then show "wifi_ini sec (Some (''priority'', v)) w
      = (OK, w\<lparr>cur_cand := (cur_cand w)\<lparr>priority := prio_val v\<rparr>\<rparr>)"
    using assms by (simp add: wifi_ini_def Let_def)
qed

text \<open>The state in which a rendered network has been read and its section is still open.\<close>

definition open_net :: "net_spec \<Rightarrow> wifi_stage_state \<Rightarrow> wifi_stage_state" where
  "open_net n w = (wifi_close_section w)\<lparr>in_network := True,
     cur_cand := \<lparr>creds = net_creds n, priority = prio_val (n_prio n), is_open = False, seen_ssid = True\<rparr>\<rparr>"

lemma closed_cand: "cur_cand (wifi_close_section w) = no_candidate" "\<not> in_network (wifi_close_section w)"
  by (simp_all add: wifi_close_section_def Let_def)

lemma walk_net:
  assumes "net_ok n"
  shows "ini_walk wifi_ini sec (render_net n @ rest) w = ini_walk wifi_ini ''network'' rest (open_net n w)"
proof -
  note ok = assms [unfolded net_ok_def]
  have dig: "plain_text (n_prio n)"
    using ok by (auto simp: plain_text_def list_all_iff is_digit_def NL_def CR_def)
  have pl: "plain_text (''ssid'' @ n_ssid n)" "plain_text (''password'' @ n_psk n)"
    "plain_text (''priority'' @ n_prio n)"
    using ok dig by (simp_all add: plain_text_def NL_def CR_def)
  have shape: "render_net n @ rest = ''[network]'' @ NL # ''ssid'' @ CHR ''='' # n_ssid n @ NL
      # ''password'' @ CHR ''='' # n_psk n @ NL # ''priority'' @ CHR ''='' # n_prio n @ NL # rest"
    by (simp add: render_net_def)
  let ?w = "(wifi_close_section w)\<lparr>in_network := True\<rparr>"
  have key: "CHR ''='' \<notin> set ''ssid''" "''ssid'' \<noteq> []" "hd ''ssid'' \<noteq> CHR ''[''"
    "CHR ''='' \<notin> set ''password''" "''password'' \<noteq> []" "hd ''password'' \<noteq> CHR ''[''"
    "CHR ''='' \<notin> set ''priority''" "''priority'' \<noteq> []" "hd ''priority'' \<noteq> CHR ''[''" by simp_all
  note kv = ini_walk_kv [OF pl(1) key(1-3)] ini_walk_kv [OF pl(2) key(4-6)] ini_walk_kv [OF pl(3) key(7-9)]
  have s: "wifi_ini ''network'' (Some (''ssid'', n_ssid n)) ?w
      = (OK, ?w\<lparr>cur_cand := no_candidate\<lparr>creds := no_creds\<lparr>ssid := n_ssid n\<rparr>, seen_ssid := True\<rparr>\<rparr>)"
    using ok by (subst wifi_ini_pairs(1)) (simp_all add: closed_cand no_candidate_def)
  have p: "wifi_ini ''network'' (Some (''password'', n_psk n))
      (?w\<lparr>cur_cand := no_candidate\<lparr>creds := no_creds\<lparr>ssid := n_ssid n\<rparr>, seen_ssid := True\<rparr>\<rparr>)
      = (OK, ?w\<lparr>cur_cand := no_candidate\<lparr>creds := net_creds n, seen_ssid := True\<rparr>\<rparr>)"
    using ok by (subst wifi_ini_pairs(2)) (simp_all add: net_creds_def no_creds_def)
  have q: "wifi_ini ''network'' (Some (''priority'', n_prio n))
      (?w\<lparr>cur_cand := no_candidate\<lparr>creds := net_creds n, seen_ssid := True\<rparr>\<rparr>) = (OK, open_net n w)"
    using ok by (subst wifi_ini_pairs(3)) (simp_all add: open_net_def no_candidate_def)
  show ?thesis
    unfolding shape ini_walk_network wifi_ini_network prod.case rc.case kv s p q ..
qed

text \<open>The network held so far, and the first one of the highest priority.\<close>

definition held :: "wifi_stage_state \<Rightarrow> (app_wifi_creds \<times> int) option" where
  "held w = (if have_best w then Some (best w, best_priority w) else None)"

primrec better :: "net_spec \<Rightarrow> (app_wifi_creds \<times> int) option \<Rightarrow> (app_wifi_creds \<times> int) option" where
  "better n None = Some (net_creds n, prio_val (n_prio n))"
| "better n (Some b) = (if prio_val (n_prio n) > snd b then Some (net_creds n, prio_val (n_prio n)) else Some b)"

lemma close_open_net: "held (wifi_close_section (open_net n w)) = better n (held (wifi_close_section w))"
  by (simp add: held_def open_net_def wifi_close_section_def [of "open_net n w" for n w]
      wifi_close_section_def [of "w\<lparr>in_network := x, cur_cand := y\<rparr>" for w x y] Let_def)

lemma walk_nets:
  assumes "list_all net_ok ns"
  shows "\<exists>w'. ini_walk wifi_ini sec (concat (map render_net ns)) w = (OK, w')
    \<and> held (wifi_close_section w') = fold better ns (held (wifi_close_section w))"
  using assms
proof (induction ns arbitrary: sec w)
  case Nil
  then show ?case by (simp add: ini_walk.simps)
next
  case (Cons n ns)
  then show ?case
    using Cons.IH [of "''network''" "open_net n w"] by (simp add: walk_net close_open_net)
qed

lemma fold_better:
  "fold better ns (Some b) = Some b' \<Longrightarrow>
    (b' = b \<and> (\<forall>n \<in> set ns. prio_val (n_prio n) \<le> snd b))
    \<or> (\<exists>i < length ns. b' = (net_creds (ns ! i), prio_val (n_prio (ns ! i))) \<and> snd b < snd b'
        \<and> (\<forall>j < i. prio_val (n_prio (ns ! j)) < snd b') \<and> (\<forall>n \<in> set ns. prio_val (n_prio n) \<le> snd b'))"
proof (induction ns arbitrary: b)
  case (Cons n ns)
  let ?p = "prio_val (n_prio n)"
  define b1 where "b1 = (if ?p > snd b then (net_creds n, ?p) else b)"
  have f: "fold better ns (Some b1) = Some b'" using Cons.prems by (simp add: b1_def split: if_splits)
  have b1: "snd b \<le> snd b1" "?p \<le> snd b1" by (simp_all add: b1_def)
  from Cons.IH [OF f] consider
      (same) "b' = b1" "\<forall>m \<in> set ns. prio_val (n_prio m) \<le> snd b1"
    | (later) i where "i < length ns" "b' = (net_creds (ns ! i), prio_val (n_prio (ns ! i)))" "snd b1 < snd b'"
        "\<forall>j < i. prio_val (n_prio (ns ! j)) < snd b'" "\<forall>m \<in> set ns. prio_val (n_prio m) \<le> snd b'"
    by blast
  then show ?case
  proof cases
    case same
    then show ?thesis
    proof (cases "?p > snd b")
      case True
      then show ?thesis using same by (intro disjI2 exI [of _ 0]) (simp add: b1_def)
    next
      case False
      then show ?thesis using same by (simp add: b1_def)
    qed
  next
    case later
    then show ?thesis
      using b1 by (intro disjI2 exI [of _ "Suc i"]) (auto simp: nth_Cons split: nat.split)
  qed
qed simp

lemma fold_better_first:
  assumes "ns \<noteq> []"
  obtains i where "i < length ns"
    "fold better ns None = Some (net_creds (ns ! i), prio_val (n_prio (ns ! i)))"
    "\<forall>j < i. prio_val (n_prio (ns ! j)) < prio_val (n_prio (ns ! i))"
    "\<forall>n \<in> set ns. prio_val (n_prio n) \<le> prio_val (n_prio (ns ! i))"
proof -
  obtain m ms where ns: "ns = m # ms" using assms by (cases ns) auto
  let ?b = "(net_creds m, prio_val (n_prio m))"
  have some: "\<exists>b'. fold better ms (Some b) = Some b'" for b
    by (induction ms arbitrary: b) auto
  then obtain b' where f: "fold better ms (Some ?b) = Some b'" by blast
  from fold_better [OF f] show ?thesis
  proof (elim disjE conjE exE)
    assume "b' = ?b" "\<forall>n \<in> set ms. prio_val (n_prio n) \<le> snd ?b"
    then show ?thesis using f by (intro that [of 0]) (simp_all add: ns)
  next
    fix i assume "i < length ms" "b' = (net_creds (ms ! i), prio_val (n_prio (ms ! i)))" "snd ?b < snd b'"
      "\<forall>j < i. prio_val (n_prio (ms ! j)) < snd b'" "\<forall>n \<in> set ms. prio_val (n_prio n) \<le> snd b'"
    then show ?thesis
      using f by (intro that [of "Suc i"]) (auto simp: ns nth_Cons split: nat.split)
  qed
qed

text \<open>
  Staging a Wi-Fi module with any number of networks selects the first of those with the
  highest priority, whatever the order they are listed in.
\<close>

theorem best_network_first_max:
  assumes "ns \<noteq> []" "list_all net_ok ns"
  shows "\<exists>i < length ns. best (a_wifi (snd (wifi_stage (concat (map render_net ns)) s))) = net_creds (ns ! i)
    \<and> fst (wifi_stage (concat (map render_net ns)) s) = OK
    \<and> (\<forall>j < length ns. prio_val (n_prio (ns ! j)) \<le> prio_val (n_prio (ns ! i)))
    \<and> (\<forall>j < i. prio_val (n_prio (ns ! j)) < prio_val (n_prio (ns ! i)))"
proof -
  obtain i where i: "i < length ns"
    "fold better ns None = Some (net_creds (ns ! i), prio_val (n_prio (ns ! i)))"
    "\<forall>j < i. prio_val (n_prio (ns ! j)) < prio_val (n_prio (ns ! i))"
    "\<forall>n \<in> set ns. prio_val (n_prio n) \<le> prio_val (n_prio (ns ! i))"
    using fold_better_first [OF assms(1)] by metis
  obtain w where w: "ini_walk wifi_ini [] (concat (map render_net ns)) wifi_reset_state = (OK, w)"
    "held (wifi_close_section w) = fold better ns (held (wifi_close_section wifi_reset_state))"
    using walk_nets [OF assms(2)] by blast
  have "held (wifi_close_section wifi_reset_state) = None"
    by (simp add: held_def wifi_close_section_def wifi_reset_state_def)
  with w(2) i(2) have "have_best (wifi_close_section w)" "best (wifi_close_section w) = net_creds (ns ! i)"
    by (simp_all add: held_def split: if_splits)
  then show ?thesis
    using i w(1) by (auto simp: wifi_stage_def wifi_reset_def Let_def)
qed

definition apply_clean :: apply_state where
  "apply_clean = \<lparr>a_wifi = wifi_reset_state, a_c8y = c8y_empty, a_creds = [], a_settings = (\<lambda>_. None)\<rparr>"

theorem best_network_first_max_witness:
  "best (a_wifi (snd (wifi_stage (concat (map render_net
       [\<lparr>n_ssid = ''plant'', n_psk = ''secret12'', n_prio = ''1''\<rparr>,
        \<lparr>n_ssid = ''lab'', n_psk = ''secret34'', n_prio = ''5''\<rparr>])) apply_clean)))
   = \<lparr>ssid = ''lab'', psk = ''secret34''\<rparr>"
proof -
  let ?ns = "[\<lparr>n_ssid = ''plant'', n_psk = ''secret12'', n_prio = ''1''\<rparr>,
    \<lparr>n_ssid = ''lab'', n_psk = ''secret34'', n_prio = ''5''\<rparr>]"
  have "list_all net_ok ?ns" by (simp add: net_ok_def plain_text_def NL_def CR_def is_digit_def)
  then obtain i where i: "i < length ?ns"
    "best (a_wifi (snd (wifi_stage (concat (map render_net ?ns)) apply_clean))) = net_creds (?ns ! i)"
    "\<forall>j < length ?ns. prio_val (n_prio (?ns ! j)) \<le> prio_val (n_prio (?ns ! i))"
    using best_network_first_max [of ?ns apply_clean] by blast
  have "prio_val (n_prio (?ns ! 1)) \<le> prio_val (n_prio (?ns ! i))" 
    by (rule i(3) [rule_format]) simp
  then have "i = 1" using i(1) by (auto simp: prio_val_def digit_val_def less_Suc_eq)
  with i(2) show ?thesis by (simp add: net_creds_def)
qed

text \<open>Nothing can be joined, the store works, and the modules are not encoded.\<close>

definition env_no_join :: apply_env where
  "env_no_join = \<lparr>e_join = (\<lambda>_. Err ETIMEDOUT), e_set_personal = (\<lambda>_. OK), e_settings = settings_work,
     e_b64 = (\<lambda>_ s. Some s), e_unseal = (\<lambda>_ _ _. Inl EBADMSG)\<rparr>"


end
