(* ===== verification/Ztp_Run.thy ===== *)
theory Ztp_Run
  imports Ztp_Link Ztp_Apply Boot
begin

text \<open>
  The provisioner's main thread, \<^verbatim>\<open>ztp_run\<close> of
  \<^verbatim>\<open>src/apps/wifi-provisioner/src/ztp.c\<close>: the clock the relay sets, advertising, the reactions to
  the messages of the link, the provisioning window, and the way out of the provisioner. One turn
  of the loop is one function; a step relation interleaves it with the Bluetooth callbacks.
\<close>

section \<open>State\<close>

datatype ztp_status_byte = ZTP_ST_IDLE | ZTP_ST_RELAYING | ZTP_ST_DONE | ZTP_ST_ERROR

datatype led_mode = LedProvisioning | LedOff

record ztp_cfg =
  rx_bytes :: nat
  window_s :: int
  pubkey_set :: bool
  dev_id :: string

record ztp_dev =
  rx :: rx_state
  cur_status :: ztp_status_byte
  clock_offset_s :: int
  clock_known :: bool
  adv_wanted :: bool
  adv_running :: bool
  cur_conn :: bool
  deadline :: int
  idle :: bool
  return_on_expiry :: bool
  ztp_led :: led_mode
  app_state :: apply_state
  req_part :: bytes

text \<open>
  One turn's outside: uptime in milliseconds when the turn runs, the builder of the signed
  envelope (\<^verbatim>\<open>ztp_envelope.c\<close>, by time stamp), the Bluetooth stack, base64 of the manifest, the
  appliers' environment, whether other credentials resolve, and the flash calls of the boot request.
\<close>

record run_io =
  io_now :: int
  io_envelope :: "int \<Rightarrow> errno + bytes"
  io_tx :: tx_io
  io_adv :: rc
  io_manifest_b64 :: "string \<Rightarrow> string option"
  io_apply :: apply_env
  io_creds :: rc
  io_flash :: flash_io

section \<open>Clock\<close>

definition clock_set :: "int \<Rightarrow> int \<Rightarrow> ztp_dev \<Rightarrow> ztp_dev" where
  "clock_set now unix_s s = s\<lparr>clock_offset_s := unix_s - now div 1000, clock_known := True\<rparr>"

definition clock_now :: "int \<Rightarrow> ztp_dev \<Rightarrow> int" where
  "clock_now now s = now div 1000 + clock_offset_s s"

definition trailing_blank :: "char \<Rightarrow> bool" where
  "trailing_blank c \<longleftrightarrow> c = CHR '' '' \<or> c = CHR 0x0A \<or> c = CHR 0x0D"

text \<open>The handler returns the length without the trailing blanks it removed.\<close>

definition write_timesync :: "int \<Rightarrow> nat \<Rightarrow> string \<Rightarrow> ztp_dev \<Rightarrow> att \<times> ztp_dev" where
  "write_timesync now off buf s =
     (if off \<noteq> 0 then (INVALID_OFFSET, s)
      else
        let v = rev (dropWhile trailing_blank (rev buf))
        in case ztp_parse_rfc3339 v of
             Some t \<Rightarrow> (Took (length v), clock_set now t s)
           | None \<Rightarrow> (Took (length v), s))"

section \<open>Advertising and connections\<close>

definition adv_start :: "rc \<Rightarrow> ztp_dev \<Rightarrow> ztp_dev" where
  "adv_start err s =
     (if \<not> adv_wanted s \<or> adv_running s \<or> cur_conn s then s
      else if err \<noteq> OK then s
      else s\<lparr>adv_running := True\<rparr>)"

definition adv_stop :: "ztp_dev \<Rightarrow> ztp_dev" where
  "adv_stop s = s\<lparr>adv_wanted := False, adv_running := False\<rparr>"

definition on_connected :: "bool \<Rightarrow> ztp_dev \<Rightarrow> ztp_dev" where
  "on_connected err s = (if err then s else s\<lparr>adv_running := False, cur_conn := True\<rparr>)"

definition on_disconnected :: "ztp_dev \<Rightarrow> ztp_dev" where
  "on_disconnected s = s\<lparr>cur_conn := False, rx := rx_disconnected (rx s)\<rparr>"

definition on_recycled :: "rc \<Rightarrow> ztp_dev \<Rightarrow> ztp_dev" where
  "on_recycled err s = adv_start err s"

definition set_status :: "ztp_status_byte \<Rightarrow> ztp_dev \<Rightarrow> ztp_dev" where
  "set_status st s = s\<lparr>cur_status := st\<rparr>"

section \<open>Messages\<close>

definition handle_kick :: "run_io \<Rightarrow> ztp_dev \<Rightarrow> bytes list \<times> ztp_dev" where
  "handle_kick io s =
     (let stamp = clock_now (io_now io) s;
          s = set_status ZTP_ST_RELAYING (s\<lparr>rx := release_rx (rx s)\<rparr>)
      in case io_envelope io stamp of
           Inl e \<Rightarrow> ([], set_status ZTP_ST_ERROR s)
         | Inr env \<Rightarrow>
             (let (rc, out) = send_message (io_tx io) env
              in (out, set_status (if rc = OK then ZTP_ST_DONE else ZTP_ST_ERROR) s)))"

definition handle_response :: "ztp_cfg \<Rightarrow> run_io \<Rightarrow> ztp_dev \<Rightarrow> rc \<times> ztp_dev" where
  "handle_response cfg io s =
     (case ztp_response_parse (chars (rx_buf (rx s))) of
        None \<Rightarrow> (Err EPROTO, s)
      | Some r \<Rightarrow>
          (let s = (if server_time r \<noteq> 0 then clock_set (io_now io) (server_time r) s else s)
           in if status r \<noteq> ZTP_STATUS_ACCEPTED then (Err EAGAIN, s)
              else if manifest r = [] then (Err EPROTO, s)
              else if pubkey_set cfg then (Err ENOTSUP, s)
              else
                (case io_manifest_b64 io (manifest r) of
                   None \<Rightarrow> (Err EPROTO, s)
                 | Some m \<Rightarrow>
                     (let (rc, a) = ztp_apply_manifest (io_apply io) m (dev_id cfg) (app_state s)
                      in (rc, s\<lparr>app_state := a\<rparr>)))))"

section \<open>The loop\<close>

datatype loop_result = Stay | LeaveProvisioner

definition reboot_now :: "run_io \<Rightarrow> ztp_dev \<Rightarrow> loop_result \<times> ztp_dev" where
  "reboot_now io s = (LeaveProvisioner, s\<lparr>req_part := snd (boot_request_clear (io_flash io) (req_part s))\<rparr>)"

definition handle_message :: "ztp_cfg \<Rightarrow> run_io \<Rightarrow> ztp_msg \<Rightarrow> ztp_dev \<Rightarrow> loop_result \<times> ztp_dev" where
  "handle_message cfg io m s =
     (case m of
        MSG_KICK \<Rightarrow>
          (Stay, if \<not> idle s then snd (handle_kick io s) else s\<lparr>rx := release_rx (rx s)\<rparr>)
      | MSG_OVERFLOW \<Rightarrow> (Stay, set_status ZTP_ST_ERROR (s\<lparr>rx := release_rx (rx s)\<rparr>))
      | MSG_RESPONSE \<Rightarrow>
          (let s = set_status ZTP_ST_RELAYING s;
               (err, s) = handle_response cfg io s;
               s = s\<lparr>rx := release_rx (rx s)\<rparr>
           in if err \<noteq> OK then (Stay, set_status ZTP_ST_ERROR s)
              else reboot_now io (adv_stop (set_status ZTP_ST_DONE s)))
      | MSG_BUTTON \<Rightarrow>
          (if idle s then
             (Stay, adv_start (io_adv io)
                (s\<lparr>idle := False, deadline := io_now io + window_s cfg * 1000,
                   ztp_led := LedProvisioning, adv_wanted := True\<rparr>))
           else (Stay, s)))"

text \<open>
  The queue is read with a timeout at the deadline, and without one when idle: with an empty queue
  an idle device waits, and one that is not idle turns to the deadline.
\<close>

definition ztp_turn :: "ztp_cfg \<Rightarrow> run_io \<Rightarrow> ztp_dev \<Rightarrow> loop_result \<times> ztp_dev" where
  "ztp_turn cfg io s =
     (case ztp_q (rx s) of
        m # q \<Rightarrow> handle_message cfg io m (s\<lparr>rx := (rx s)\<lparr>ztp_q := q\<rparr>\<rparr>)
      | [] \<Rightarrow>
          if \<not> idle s \<and> io_now io \<ge> deadline s then
            (if return_on_expiry s \<or> io_creds io = OK then reboot_now io s
             else (Stay, (adv_stop s)\<lparr>ztp_led := LedOff, idle := True\<rparr>))
          else (Stay, s))"

text \<open>
  Start-up, at uptime \<open>now\<close>, with what is in flash; \<open>None\<close> when \<open>bt_enable\<close> fails, which reboots
  with the request still set.
\<close>

definition ztp_start :: "ztp_cfg \<Rightarrow> run_io \<Rightarrow> rc \<Rightarrow> bytes \<Rightarrow> apply_state \<Rightarrow> ztp_dev option" where
  "ztp_start cfg io bt part a =
     (let s = \<lparr>rx = rx_init, cur_status = ZTP_ST_IDLE, clock_offset_s = 0, clock_known = False,
               adv_wanted = False, adv_running = False, cur_conn = False,
               deadline = io_now io + window_s cfg * 1000, idle = False,
               return_on_expiry = (case boot_request_read (io_flash io) part of
                  Inr r \<Rightarrow> br_reason r = reason_value BOOT_REQUEST_OPERATOR | Inl e \<Rightarrow> False),
               ztp_led = LedProvisioning, app_state = a, req_part = part\<rparr>
      in if bt \<noteq> OK then None else Some (adv_start (io_adv io) (s\<lparr>adv_wanted := True\<rparr>)))"

section \<open>Interleaving\<close>

text \<open>
  The steps of the device while it stays in the provisioner. \<open>joins\<close> are the credentials whose
  network can be joined: the appliers' environment of every turn agrees with it.
\<close>

inductive ztp_step :: "ztp_cfg \<Rightarrow> app_wifi_creds set \<Rightarrow> ztp_dev \<Rightarrow> ztp_dev \<Rightarrow> bool"
  for cfg joins where
  relay_write: "ztp_step cfg joins s (s\<lparr>rx := snd (write_request (rx_bytes cfg) p off buf (rx s))\<rparr>)"
| relay_time: "ztp_step cfg joins s (snd (write_timesync now off str s))"
| connected: "ztp_step cfg joins s (on_connected err s)"
| disconnected: "ztp_step cfg joins s (on_disconnected s)"
| recycled: "ztp_step cfg joins s (on_recycled err s)"
| pressed: "ztp_step cfg joins s (s\<lparr>rx := snd (ztp_btn_work_fn lvl lvl' (rx s))\<rparr>)"
| main_turn: "ztp_turn cfg io s = (r, s') \<Longrightarrow> (\<And>c. e_join (io_apply io) c = OK \<Longrightarrow> c \<in> joins)
    \<Longrightarrow> ztp_step cfg joins s s'"

inductive ztp_reach :: "ztp_cfg \<Rightarrow> app_wifi_creds set \<Rightarrow> ztp_dev \<Rightarrow> ztp_dev \<Rightarrow> bool"
  for cfg joins where
  here: "ztp_reach cfg joins s s"
| more: "ztp_reach cfg joins s t \<Longrightarrow> ztp_step cfg joins t u \<Longrightarrow> ztp_reach cfg joins s u"

inductive_cases ztp_stepE: "ztp_step cfg joins s t"


section \<open>Concrete runs\<close>

definition sample_cfg :: ztp_cfg where
  "sample_cfg = \<lparr>rx_bytes = 4096, window_s = 900, pubkey_set = False, dev_id = ''dev-1''\<rparr>"

text \<open>At uptime \<open>now\<close>: no network can be joined, no credentials resolve, flash and radio work.\<close>

definition sample_run_io :: "int \<Rightarrow> run_io" where
  "sample_run_io now =
     \<lparr>io_now = now, io_envelope = (\<lambda>_. Inl EIO),
      io_tx = \<lparr>tx_connected = (\<lambda>_. True), tx_notify = (\<lambda>_. OK), tx_mtu = 185\<rparr>, io_adv = OK,
      io_manifest_b64 = (\<lambda>x. Some x), io_apply = env_no_join, io_creds = Err ENOENT, io_flash = all_ok\<rparr>"

definition sample_dev :: ztp_dev where
  "sample_dev = the (ztp_start sample_cfg (sample_run_io 0) OK (replicate 16 0xFF) apply_clean)"

lemma sample_dev_start:
  "ztp_start sample_cfg (sample_run_io 0) OK (replicate 16 0xFF) apply_clean = Some sample_dev"
  by (simp add: sample_dev_def ztp_start_def Let_def)

lemma sample_dev_simps:
  "ztp_q (rx sample_dev) = []" "\<not> idle sample_dev" "deadline sample_dev = 900000"
  "\<not> return_on_expiry sample_dev" "req_part sample_dev = replicate 16 0xFF"
proof -
  have io: "io_flash (sample_run_io 0) = all_ok" "io_adv (sample_run_io 0) = OK" "io_now (sample_run_io 0) = 0"
    by (simp_all add: sample_run_io_def)
  have "boot_request_read all_ok (replicate 16 0xFF) = Inl ENOENT"
    using erased_not_requested(2) [of "replicate 16 0xFF" all_ok] by (simp add: part_ok_def all_ok_def)
  then show "ztp_q (rx sample_dev) = []" "\<not> idle sample_dev" "deadline sample_dev = 900000"
    "\<not> return_on_expiry sample_dev" "req_part sample_dev = replicate 16 0xFF"
    by (simp_all add: sample_dev_def ztp_start_def adv_start_def rx_init_def sample_cfg_def io Let_def)
qed

section \<open>Reachable states\<close>

definition run_inv :: "ztp_cfg \<Rightarrow> ztp_dev \<Rightarrow> bool" where
  "run_inv cfg s \<longleftrightarrow>
     link_ok (rx_bytes cfg) (rx s) \<and> (adv_running s \<longrightarrow> adv_wanted s \<and> \<not> cur_conn s)
     \<and> (idle s \<longrightarrow> \<not> adv_wanted s \<and> ztp_led s = LedOff)"

definition creds_proven :: "app_wifi_creds set \<Rightarrow> app_wifi_creds list \<Rightarrow> ztp_dev \<Rightarrow> bool" where
  "creds_proven joins before s \<longleftrightarrow> a_creds (app_state s) = before \<or> set (a_creds (app_state s)) \<subseteq> joins"

lemmas small_step_defs = set_status_def clock_set_def adv_start_def adv_stop_def on_connected_def
  on_disconnected_def on_recycled_def

lemma link_ok_release: "link_ok n s \<Longrightarrow> length (rx_messages s) = 0 \<Longrightarrow> link_ok n (release_rx s)"
  by (auto simp: link_ok_def release_rx_def rx_messages_def)

lemma link_ok_take:
  assumes "link_ok n s" "ztp_q s = m # q"
  shows "m \<noteq> MSG_BUTTON \<Longrightarrow> link_ok n (release_rx (s\<lparr>ztp_q := q\<rparr>))"
    and "m = MSG_BUTTON \<Longrightarrow> link_ok n (s\<lparr>ztp_q := q\<rparr>)"
  using link.react_keeps [OF assms(1), of TakeMsg] assms(2) by (simp_all add: link_react_def)

lemma handle_response_frame:
  assumes "handle_response cfg io s = (r, t)"
  shows "rx t = rx s" "adv_wanted t = adv_wanted s" "adv_running t = adv_running s" "cur_conn t = cur_conn s"
    "idle t = idle s" "ztp_led t = ztp_led s" "deadline t = deadline s" "req_part t = req_part s"
  using assms
  by (auto simp: handle_response_def Let_def clock_set_def split: option.splits if_splits prod.splits)

lemma handle_response_creds:
  assumes "handle_response cfg io s = (r, t)"
  shows "app_state t = app_state s \<or>
    (\<exists>m rc. ztp_apply_manifest (io_apply io) m (dev_id cfg) (app_state s) = (rc, app_state t) \<and> r = rc)"
  using assms
  by (auto simp: handle_response_def Let_def clock_set_def split: option.splits if_splits prod.splits)

lemma handle_kick_frame:
  "rx (snd (handle_kick io s)) = release_rx (rx s)" "adv_wanted (snd (handle_kick io s)) = adv_wanted s"
  "adv_running (snd (handle_kick io s)) = adv_running s" "cur_conn (snd (handle_kick io s)) = cur_conn s"
  "idle (snd (handle_kick io s)) = idle s" "ztp_led (snd (handle_kick io s)) = ztp_led s"
  "app_state (snd (handle_kick io s)) = app_state s"
  by (auto simp: handle_kick_def Let_def set_status_def split: sum.split prod.split)

lemma response_turn:
  assumes "handle_response cfg io (set_status ZTP_ST_RELAYING s) = (e, u)"
  shows "handle_message cfg io MSG_RESPONSE s =
    (if e \<noteq> OK then (Stay, set_status ZTP_ST_ERROR (u\<lparr>rx := release_rx (rx u)\<rparr>))
     else reboot_now io (adv_stop (set_status ZTP_ST_DONE (u\<lparr>rx := release_rx (rx u)\<rparr>))))"
  using assms by (simp add: handle_message_def)

lemma turn_inv:
  assumes "run_inv cfg s" "ztp_turn cfg io s = (r, t)"
  shows "run_inv cfg t"
proof (cases "ztp_q (rx s)")
  case Nil
  then show ?thesis
    using assms by (auto simp: ztp_turn_def run_inv_def reboot_now_def adv_stop_def split: if_splits)
next
  case (Cons m q)
  have lk: "link_ok (rx_bytes cfg) (rx s)" using assms(1) by (simp add: run_inv_def)
  note rel = link_ok_take [OF lk Cons]
  let ?s = "s\<lparr>rx := (rx s)\<lparr>ztp_q := q\<rparr>\<rparr>"
  have turn: "handle_message cfg io m ?s = (r, t)" using assms(2) Cons by (simp add: ztp_turn_def)
  show ?thesis
  proof (cases m)
    case MSG_KICK
    then show ?thesis
      using turn rel assms(1) by (auto simp: handle_message_def run_inv_def handle_kick_frame split: if_splits)
  next
    case MSG_OVERFLOW
    then show ?thesis
      using turn rel assms(1) by (auto simp: handle_message_def run_inv_def set_status_def)
  next
    case MSG_BUTTON
    then show ?thesis
      using turn rel assms(1) by (auto simp: handle_message_def run_inv_def adv_start_def split: if_splits)
  next
    case MSG_RESPONSE
    obtain e u where u: "handle_response cfg io (set_status ZTP_ST_RELAYING ?s) = (e, u)" by fastforce
    have "run_inv cfg (u\<lparr>rx := release_rx (rx u)\<rparr>)"
      using rel MSG_RESPONSE assms(1) handle_response_frame [OF u] by (simp add: run_inv_def set_status_def)
    then show ?thesis
      using turn unfolding MSG_RESPONSE response_turn [OF u]
      by (auto simp: run_inv_def set_status_def adv_stop_def reboot_now_def split: if_splits)
  qed
qed

lemma step_inv: "ztp_step cfg joins s t \<Longrightarrow> run_inv cfg s \<Longrightarrow> run_inv cfg t"
proof (induction rule: ztp_step.induct)
  case (relay_write s p off buf)
  then show ?case by (simp add: run_inv_def write_request_ok)
next
  case (relay_time s now off str)
  then show ?case
    by (auto simp: run_inv_def write_timesync_def clock_set_def Let_def split: option.split)
next
  case (disconnected s)
  then have "link_ok (rx_bytes cfg) (rx_disconnected (rx s))"
    using link.react_keeps [of "rx_bytes cfg" "rx s" Disconnect] by (simp add: run_inv_def link_react_def)
  with disconnected show ?case by (simp add: run_inv_def on_disconnected_def)
next
  case (pressed s lvl lvl')
  then have "link_ok (rx_bytes cfg) (post MSG_BUTTON (rx s))"
    using link.react_keeps [of "rx_bytes cfg" "rx s" Button] by (simp add: run_inv_def link_react_def)
  with pressed show ?case by (simp add: run_inv_def ztp_btn_work_fn_def)
next
  case (main_turn io s r s')
  then show ?case by (blast intro: turn_inv)
qed (auto simp: run_inv_def small_step_defs)

text \<open>
  In every state the provisioner can reach, whatever the order of writes, connections, button
  presses and main-thread turns: the receive buffers are within bounds, the device never advertises
  while it is connected or its window has expired, and an expired device shows it on its LED.
\<close>

theorem provisioner_invariant:
  assumes "ztp_reach cfg joins s t" "ztp_start cfg io bt part a = Some s"
  shows "run_inv cfg t"
proof -
  have "run_inv cfg s"
    using assms(2) by (auto simp: ztp_start_def run_inv_def adv_start_def Let_def link_ok_def rx_init_def
        rx_messages_def split: if_splits)
  with assms(1) show ?thesis by (induction rule: ztp_reach.induct) (auto intro: step_inv)
qed

theorem provisioner_invariant_witness:
  "run_inv sample_cfg (on_disconnected (on_connected False sample_dev))"
  by (rule provisioner_invariant [OF ztp_reach.more [OF ztp_reach.more [OF ztp_reach.here ztp_step.connected]
      ztp_step.disconnected] sample_dev_start])

lemma step_creds:
  assumes "ztp_step cfg joins s t" "creds_proven joins before s"
  shows "creds_proven joins before t"
  using assms
proof (cases rule: ztp_step.cases)
  case (main_turn io r)
  have keep: "creds_proven joins before u" if "app_state u = app_state s" for u
    using assms(2) that by (simp add: creds_proven_def)
  show ?thesis
  proof (cases "ztp_q (rx s)")
    case Nil
    then show ?thesis
      using main_turn(1) by (intro keep) (auto simp: ztp_turn_def reboot_now_def adv_stop_def split: if_splits)
  next
    case (Cons m q)
    let ?s = "s\<lparr>rx := (rx s)\<lparr>ztp_q := q\<rparr>\<rparr>"
    have turn: "handle_message cfg io m ?s = (r, t)" using main_turn(1) Cons by (simp add: ztp_turn_def)
    show ?thesis
    proof (cases "m = MSG_RESPONSE")
      case False
      then show ?thesis
        using turn by (cases m; intro keep)
          (auto simp: handle_message_def handle_kick_frame set_status_def adv_start_def split: if_splits)
    next
      case True
      obtain e u where u: "handle_response cfg io (set_status ZTP_ST_RELAYING ?s) = (e, u)" by fastforce
      have "app_state t = app_state u"
        using turn unfolding True response_turn [OF u]
        by (auto simp: set_status_def adv_stop_def reboot_now_def split: if_splits)
      then show ?thesis
        using handle_response_creds [OF u] apply_creds main_turn(2) assms(2)
        by (fastforce simp: creds_proven_def set_status_def)
    qed
  qed
qed (use assms(2) in \<open>auto simp: creds_proven_def small_step_defs write_timesync_def Let_def split: option.splits if_splits\<close>)

text \<open>
  C4. Working credentials are never replaced by unproven ones: in every reachable state the stored
  credentials are those the device entered the provisioner with, or of networks it has joined.
\<close>

theorem only_joined_credentials_stored:
  assumes "ztp_reach cfg joins s t"
  shows "a_creds (app_state t) = a_creds (app_state s) \<or> set (a_creds (app_state t)) \<subseteq> joins"
proof -
  have "creds_proven joins (a_creds (app_state s)) s" by (simp add: creds_proven_def)
  with assms have "creds_proven joins (a_creds (app_state s)) t"
    by (induction rule: ztp_reach.induct) (auto intro: step_creds)
  then show ?thesis by (simp add: creds_proven_def)
qed


lemma sample_joins: "e_join (io_apply (sample_run_io now)) c = OK \<Longrightarrow> c \<in> {}"
  by (simp add: sample_run_io_def env_no_join_def)

lemma sample_turn: "ztp_step sample_cfg {} s (snd (ztp_turn sample_cfg (sample_run_io now) s))"
  by (rule ztp_step.main_turn [OF surjective_pairing]) (rule sample_joins)

theorem only_joined_credentials_stored_witness:
  "a_creds (app_state (snd (ztp_turn sample_cfg (sample_run_io 5000) sample_dev))) \<in> {a_creds (app_state sample_dev), []}"
  using only_joined_credentials_stored [OF ztp_reach.more [OF ztp_reach.here sample_turn], of 5000 sample_dev] by simp

lemma apply_ok_header:
  "ztp_apply_manifest env m d a = (OK, a') \<Longrightarrow>
    hdr_version_ok (ztp_manifest_header m) \<and> device_id (ztp_manifest_header m) = d"
  by (auto simp: ztp_apply_manifest_def Let_def split: if_splits)

text \<open>
  C20. The device leaves the provisioner only when the server accepted it and the bundle of that very
  response, decoded and addressed to this device, has been applied without error, or when the window has expired and there are credentials to return to; and the request is then
  erased, so the bootloader starts the application.
\<close>

theorem leaves_only_when_done:
  assumes "ztp_turn cfg io s = (LeaveProvisioner, t)" "io_flash io = all_ok" "16 \<le> length (req_part s)"
  shows "((\<exists>q r m. ztp_q (rx s) = MSG_RESPONSE # q \<and> ztp_response_parse (chars (rx_buf (rx s))) = Some r
            \<and> status r = ZTP_STATUS_ACCEPTED \<and> \<not> pubkey_set cfg \<and> io_manifest_b64 io (manifest r) = Some m
            \<and> hdr_version_ok (ztp_manifest_header m) \<and> device_id (ztp_manifest_header m) = dev_id cfg
            \<and> ztp_apply_manifest (io_apply io) m (dev_id cfg) (app_state s) = (OK, app_state t))
        \<or> ztp_q (rx s) = [] \<and> \<not> idle s \<and> deadline s \<le> io_now io
            \<and> (return_on_expiry s \<or> io_creds io = OK) \<and> app_state t = app_state s)
    \<and> \<not> provisioner_requested all_ok (req_part t)"
proof (cases "ztp_q (rx s)")
  case Nil
  then show ?thesis
    using assms erased_not_requested(1) [of "req_part s"]
    by (auto simp: part_ok_def ztp_turn_def reboot_now_def boot_request_clear_def all_ok_def flash_area_flatten_def split: if_splits)
next
  case (Cons m q)
  let ?s = "s\<lparr>rx := (rx s)\<lparr>ztp_q := q\<rparr>\<rparr>"
  have turn: "handle_message cfg io m ?s = (LeaveProvisioner, t)" using assms(1) Cons by (simp add: ztp_turn_def)
  then have m: "m = MSG_RESPONSE" by (cases m) (auto simp: handle_message_def split: if_splits)
  obtain e u where u: "handle_response cfg io (set_status ZTP_ST_RELAYING ?s) = (e, u)" by fastforce
  have e: "e = OK" and t: "app_state t = app_state u"
    "req_part t = snd (boot_request_clear all_ok (req_part u))"
    using turn assms(2) unfolding m response_turn [OF u]
    by (auto simp: reboot_now_def set_status_def adv_stop_def split: if_splits)
  obtain r m' where "ztp_response_parse (chars (rx_buf (rx s))) = Some r" "status r = ZTP_STATUS_ACCEPTED"
    "\<not> pubkey_set cfg" "io_manifest_b64 io (manifest r) = Some m'"
    "ztp_apply_manifest (io_apply io) m' (dev_id cfg) (app_state s) = (OK, app_state u)"
    using u unfolding e
    by (auto simp: handle_response_def set_status_def clock_set_def Let_def split: option.splits if_splits prod.splits)
  moreover have "\<not> provisioner_requested all_ok (req_part t)"
    using t(2) handle_response_frame(8) [OF u] erased_not_requested(1) [of "req_part s"] assms(3)
    by (simp add: part_ok_def boot_request_clear_def all_ok_def flash_area_flatten_def set_status_def)
  ultimately show ?thesis using Cons m t(1) apply_ok_header by metis
qed

theorem leaves_only_when_done_witness:
  "fst (ztp_turn sample_cfg (sample_run_io 900000) (sample_dev\<lparr>return_on_expiry := True\<rparr>)) = LeaveProvisioner
   \<and> \<not> provisioner_requested all_ok
      (req_part (snd (ztp_turn sample_cfg (sample_run_io 900000) (sample_dev\<lparr>return_on_expiry := True\<rparr>))))"
proof -
  let ?s = "sample_dev\<lparr>return_on_expiry := True\<rparr>"
  have d: "ztp_q (rx ?s) = []" "\<not> idle ?s" "deadline ?s = 900000" "req_part ?s = replicate 16 0xFF"
    by (simp_all add: sample_dev_simps)
  obtain t where t: "ztp_turn sample_cfg (sample_run_io 900000) ?s = (LeaveProvisioner, t)"
    using d by (simp add: ztp_turn_def reboot_now_def sample_run_io_def)
  have "\<not> provisioner_requested all_ok (req_part t)"
    using leaves_only_when_done [OF t] d by (simp add: sample_run_io_def)
  with t show ?thesis by simp
qed

text \<open>
  A response the server did not accept, and any response while a server key is pinned, changes no
  credentials and no settings; the device reports the error, is ready for the next message, and
  stamps its next request with the server's clock when the response carried it.
\<close>

theorem refused_response:
  fixes io :: run_io
  assumes "ztp_q (rx s) = MSG_RESPONSE # q" "ztp_response_parse (chars (rx_buf (rx s))) = Some r"
    "status r \<noteq> ZTP_STATUS_ACCEPTED \<or> pubkey_set cfg"
  defines "t \<equiv> snd (ztp_turn cfg io s)"
  shows "fst (ztp_turn cfg io s) = Stay \<and> app_state t = app_state s \<and> cur_status t = ZTP_ST_ERROR
    \<and> \<not> rx_busy (rx t) \<and> rx_buf (rx t) = []
    \<and> (server_time r \<noteq> 0 \<longrightarrow> clock_known t \<and> clock_now (io_now io) t = server_time r)"
proof -
  let ?s = "s\<lparr>rx := (rx s)\<lparr>ztp_q := q\<rparr>\<rparr>"
  obtain e u where u: "handle_response cfg io (set_status ZTP_ST_RELAYING ?s) = (e, u)" by fastforce
  have "e \<noteq> OK \<and> app_state u = app_state s
      \<and> (server_time r \<noteq> 0 \<longrightarrow> clock_known u \<and> clock_now (io_now io) u = server_time r)"
    using u assms(2, 3)
    by (auto simp: handle_response_def set_status_def clock_set_def clock_now_def Let_def split: if_splits)
  moreover have "ztp_turn cfg io s = handle_message cfg io MSG_RESPONSE ?s"
    using assms(1) by (simp add: ztp_turn_def)
  ultimately show ?thesis
    unfolding t_def response_turn [OF u] by (auto simp: set_status_def release_rx_def clock_now_def)
qed

theorem refused_response_witness:
  "app_state (snd (ztp_turn sample_cfg (sample_run_io 5000)
      (sample_dev\<lparr>rx := rx_init\<lparr>rx_busy := True, ztp_q := [MSG_RESPONSE],
         rx_buf := ascii (''protocol_version=1'' @ [NL] @ ''status=pending'')\<rparr>\<rparr>))) = app_state sample_dev"
proof -
  have "chars (ascii (''protocol_version=1'' @ [NL] @ ''status=pending''))
      = ''protocol_version=1'' @ [NL] @ ''status=pending''"
    by (rule chars_ascii)
  moreover have "ztp_response_parse (''protocol_version=1'' @ [NL] @ ''status=pending'')
      = Some (empty_response\<lparr>status := ZTP_STATUS_PENDING\<rparr>)"
    by code_simp
  ultimately show ?thesis
    by (subst refused_response [where q = "[]" and
        r = "empty_response\<lparr>status := ZTP_STATUS_PENDING\<rparr>", THEN conjunct2, THEN conjunct1]) simp_all
qed

text \<open>
  A window that expires with nothing to return to makes the device idle, and it stays usable: the
  next press of the button starts a full new window and, unless a relay is still connected,
  advertises again.
\<close>

theorem button_restarts_window:
  fixes cfg :: ztp_cfg
  assumes "ztp_q (rx s) = []" "\<not> idle s" "deadline s \<le> io_now io" "\<not> return_on_expiry s" "io_creds io \<noteq> OK"
    "io_adv io' = OK"
  defines "t \<equiv> snd (ztp_turn cfg io s)"
  defines "u \<equiv> snd (ztp_turn cfg io' (t\<lparr>rx := snd (ztp_btn_work_fn False True (rx t))\<rparr>))"
  shows "idle t \<and> \<not> adv_running t \<and> ztp_led t = LedOff
    \<and> \<not> idle u \<and> deadline u = io_now io' + window_s cfg * 1000 \<and> ztp_led u = LedProvisioning
    \<and> (adv_running u \<longleftrightarrow> \<not> cur_conn s)"
proof -
  have t: "t = (adv_stop s)\<lparr>ztp_led := LedOff, idle := True\<rparr>"
    using assms(1-5) by (simp add: t_def ztp_turn_def)
  show ?thesis
    using assms(1, 6)
    by (simp add: u_def t adv_stop_def ztp_btn_work_fn_def post_def ztp_turn_def handle_message_def adv_start_def)
qed

theorem button_restarts_window_witness:
  "idle (snd (ztp_turn sample_cfg (sample_run_io 900000) sample_dev))"
  by (rule button_restarts_window [where io' = "sample_run_io 0", THEN conjunct1])
    (simp_all add: sample_dev_simps sample_run_io_def)

end
