(* ===== verification/Ztp_Envelope.thy ===== *)
theory Ztp_Envelope
  imports Ztp_Manifest "HOL-Library.Char_ord" "HOL-Library.List_Lexorder"
begin

text \<open>
  The enrollment request and the signed envelope around it (\<open>ztp_envelope.c\<close>): the canonical JSON
  the device signs, printed from one format string, and the envelope that carries it. The keys,
  the signature, the random nonce and base64 come from PSA and Zephyr and are parameters.
  What is proved: the printed bytes are the canonical rendering of one JSON value, they determine
  every field, and the envelope carries exactly the bytes that were signed.
\<close>

section \<open>The request\<close>

text \<open>\<open>None\<close> is a null pointer.\<close>

record request_info =
  ri_device_id :: "string option"
  ri_hostname :: "string option"
  ri_model :: "string option"
  ri_mac :: "string option"
  ri_agent_version :: "string option"
  ri_unix_s :: int
  ri_max_response :: int

definition json_plain :: "string \<Rightarrow> bool" where
  "json_plain s = list_all (\<lambda>c. \<not> (of_char c < (0x20 :: nat) \<or> of_char c > (0x7E :: nat)
     \<or> c = CHR 0x22 \<or> c = CHR 0x5C)) s"

text \<open>A string in double quotes, as the format strings write them.\<close>

definition quot :: "string \<Rightarrow> string" where
  "quot s = CHR 0x22 # s @ [CHR 0x22]"

text \<open>The member \<open>snprintf\<close> puts into \<open>mac_field[48]\<close>.\<close>

definition mac_field :: "string \<Rightarrow> string" where
  "mac_field m =
     (if m \<noteq> [] then take 47 ('','' @ quot ''mac_addresses'' @ '':['' @ quot m @ '']'') else [])"

definition ztp_request_canonical ::
  "request_info \<Rightarrow> string \<Rightarrow> string \<Rightarrow> string \<Rightarrow> nat \<Rightarrow> errno + string" where
  "ztp_request_canonical i nonce_b64 pubkey_b64 ephemeral_b64 out_size =
     (let strs = [ri_device_id i, ri_hostname i, ri_model i, ri_mac i, ri_agent_version i]
      in if list_ex (\<lambda>s. s = None \<or> \<not> json_plain (the s)) strs then Inl EINVAL
         else
           let ts = ztp_format_rfc3339 (ri_unix_s i);
               out =
                 ''{'' @ quot ''capabilities'' @ '':['' @ quot ''wifi.v2'' @ '','' @ quot ''c8y.v2'' @ ''],'' @
                 quot ''device_id'' @ '':'' @ quot (the (ri_device_id i)) @ '','' @
                 quot ''ephemeral_p256'' @ '':'' @ quot ephemeral_b64 @ '','' @
                 quot ''facts'' @ '':{'' @
                 quot ''agent_version'' @ '':'' @ quot (the (ri_agent_version i)) @ '','' @
                 quot ''hostname'' @ '':'' @ quot (the (ri_hostname i)) @
                 mac_field (the (ri_mac i)) @ '','' @
                 quot ''model'' @ '':'' @ quot (the (ri_model i)) @ '','' @
                 quot ''os'' @ '':'' @ quot ''zephyr'' @ ''},'' @
                 quot ''max_response_bytes'' @ '':'' @ dec_int (ri_max_response i) @ '','' @
                 quot ''nonce'' @ '':'' @ quot nonce_b64 @ '','' @
                 quot ''protocol_version'' @ '':'' @ quot ''1'' @ '','' @
                 quot ''public_key'' @ '':'' @ quot pubkey_b64 @ '','' @
                 quot ''response_format'' @ '':'' @ quot ''text'' @ '','' @
                 quot ''timestamp'' @ '':'' @ quot ts @ ''}''
           in if length out \<ge> out_size then Inl ENOSPC else Inr out)"

section \<open>The envelope\<close>

text \<open>
  What \<open>ztp_crypto.c\<close>, PSA and the base64 library return. \<open>p_base64\<close> is \<open>base64_encode\<close> into a
  buffer of the given room; the key and nonce buffers have the exact room the encoding needs.
\<close>

record psa =
  p_identity_public :: "errno + bytes"
  p_session_new :: "errno + bytes"
  p_random :: "bytes option"
  p_sign :: "bytes \<Rightarrow> errno + bytes"
  p_base64 :: "nat \<Rightarrow> bytes \<Rightarrow> string option"

definition B64_LEN :: "nat \<Rightarrow> nat" where
  "B64_LEN n = (n + 2) div 3 * 4 + 1"

definition CANON_MAX :: nat where "CANON_MAX = 768"
definition ZTP_P256_POINT_LEN :: nat where "ZTP_P256_POINT_LEN = 65"
definition ZTP_P256_SIG_LEN :: nat where "ZTP_P256_SIG_LEN = 64"

definition b64_buf :: "psa \<Rightarrow> nat \<Rightarrow> bytes \<Rightarrow> string" where
  "b64_buf p n d = the (p_base64 p (B64_LEN n) d)"

definition ztp_envelope_build :: "psa \<Rightarrow> request_info \<Rightarrow> nat \<Rightarrow> errno + string" where
  "ztp_envelope_build p i out_size =
     (case p_identity_public p of Inl e \<Rightarrow> Inl e | Inr pub \<Rightarrow>
      case p_session_new p of Inl e \<Rightarrow> Inl e | Inr eph_pub \<Rightarrow>
      case p_random p of None \<Rightarrow> Inl EIO | Some rnd \<Rightarrow>
      case ztp_request_canonical i (b64_buf p 16 rnd) (b64_buf p ZTP_P256_POINT_LEN pub)
             (b64_buf p ZTP_P256_POINT_LEN eph_pub) CANON_MAX of Inl e \<Rightarrow> Inl e | Inr canon \<Rightarrow>
      case p_sign p (ascii canon) of Inl e \<Rightarrow> Inl e | Inr sig \<Rightarrow>
      case p_base64 p (B64_LEN CANON_MAX) (ascii canon) of None \<Rightarrow> Inl ENOSPC | Some canon_b64 \<Rightarrow>
        let out =
              ''{'' @ quot ''protocol_version'' @ '':'' @ quot ''1'' @ '','' @
              quot ''key_id'' @ '':'' @ quot ''device'' @ '','' @
              quot ''alg'' @ '':'' @ quot ''ecdsa-p256-sha256'' @ '','' @
              quot ''payload'' @ '':'' @ quot canon_b64 @ '','' @
              quot ''signature'' @ '':'' @ quot (b64_buf p ZTP_P256_SIG_LEN sig) @ ''}''
        in if length out \<ge> out_size then Inl ENOSPC else Inr out)"

section \<open>Canonical JSON\<close>

text \<open>
  The reference: a JSON value, its rendering without white space, and the order RFC 8785 wants
  (members by key; for ASCII keys the order of the characters).
\<close>

datatype json = JStr string | JNum int | JArr "json list" | JObj "(string \<times> json) list"

fun commas :: "string list \<Rightarrow> string" where
  "commas [] = []"
| "commas [s] = s"
| "commas (s # ss) = s @ '','' @ commas ss"

fun render :: "json \<Rightarrow> string" where
  "render (JStr s) = quot s"
| "render (JNum i) = dec_int i"
| "render (JArr xs) = ''['' @ commas (map render xs) @ '']''"
| "render (JObj kvs) = ''{'' @ commas (map (\<lambda>(k, v). quot k @ '':'' @ render v) kvs) @ ''}''"

fun canonical_json :: "json \<Rightarrow> bool" where
  "canonical_json (JStr s) = json_plain s"
| "canonical_json (JNum i) = True"
| "canonical_json (JArr xs) = list_all canonical_json xs"
| "canonical_json (JObj kvs) = (sorted_wrt (<) (map fst kvs) \<and> list_all (\<lambda>(k, v). json_plain k \<and> canonical_json v) kvs)"

definition request_json :: "request_info \<Rightarrow> string \<Rightarrow> string \<Rightarrow> string \<Rightarrow> json" where
  "request_json i rnd pub eph_pub = JObj
     [(''capabilities'', JArr [JStr ''wifi.v2'', JStr ''c8y.v2'']),
      (''device_id'', JStr (the (ri_device_id i))),
      (''ephemeral_p256'', JStr eph_pub),
      (''facts'', JObj ([(''agent_version'', JStr (the (ri_agent_version i))),
          (''hostname'', JStr (the (ri_hostname i)))]
        @ (if the (ri_mac i) = [] then [] else [(''mac_addresses'', JArr [JStr (the (ri_mac i))])])
        @ [(''model'', JStr (the (ri_model i))), (''os'', JStr ''zephyr'')])),
      (''max_response_bytes'', JNum (ri_max_response i)),
      (''nonce'', JStr rnd),
      (''protocol_version'', JStr ''1''),
      (''public_key'', JStr pub),
      (''response_format'', JStr ''text''),
      (''timestamp'', JStr (ztp_format_rfc3339 (ri_unix_s i)))]"

text \<open>What the check at the head of the function lets through.\<close>

definition info_plain :: "request_info \<Rightarrow> bool" where
  "info_plain i \<longleftrightarrow> list_all (\<lambda>s. s \<noteq> None \<and> json_plain (the s))
     [ri_device_id i, ri_hostname i, ri_model i, ri_mac i, ri_agent_version i]"

lemma canonical_unfold:
  assumes "length (the (ri_mac i)) \<le> 26"
  shows "ztp_request_canonical i rnd pub eph_pub room =
    (if \<not> info_plain i then Inl EINVAL
     else if room \<le> length (render (request_json i rnd pub eph_pub)) then Inl ENOSPC
     else Inr (render (request_json i rnd pub eph_pub)))"
proof -
  have mac: "mac_field (the (ri_mac i)) = (if the (ri_mac i) = [] then []
      else '','' @ quot ''mac_addresses'' @ '':['' @ quot (the (ri_mac i)) @ '']'')"
    using assms by (simp add: mac_field_def quot_def)
  have plain: "list_ex (\<lambda>s. s = None \<or> \<not> json_plain (the s))
      [ri_device_id i, ri_hostname i, ri_model i, ri_mac i, ri_agent_version i] = (\<not> info_plain i)"
    by (auto simp: info_plain_def)
  show ?thesis
    unfolding ztp_request_canonical_def Let_def plain mac by (simp add: request_json_def not_le)
qed

lemma digit_plain: "is_digit c \<Longrightarrow> json_plain (c # s) = json_plain s"
  by (auto simp: json_plain_def is_digit_def)

lemma json_plain_append [simp]: "json_plain (a @ b) \<longleftrightarrow> json_plain a \<and> json_plain b"
  by (simp add: json_plain_def)

lemma zero_padded_plain: "json_plain (zero_padded w v)"
proof (induction w v rule: zero_padded.induct)
  case (2 w v)
  then show ?case using digit_plain [OF digit_char(1), of v "[]"] by (simp add: json_plain_def)
qed (simp add: json_plain_def)

lemma rfc3339_plain: "json_plain (ztp_format_rfc3339 t)"
  using zero_padded_plain
  by (auto simp: ztp_format_rfc3339_def json_plain_def Let_def split: prod.split)

text \<open>
  C24. The device signs canonical JSON. For every request whose strings need no escaping, the bytes
  printed are the rendering of one JSON value with its members in canonical order, nested object
  included; anything else is refused, and a request that does not fit is refused, not cut.
\<close>

theorem request_is_canonical_json:
  assumes "length (the (ri_mac i)) \<le> 26" "json_plain rnd" "json_plain pub" "json_plain eph_pub"
  shows "ztp_request_canonical i rnd pub eph_pub room =
      (if \<not> info_plain i then Inl EINVAL
       else if room \<le> length (render (request_json i rnd pub eph_pub)) then Inl ENOSPC
       else Inr (render (request_json i rnd pub eph_pub)))
    \<and> (info_plain i \<longrightarrow> canonical_json (request_json i rnd pub eph_pub))"
proof -
  have keys: "sorted_wrt (<) [''capabilities'', ''device_id'', ''ephemeral_p256'', ''facts'', ''max_response_bytes'',
      ''nonce'', ''protocol_version'', ''public_key'', ''response_format'', ''timestamp'']"
    "sorted_wrt (<) [''agent_version'', ''hostname'', ''mac_addresses'', ''model'', ''os'']"
    "sorted_wrt (<) [''agent_version'', ''hostname'', ''model'', ''os'']"
    by code_simp+
  have "json_plain (ztp_format_rfc3339 t)" for t by (rule rfc3339_plain)
  moreover have "info_plain i \<longrightarrow> canonical_json (request_json i rnd pub eph_pub)"
    using keys assms(2-4) calculation
    by (simp add: request_json_def info_plain_def json_plain_def)
  ultimately show ?thesis using canonical_unfold [OF assms(1)] by simp
qed

section \<open>The bytes determine the request\<close>

lemma split_at_sep:
  "c \<notin> set a \<Longrightarrow> c \<notin> set b \<Longrightarrow> a @ c # x = b @ c # y \<longleftrightarrow> a = b \<and> x = y"
proof (induction a arbitrary: b)
  case Nil
  then show ?case by (cases b) auto
next
  case (Cons d a)
  then show ?case by (cases b) auto
qed

lemma quot_eq [simp]: "quot a = quot b \<longleftrightarrow> a = b"
  by (simp add: quot_def)

lemma quot_split:
  assumes "json_plain a" "json_plain b"
  shows "quot a @ x = quot b @ y \<longleftrightarrow> a = b \<and> x = y"
  using split_at_sep [of "CHR 0x22" a b x y] assms
  by (auto simp: quot_def json_plain_def list_all_iff)

lemma dec_int_split: "dec_int i @ CHR '','' # x = dec_int j @ CHR '','' # y \<longleftrightarrow> i = j \<and> x = y"
proof -
  have no_sep: "c \<notin> set (dec n)" if "\<not> is_digit c" for c n
    using dec_digits [of n] that by (auto simp: list_all_iff)
  have "\<not> is_digit (CHR '','')" "\<not> is_digit (CHR ''-'')" by (simp_all add: is_digit_def)
  note sep = no_sep [OF this(1)] no_sep [OF this(2)]
  then have "CHR '','' \<notin> set (dec_int k)" for k by (simp add: dec_int_def)
  then have "dec_int i @ CHR '','' # x = dec_int j @ CHR '','' # y \<longleftrightarrow> dec_int i = dec_int j \<and> x = y"
    by (simp add: split_at_sep)
  moreover have "dec m = dec n \<longleftrightarrow> m = n" for m n using dec_value by (metis of_nat_eq_iff)
  moreover have "dec m \<noteq> CHR ''-'' # dec n" for m n using sep(2) [of m] by (metis list.set_intros(1))
  ultimately show ?thesis by (auto simp: dec_int_def) (metis eq_nat_nat_iff linorder_not_less order_less_imp_le)+
qed

text \<open>The fields of the rendering, one after the other.\<close>

lemma render_request_eq:
  assumes "info_plain i" "info_plain i'" "json_plain rnd" "json_plain rnd'" "json_plain pub" "json_plain pub'"
    "json_plain e" "json_plain e'"
    and "render (request_json i rnd pub e) = render (request_json i' rnd' pub' e')"
  shows "ri_device_id i = ri_device_id i' \<and> ri_hostname i = ri_hostname i' \<and> ri_model i = ri_model i'
    \<and> ri_mac i = ri_mac i' \<and> ri_agent_version i = ri_agent_version i'
    \<and> ztp_format_rfc3339 (ri_unix_s i) = ztp_format_rfc3339 (ri_unix_s i')
    \<and> ri_max_response i = ri_max_response i' \<and> rnd = rnd' \<and> pub = pub' \<and> e = e'"
proof -
  obtain d h m a v where i: "ri_device_id i = Some d" "ri_hostname i = Some h" "ri_model i = Some m"
      "ri_mac i = Some a" "ri_agent_version i = Some v"
    and pi: "json_plain d" "json_plain h" "json_plain m" "json_plain a" "json_plain v"
    using assms(1) by (auto simp: info_plain_def)
  obtain d' h' m' a' v' where i': "ri_device_id i' = Some d'" "ri_hostname i' = Some h'" "ri_model i' = Some m'"
      "ri_mac i' = Some a'" "ri_agent_version i' = Some v'"
    and pi': "json_plain d'" "json_plain h'" "json_plain m'" "json_plain a'" "json_plain v'"
    using assms(2) by (auto simp: info_plain_def)
  note plain = assms(3-8) pi pi' rfc3339_plain
  have "json_plain ''model''" "json_plain ''mac_addresses''" by (simp_all add: json_plain_def)
  then show ?thesis
    using assms(9) plain
    by (simp add: request_json_def i i' quot_split dec_int_split split: if_splits)
qed

lemma canonical_Inr:
  assumes "ztp_request_canonical i rnd pub e room = Inr s" "length (the (ri_mac i)) \<le> 26"
  shows "info_plain i" "s = render (request_json i rnd pub e)"
  using assms(1) unfolding canonical_unfold [OF assms(2)]
  by (simp_all only: sum.inject sum.distinct split: if_splits)

text \<open>
  C21. What is signed says everything. Two requests whose signed bytes are the same agree in every field
  and in the nonce and both keys: no value can be read as part of another field, so a signature
  over one request is never a signature over another.
\<close>

theorem signed_bytes_determine_request:
  assumes "ztp_request_canonical i rnd pub e room = Inr s" "ztp_request_canonical i' rnd' pub' e' room' = Inr s"
    and "length (the (ri_mac i)) \<le> 26" "length (the (ri_mac i')) \<le> 26"
    and "list_all json_plain [rnd, pub, e, rnd', pub', e']"
    and "fst (civil_from_days (ri_unix_s i div 86400)) \<in> {0..9999}"
      "fst (civil_from_days (ri_unix_s i' div 86400)) \<in> {0..9999}"
  shows "i = i' \<and> rnd = rnd' \<and> pub = pub' \<and> e = e'"
proof -
  note r = canonical_Inr [OF assms(1, 3)] canonical_Inr [OF assms(2, 4)]
  have eq: "ri_device_id i = ri_device_id i' \<and> ri_hostname i = ri_hostname i' \<and> ri_model i = ri_model i'
    \<and> ri_mac i = ri_mac i' \<and> ri_agent_version i = ri_agent_version i'
    \<and> ztp_format_rfc3339 (ri_unix_s i) = ztp_format_rfc3339 (ri_unix_s i')
    \<and> ri_max_response i = ri_max_response i' \<and> rnd = rnd' \<and> pub = pub' \<and> e = e'"
    using r(1, 3) r(2) [unfolded r(4)] assms(5) by (intro render_request_eq) (simp_all only: list.pred_inject)
  have "ri_unix_s i = ri_unix_s i'"
    using eq format_parse_rfc3339 [of "ri_unix_s i"] format_parse_rfc3339 [of "ri_unix_s i'"] assms(6, 7)
    by (metis atLeastAtMost_iff option.inject)
  then show ?thesis using eq by (cases i; cases i') simp
qed

definition sample_request :: request_info where
  "sample_request = \<lparr>ri_device_id = Some ''dev-1'', ri_hostname = Some ''dev-1'', ri_model = Some ''esp32c6'',
     ri_mac = Some ''aa:bb:cc:dd:ee:ff'', ri_agent_version = Some ''1.0'', ri_unix_s = 951827696,
     ri_max_response = 4096\<rparr>"

lemma sample_request_plain: "info_plain sample_request"
  by (simp add: info_plain_def sample_request_def json_plain_def)

lemma length_rfc3339: "length (ztp_format_rfc3339 t) = 20"
  by (simp add: ztp_format_rfc3339_def Let_def split: prod.split)

lemma sample_request_length:
  "length (render (request_json sample_request rnd pub e)) = length rnd + length pub + length e + 334"
  by (simp add: request_json_def sample_request_def quot_def length_rfc3339 dec_int_def dec.simps)

lemma sample_request_rendered:
  "ztp_request_canonical sample_request ''AAAA'' ''BBBB'' ''CCCC'' 768
   = Inr (render (request_json sample_request ''AAAA'' ''BBBB'' ''CCCC''))"
proof -
  have "length (render (request_json sample_request ''AAAA'' ''BBBB'' ''CCCC'')) < 768"
    by (simp add: sample_request_length)
  then show ?thesis using sample_request_plain by (simp add: canonical_unfold sample_request_def)
qed

theorem request_is_canonical_json_witness:
  "canonical_json (request_json sample_request ''AAAA'' ''BBBB'' ''CCCC'')
   \<and> ztp_request_canonical (sample_request\<lparr>ri_model := None\<rparr>) ''AAAA'' ''BBBB'' ''CCCC'' 768 = Inl EINVAL"
  using request_is_canonical_json [of sample_request "''AAAA''" "''BBBB''" "''CCCC''" 768]
    request_is_canonical_json [of "sample_request\<lparr>ri_model := None\<rparr>" "''AAAA''" "''BBBB''" "''CCCC''" 768]
    sample_request_plain
  by (simp add: sample_request_def json_plain_def info_plain_def)

theorem signed_bytes_determine_request_witness:
  "ztp_request_canonical (sample_request\<lparr>ri_device_id := Some ''dev-2''\<rparr>) ''AAAA'' ''BBBB'' ''CCCC'' 768
   \<noteq> ztp_request_canonical sample_request ''AAAA'' ''BBBB'' ''CCCC'' 768"
proof
  let ?i = "sample_request\<lparr>ri_device_id := Some ''dev-2''\<rparr>"
  assume same: "ztp_request_canonical ?i ''AAAA'' ''BBBB'' ''CCCC'' 768
    = ztp_request_canonical sample_request ''AAAA'' ''BBBB'' ''CCCC'' 768"
  obtain s where s: "ztp_request_canonical sample_request ''AAAA'' ''BBBB'' ''CCCC'' 768 = Inr s"
    "ztp_request_canonical ?i ''AAAA'' ''BBBB'' ''CCCC'' 768 = Inr s"
    using same sample_request_rendered by simp
  have "fst (civil_from_days (951827696 div 86400)) = 2000" by code_simp
  with signed_bytes_determine_request [OF s(2, 1)] show False
    by (simp add: sample_request_def json_plain_def)
qed

section \<open>The envelope carries what was signed\<close>

text \<open>Base64 as documented: four characters for three bytes, nothing written when they do not fit.\<close>

definition base64_ok :: "psa \<Rightarrow> bool" where
  "base64_ok p \<longleftrightarrow> (\<exists>enc. \<forall>room d. length (enc d) = (length d + 2) div 3 * 4
     \<and> json_plain (enc d) \<and> p_base64 p room d = (if length (enc d) < room then Some (enc d) else None))"

definition envelope_json :: "string \<Rightarrow> string \<Rightarrow> json" where
  "envelope_json pl sg = JObj
     [(''protocol_version'', JStr ''1''), (''key_id'', JStr ''device''), (''alg'', JStr ''ecdsa-p256-sha256''),
      (''payload'', JStr pl), (''signature'', JStr sg)]"

lemma envelope_text:
  "''{'' @ quot ''protocol_version'' @ '':'' @ quot ''1'' @ '','' @
   quot ''key_id'' @ '':'' @ quot ''device'' @ '','' @
   quot ''alg'' @ '':'' @ quot ''ecdsa-p256-sha256'' @ '','' @
   quot ''payload'' @ '':'' @ quot pl @ '','' @
   quot ''signature'' @ '':'' @ quot sg @ ''}'' = render (envelope_json pl sg)"
  by (simp add: envelope_json_def)

lemma envelope_length: "length (render (envelope_json pl sg)) = length pl + length sg + 96"
  by (simp add: envelope_json_def quot_def)

text \<open>
  The envelope carries exactly what was signed, and the 1280 bytes the caller gives it are always
  enough: once the keys, the nonce and the signature are there, the payload is the base64 of the
  canonical request, the signature is the one over those very bytes, and nothing is cut.
\<close>

theorem envelope_carries_signed_request:
  assumes "base64_ok p" "p_identity_public p = Inr pub" "p_session_new p = Inr e" "p_random p = Some rnd"
    "length pub = ZTP_P256_POINT_LEN" "length e = ZTP_P256_POINT_LEN" "length rnd = 16"
    and canon: "ztp_request_canonical i (b64_buf p 16 rnd) (b64_buf p ZTP_P256_POINT_LEN pub)
        (b64_buf p ZTP_P256_POINT_LEN e) CANON_MAX = Inr canon"
    and sign: "p_sign p (ascii canon) = Inr sig" "length sig = ZTP_P256_SIG_LEN"
  shows "\<exists>pl sg. ztp_envelope_build p i 1280 = Inr (render (envelope_json pl sg))
    \<and> p_base64 p (B64_LEN CANON_MAX) (ascii canon) = Some pl
    \<and> p_base64 p (B64_LEN ZTP_P256_SIG_LEN) sig = Some sg"
proof -
  obtain enc where "\<forall>room d. length (enc d) = (length d + 2) div 3 * 4 \<and> json_plain (enc d)
      \<and> p_base64 p room d = (if length (enc d) < room then Some (enc d) else None)"
    using assms(1) unfolding base64_ok_def by blast
  then have enc: "length (enc d) = (length d + 2) div 3 * 4"
    "p_base64 p room d = (if length (enc d) < room then Some (enc d) else None)" for room d by blast+
  have n: "length canon < 768"
    using canon by (auto simp: ztp_request_canonical_def Let_def CANON_MAX_def split: if_splits)
  then have "(length canon + 2) div 3 \<le> 256" by simp
  then have pay: "length (enc (ascii canon)) \<le> 1024" using enc(1) [of "ascii canon"] by simp
  then have p1: "p_base64 p (B64_LEN CANON_MAX) (ascii canon) = Some (enc (ascii canon))"
    using enc(2) by (simp add: B64_LEN_def CANON_MAX_def)
  have sg: "length (enc sig) = 88" using enc(1) [of sig] sign(2) by (simp add: ZTP_P256_SIG_LEN_def)
  then have p2: "p_base64 p (B64_LEN ZTP_P256_SIG_LEN) sig = Some (enc sig)"
    using enc(2) by (simp add: B64_LEN_def ZTP_P256_SIG_LEN_def)
  have "length (render (envelope_json (enc (ascii canon)) (enc sig))) < 1280"
    using pay sg by (simp add: envelope_length)
  then have "ztp_envelope_build p i 1280 = Inr (render (envelope_json (enc (ascii canon)) (enc sig)))"
    unfolding ztp_envelope_build_def assms(2-4) sum.case option.case canon sign(1) p1 envelope_text
    by (simp add: Let_def b64_buf_def p2)
  then show ?thesis using p1 p2 by blast
qed

text \<open>Standard base64, to show that the assumption on the library can hold.\<close>

definition b64_digit :: "nat \<Rightarrow> char" where
  "b64_digit k = ''ABCDEFGHIJKLMNOPQRSTUVWXYZabcdefghijklmnopqrstuvwxyz0123456789+/'' ! (k mod 64)"

fun b64_std :: "bytes \<Rightarrow> string" where
  "b64_std [] = []"
| "b64_std [a] = [b64_digit (unat a div 4), b64_digit (unat a * 16), CHR ''='', CHR ''='']"
| "b64_std [a, b] = [b64_digit (unat a div 4), b64_digit (unat a * 16 + unat b div 16), b64_digit (unat b * 4),
     CHR ''='']"
| "b64_std (a # b # c # r) = [b64_digit (unat a div 4), b64_digit (unat a * 16 + unat b div 16),
     b64_digit (unat b * 4 + unat c div 64), b64_digit (unat c)] @ b64_std r"

lemma b64_digit_plain: "json_plain [b64_digit k]"
proof -
  have "\<forall>j \<in> set [0..<64]. json_plain [b64_digit j]" by code_simp
  moreover have "k mod 64 \<in> set [0..<64]" by simp
  moreover have "b64_digit k = b64_digit (k mod 64)" by (simp add: b64_digit_def)
  ultimately show ?thesis by metis
qed

lemma b64_std_ok: "length (b64_std d) = (length d + 2) div 3 * 4 \<and> json_plain (b64_std d)"
proof (induction d rule: b64_std.induct)
  case (4 a b c r)
  moreover have "(length (a # b # c # r) + 2) div 3 = Suc ((length r + 2) div 3)" by simp
  ultimately show ?case using b64_digit_plain by (simp add: json_plain_def)
qed (use b64_digit_plain in \<open>simp_all add: json_plain_def\<close>)

definition sample_psa :: psa where
  "sample_psa = \<lparr>p_identity_public = Inr (replicate 65 4), p_session_new = Inr (replicate 65 5),
     p_random = Some (replicate 16 6), p_sign = (\<lambda>m. Inr (replicate 64 7)),
     p_base64 = (\<lambda>room d. if length (b64_std d) < room then Some (b64_std d) else None)\<rparr>"

lemma sample_psa_ok: "base64_ok sample_psa"
  unfolding base64_ok_def by (rule exI [of _ b64_std]) (simp add: sample_psa_def b64_std_ok)

theorem envelope_carries_signed_request_witness:
  "\<exists>pl. ztp_envelope_build sample_psa sample_request 1280
     = Inr (render (envelope_json pl (b64_std (replicate 64 7))))"
proof -
  let ?k = "\<lambda>n b. b64_buf sample_psa n (replicate n b)"
  let ?c = "render (request_json sample_request (?k 16 6) (?k 65 4) (?k 65 5))"
  have "length ?c < 768" by (simp add: sample_request_length b64_buf_def sample_psa_def b64_std_ok B64_LEN_def)
  then have c: "ztp_request_canonical sample_request (?k 16 6) (?k ZTP_P256_POINT_LEN 4) (?k ZTP_P256_POINT_LEN 5)
      CANON_MAX = Inr ?c"
    using sample_request_plain
    by (simp add: canonical_unfold sample_request_def CANON_MAX_def ZTP_P256_POINT_LEN_def)
  have b: "b64_std (replicate 64 7) = sg"
    if "p_base64 sample_psa (B64_LEN ZTP_P256_SIG_LEN) (replicate 64 7) = Some sg" for sg
    using that by (simp add: sample_psa_def split: if_splits)
  have "\<exists>pl sg. ztp_envelope_build sample_psa sample_request 1280 = Inr (render (envelope_json pl sg))
    \<and> p_base64 sample_psa (B64_LEN CANON_MAX) (ascii ?c) = Some pl
    \<and> p_base64 sample_psa (B64_LEN ZTP_P256_SIG_LEN) (replicate 64 7) = Some sg"
    using c by (intro envelope_carries_signed_request [OF sample_psa_ok,
        where pub = "replicate 65 4" and e = "replicate 65 5" and rnd = "replicate 16 6"])
      (simp_all add: sample_psa_def ZTP_P256_POINT_LEN_def ZTP_P256_SIG_LEN_def)
  then show ?thesis using b by blast
qed

end
