(* ===== verification/Enrollment.thy ===== *)
theory Enrollment
  imports Ztp_Run Ztp_Envelope
begin

text \<open>
  Enrollment from the kick to the relay: the identity the provisioner enrolls with and the job
  \<open>handle_kick\<close> of \<^verbatim>\<open>src/apps/wifi-provisioner/src/ztp.c\<close> runs, put together with the envelope of
  \<^verbatim>\<open>ztp_envelope.c\<close> and the framing on the air.
\<close>

section \<open>Identity\<close>

definition hex_digit :: "nat \<Rightarrow> char" where
  "hex_digit k = ''0123456789abcdef'' ! k"

text \<open>\<open>%02x\<close>, and six of them with colons.\<close>

definition hex2 :: "byte \<Rightarrow> string" where
  "hex2 b = [hex_digit (unat b div 16), hex_digit (unat b mod 16)]"

definition mac_text :: "bytes \<Rightarrow> string" where
  "mac_text a = hex2 (a ! 0) @ '':'' @ hex2 (a ! 1) @ '':'' @ hex2 (a ! 2) @ '':'' @ hex2 (a ! 3) @ '':''
     @ hex2 (a ! 4) @ '':'' @ hex2 (a ! 5)"

text \<open>
  \<open>load_identity\<close>: the host name of the application that ran last, or the provisioner's own, and
  the link address of the interface. \<open>mac_str\<close> is a static and starts empty.
\<close>

definition load_identity :: "errno + prov_identity \<Rightarrow> string \<Rightarrow> bytes option \<Rightarrow> string \<times> string" where
  "load_identity ident net_hostname ll =
     (take 32 (case ident of Inr i \<Rightarrow> id_hostname i | Inl _ \<Rightarrow> net_hostname),
      case ll of Some a \<Rightarrow> if length a = 6 then mac_text a else [] | None \<Rightarrow> [])"

record build_cfg =
  board :: string
  app_version :: string

definition kick_info :: "build_cfg \<Rightarrow> nat \<Rightarrow> string \<times> string \<Rightarrow> int \<Rightarrow> request_info" where
  "kick_info b rxb idm now_s =
     \<lparr>ri_device_id = Some (fst idm), ri_hostname = Some (fst idm), ri_model = Some (board b),
      ri_mac = Some (snd idm), ri_agent_version = Some (''zephyr-wifi-provisioner/'' @ app_version b),
      ri_unix_s = now_s, ri_max_response = int rxb\<rparr>"

abbreviation (input) ENVELOPE_MAX :: nat where "ENVELOPE_MAX \<equiv> 1280"

definition kick_job :: "psa \<Rightarrow> request_info \<Rightarrow> errno + bytes" where
  "kick_job p i = map_sum id ascii (ztp_envelope_build p i ENVELOPE_MAX)"

text \<open>The provisioner whose worker builds the envelope from that identity.\<close>

definition enrolling :: "psa \<Rightarrow> build_cfg \<Rightarrow> nat \<Rightarrow> string \<times> string \<Rightarrow> run_io \<Rightarrow> run_io" where
  "enrolling p b rxb idm io = io\<lparr>io_envelope := \<lambda>stamp. kick_job p (kick_info b rxb idm stamp)\<rparr>"

section \<open>The request always fits\<close>

lemma hex_digit_plain: "k < 16 \<Longrightarrow> json_plain [hex_digit k]"
proof -
  assume "k < 16"
  moreover have "\<forall>k < 16. json_plain [hex_digit k]" by (simp add: json_plain_def hex_digit_def) code_simp
  ultimately show ?thesis by blast
qed

lemma hex2_plain: "json_plain (hex2 b)"
proof -
  have "unat b div 16 < 16" using unat_byte_less [of b] by simp
  then show ?thesis
    using hex_digit_plain [of "unat b div 16"] hex_digit_plain [of "unat b mod 16"]
    by (simp add: hex2_def json_plain_def)
qed

lemma mac_text_plain: "json_plain (mac_text a)" "length (mac_text a) = 17"
  using hex2_plain by (simp_all add: mac_text_def) (simp_all add: json_plain_def hex2_def)

lemma load_identity_mac: "json_plain (snd (load_identity i h ll))" "length (snd (load_identity i h ll)) \<le> 17"
  by (auto simp: load_identity_def mac_text_plain split: option.split) (simp_all add: json_plain_def)

lemma load_identity_name: "length (fst (load_identity i h ll)) \<le> 32"
  by (simp add: load_identity_def)

lemma request_length:
  "length (render (request_json i rnd pub e)) \<le> length rnd + length pub + length e + 332
     + length (the (ri_device_id i)) + length (the (ri_hostname i)) + length (the (ri_model i))
     + length (the (ri_mac i)) + length (the (ri_agent_version i)) + length (dec_int (ri_max_response i))"
  by (simp add: request_json_def quot_def length_rfc3339)

text \<open>What the library functions return when they work: keys, nonce and signature of their fixed sizes.\<close>

definition psa_works :: "psa \<Rightarrow> bytes \<Rightarrow> bytes \<Rightarrow> bytes \<Rightarrow> bool" where
  "psa_works p pub e rnd \<longleftrightarrow> base64_ok p \<and> p_identity_public p = Inr pub \<and> p_session_new p = Inr e
     \<and> p_random p = Some rnd \<and> length pub = Ztp_Envelope.ZTP_P256_POINT_LEN \<and> length e = Ztp_Envelope.ZTP_P256_POINT_LEN \<and> length rnd = 16
     \<and> (\<forall>d. \<exists>sig. p_sign p d = Inr sig \<and> length sig = ZTP_P256_SIG_LEN)"

lemma b64_buf_length: "base64_ok p \<Longrightarrow> length d = n \<Longrightarrow> length (b64_buf p n d) = (n + 2) div 3 * 4"
  by (fastforce simp: base64_ok_def b64_buf_def B64_LEN_def)

text \<open>A build whose board and version are plain text, short enough for the request.\<close>

definition build_ok :: "build_cfg \<Rightarrow> bool" where
  "build_ok b \<longleftrightarrow> json_plain (board b) \<and> json_plain (app_version b) \<and> length (board b) + length (app_version b) \<le> 120"

lemma kick_request_fits:
  fixes now_s :: int
  assumes "psa_works p pub e rnd" "build_ok b" "json_plain (fst (load_identity i h ll))" "rxb < 10 ^ 9"
  defines "info \<equiv> kick_info b rxb (load_identity i h ll) now_s"
  shows "ztp_request_canonical info (b64_buf p 16 rnd) (b64_buf p Ztp_Envelope.ZTP_P256_POINT_LEN pub)
      (b64_buf p Ztp_Envelope.ZTP_P256_POINT_LEN e) CANON_MAX
    = Inr (render (request_json info (b64_buf p 16 rnd) (b64_buf p Ztp_Envelope.ZTP_P256_POINT_LEN pub) (b64_buf p Ztp_Envelope.ZTP_P256_POINT_LEN e)))"
proof -
  let ?r = "render (request_json info (b64_buf p 16 rnd) (b64_buf p Ztp_Envelope.ZTP_P256_POINT_LEN pub) (b64_buf p Ztp_Envelope.ZTP_P256_POINT_LEN e))"
  have l: "length (b64_buf p 16 rnd) = 24" "length (b64_buf p Ztp_Envelope.ZTP_P256_POINT_LEN pub) = 88"
    "length (b64_buf p Ztp_Envelope.ZTP_P256_POINT_LEN e) = 88"
    using assms(1) b64_buf_length [of p rnd 16] b64_buf_length [of p pub 65] b64_buf_length [of p e 65]
    by (simp_all add: psa_works_def Ztp_Envelope.ZTP_P256_POINT_LEN_def)
  have "length (dec_int (int rxb)) \<le> 9" using length_dec [of 9 rxb] assms(4) by (simp add: dec_int_def)
  then have "length ?r < CANON_MAX"
    using request_length [of info "b64_buf p 16 rnd" "b64_buf p Ztp_Envelope.ZTP_P256_POINT_LEN pub" "b64_buf p Ztp_Envelope.ZTP_P256_POINT_LEN e"]
      assms(2) load_identity_mac(2) [of i h ll] load_identity_name [of i h ll] l
    by (simp add: info_def kick_info_def build_ok_def CANON_MAX_def)
  moreover have "info_plain info"
    using assms(2, 3) load_identity_mac(1) [of i h ll]
    by (simp add: info_def kick_info_def info_plain_def build_ok_def) (simp add: json_plain_def)
  moreover have "length (the (ri_mac info)) \<le> 26"
    using load_identity_mac(2) [of i h ll] by (simp add: info_def kick_info_def)
  ultimately show ?thesis by (simp add: canonical_unfold)
qed

lemma envelope_build_bound: "ztp_envelope_build p i m = Inr out \<Longrightarrow> length out < m \<and> out \<noteq> []"
  by (auto simp: ztp_envelope_build_def Let_def split: sum.splits option.splits if_splits)

section \<open>From the kick to the relay\<close>



end
