(* ===== verification/Onboarding.thy ===== *)
theory Onboarding
  imports Enrollment
begin

text \<open>
  Onboarding across the images: the start-up of connectivity in an application
  (\<open>app_net_init\<close> of \<^verbatim>\<open>src/lib/common/net.c\<close> and \<open>app_prov_identity_update\<close> of
  \<^verbatim>\<open>src/lib/common/prov_handoff.c\<close>), and the way of a device without credentials through the
  bootloader and the provisioner back into the application.
\<close>

section \<open>Start-up of connectivity\<close>

record app_cfg =
  ac_net :: net_cfg
  ac_handoff :: bool
  ac_button :: bool
  ac_hostname :: string
  ac_service :: string
  ac_port :: u16

text \<open>What an application keeps in flash: identity record, boot request, the provisioner's image.\<close>

record flash_state =
  fs_ident :: ident_slot
  fs_req :: bytes
  fs_prov :: bytes

record start_io =
  st_settings :: rc
  st_save :: rc
  st_flash :: flash_io
  st_iface :: bool
  st_connect :: "app_wifi_creds \<Rightarrow> rc"

definition app_prov_identity_update :: "app_cfg \<Rightarrow> start_io \<Rightarrow> flash_state \<Rightarrow> flash_state" where
  "app_prov_identity_update cfg io f =
     (let i = \<lparr>id_hostname = take 32 (ac_hostname cfg), id_service = take 23 (ac_service cfg), id_port = ac_port cfg\<rparr>;
          (_, slot, _) = prov_identity_store (st_settings io) (st_save io) i (fs_ident f)
      in f\<lparr>fs_ident := slot\<rparr>)"

datatype start_call = StatusTick nat | HandOff prov_action | ButtonStart | ConnectTo app_wifi_creds

datatype start_result = Rebooting | Returned rc

text \<open>
  \<open>app_net_init\<close>. The hand-off reboots when it could write the request, and does not return then.
\<close>

definition app_net_init ::
  "app_cfg \<Rightarrow> start_io \<Rightarrow> wifi_store \<Rightarrow> flash_state \<Rightarrow> start_result \<times> start_call list \<times> flash_state" where
  "app_net_init cfg io ws f =
     (if prov_mode (ac_net cfg) then (Returned OK, [StatusTick 3], f)
      else
        let creds = app_wifi_creds_resolve (ac_net cfg) ws;
            (acts, f) = (case creds of
                Inr _ \<Rightarrow> ([], f)
              | Inl _ \<Rightarrow>
                  if ac_handoff cfg then
                    let f = app_prov_identity_update cfg io f;
                        (acts, req) = app_prov_handoff_no_credentials (st_flash io) (fs_prov f) (fs_req f)
                    in (acts, f\<lparr>fs_req := req\<rparr>)
                  else ([], f));
            calls = StatusTick 3 # map HandOff acts
        in if Reboot \<in> set acts then (Rebooting, calls, f)
           else
             let calls = calls @ (if ac_button cfg then [ButtonStart] else [])
             in case creds of
                  Inl _ \<Rightarrow> (Returned (Err EINVAL), calls, f)
                | Inr c \<Rightarrow> (Returned (wifi_connect (st_iface io) (st_connect io) c), calls @ [ConnectTo c], f))"

text \<open>
  \<open>app_net_init\<close> in the other two builds: with the host's sockets the device is connected at once;
  on a wire nothing is started and the events tell. There \<open>l4_event_handler\<close> only marks the state.
\<close>

definition app_net_init_offloaded :: "net_cfg \<Rightarrow> u32 \<Rightarrow> net_state \<Rightarrow> rc \<times> net_state" where
  "app_net_init_offloaded cfg ip s = (OK, mark_connected cfg ip True s)"

definition app_net_init_wired :: "net_state \<Rightarrow> rc \<times> net_state" where
  "app_net_init_wired s = (OK, s)"

definition l4_event_handler_wired :: "net_cfg \<Rightarrow> u32 \<Rightarrow> l4_event \<Rightarrow> net_state \<Rightarrow> net_state" where
  "l4_event_handler_wired cfg ip e s =
     (if e = L4_CONNECTED then mark_connected cfg ip True s else mark_connected cfg ip False s)"

lemma connected_mark: "connected (mark_connected cfg ip up s) = up"
  by (simp add: mark_connected_def try_done_def Let_def)

lemma wired_follows_link:
  "es \<noteq> [] \<Longrightarrow> connected (fold (\<lambda>(ip, e). l4_event_handler_wired cfg ip e) es s) \<longleftrightarrow> snd (List.last es) = L4_CONNECTED"
  by (induction es rule: rev_induct) (auto simp: l4_event_handler_wired_def connected_mark split: if_splits)

text \<open>
  \<open>main\<close> of the provisioner image: the network without its application part, then, whatever that
  returned, the front end the image was built with; this never returns.
\<close>

datatype prov_call = SelfTest | NetInit | RunSoftap | RunZtp | RunImprov

definition provisioner_main :: "bool \<Rightarrow> bool \<Rightarrow> bool \<Rightarrow> prov_call list" where
  "provisioner_main selftest softap_built ztp_built =
     (if selftest then [SelfTest] else []) @ [NetInit]
     @ [if softap_built then RunSoftap else if ztp_built then RunZtp else RunImprov]"

text \<open>The credential store holding a list of credentials, as the appliers leave it.\<close>

definition store_of :: "app_wifi_creds list \<Rightarrow> wifi_store" where
  "store_of cs =
     \<lparr>ws_ssids = map ssid cs, ws_password = (\<lambda>n. map_option psk (find (\<lambda>c. ssid c = n) cs))\<rparr>"

definition creds_ok :: "app_wifi_creds \<Rightarrow> bool" where
  "creds_ok c \<longleftrightarrow> ssid c \<noteq> [] \<and> length (ssid c) \<le> 32 \<and> length (psk c) \<le> 64"

lemma resolve_stored:
  assumes "cred_store cfg" "creds_ok c"
  shows "app_wifi_creds_resolve cfg (store_of [c]) = Inr c"
  using creds_resolved [of cfg "store_of [c]"] assms by (simp add: creds_ok_def store_of_def)

section \<open>From the factory to the network\<close>

text \<open>A device whose flash works, with a provisioner image and a partition for the request.\<close>

definition onboardable :: "app_cfg \<Rightarrow> start_io \<Rightarrow> flash_state \<Rightarrow> bool" where
  "onboardable cfg io f \<longleftrightarrow> \<not> prov_mode (ac_net cfg) \<and> cred_store (ac_net cfg) \<and> ac_handoff cfg \<and> ac_hostname cfg \<noteq> []
     \<and> st_settings io = OK \<and> st_save io = OK \<and> st_flash io = all_ok
     \<and> boot_request_provisioner_present all_ok (fs_prov f) \<and> part_ok (fs_req f)"

definition bootable :: "boot_io \<Rightarrow> bool" where
  "bootable bo \<longleftrightarrow> bo_req bo = all_ok \<and> bo_prov_open bo \<and> bo_header_ok bo \<and> bo_layout_ok bo \<and> bo_valid bo"

text \<open>The record the hand-off leaves in the request partition.\<close>

definition no_creds_record :: "bytes \<Rightarrow> bytes" where
  "no_creds_record part =
     boot_request_bytes \<lparr>br_magic = BOOT_REQUEST_MAGIC, br_target = BOOT_REQUEST_PROVISIONER,
       br_reason = reason_value BOOT_REQUEST_NO_CREDENTIALS, br_reserved = 0\<rparr> @ replicate (length part - 16) 0xFF"

lemma no_creds_record_facts:
  assumes "part_ok part"
  shows "length (no_creds_record part) = length part" "provisioner_requested all_ok (no_creds_record part)"
    "map_sum id br_reason (boot_request_read all_ok (no_creds_record part)) = Inr (reason_value BOOT_REQUEST_NO_CREDENTIALS)"
  using assms
  by (simp_all add: no_creds_record_def part_ok_def requested_iff all_ok_def boot_request_read_def flash_area_read_def)

lemma handoff_start:
  assumes "onboardable cfg io f" "app_wifi_creds_resolve (ac_net cfg) ws = Inl e"
  shows "\<exists>slot. app_net_init cfg io ws f = (Rebooting, [StatusTick 3, HandOff Reboot],
      f\<lparr>fs_ident := slot, fs_req := no_creds_record (fs_req f)\<rparr>)
    \<and> map_sum id id_hostname (prov_identity_load OK slot) = Inr (take 32 (ac_hostname cfg))"
proof -
  let ?i = "\<lparr>id_hostname = take 32 (ac_hostname cfg), id_service = take 23 (ac_service cfg), id_port = ac_port cfg\<rparr>"
  obtain slot w where s: "prov_identity_store OK OK ?i (fs_ident f) = (OK, slot, w)"
    "map_sum id id_hostname (prov_identity_load OK slot) = Inr (take 32 (ac_hostname cfg))"
    using identity_store_load [of ?i "fs_ident f"] assms(1)
    by (cases "prov_identity_store OK OK ?i (fs_ident f)")
      (auto simp: onboardable_def prov_identity_store_def split: if_splits)
  have "boot_request_set all_ok BOOT_REQUEST_PROVISIONER BOOT_REQUEST_NO_CREDENTIALS (fs_req f)
    = (OK, no_creds_record (fs_req f))"
    using set_ok_part [of all_ok] by (simp add: all_ok_def no_creds_record_def)
  then show ?thesis
    using assms s
    by (intro exI [of _ slot])
      (simp add: app_net_init_def app_prov_identity_update_def onboardable_def app_prov_handoff_no_credentials_def
        request_provisioner_def Let_def)
qed

text \<open>
  C13. A factory-fresh device finds its way: without credentials the application reboots, the bootloader
  starts the provisioner, which enrolls under the application's own name and does not give up its
  window; and once the provisioner has stored the credentials of one network and reboots, the
  bootloader starts the application, which connects with exactly those credentials.
\<close>

theorem onboarding_cycle:
  fixes cfg :: app_cfg and io :: start_io and f :: flash_state and ws :: wifi_store
  assumes "onboardable cfg io f" "bootable bo" "app_wifi_creds_resolve (ac_net cfg) ws = Inl e"
    and "io_flash zio = all_ok" "creds_ok c" "a_creds (app_state z) = [c]"
    and "req_part z = fs_req (snd (snd (app_net_init cfg io ws f)))"
  defines "g \<equiv> snd (snd (app_net_init cfg io ws f))"
  defines "part \<equiv> req_part (snd (reboot_now zio z))"
  shows "fst (app_net_init cfg io ws f) = Rebooting
    \<and> boot_go_hook bo (fs_req g) False = (BootProvisioner, True)
    \<and> fst (load_identity (prov_identity_load OK (fs_ident g)) own ll) = take 32 (ac_hostname cfg)
    \<and> (case ztp_start zcfg zio OK (fs_req g) a of Some s \<Rightarrow> \<not> return_on_expiry s | None \<Rightarrow> False)
    \<and> boot_go_hook bo part False = (BootHookRegular, False)
    \<and> app_net_init cfg io (store_of (a_creds (app_state z))) (g\<lparr>fs_req := part\<rparr>)
      = (Returned (wifi_connect (st_iface io) (st_connect io) c),
         [StatusTick 3] @ (if ac_button cfg then [ButtonStart] else []) @ [ConnectTo c], g\<lparr>fs_req := part\<rparr>)"
proof -
  obtain slot where s: "app_net_init cfg io ws f = (Rebooting, [StatusTick 3, HandOff Reboot],
      f\<lparr>fs_ident := slot, fs_req := no_creds_record (fs_req f)\<rparr>)"
    "map_sum id id_hostname (prov_identity_load OK slot) = Inr (take 32 (ac_hostname cfg))"
    using handoff_start [OF assms(1, 3)] by blast
  have p: "part_ok (fs_req f)" using assms(1) by (simp add: onboardable_def)
  have g: "fs_req g = no_creds_record (fs_req f)" "fs_ident g = slot" by (simp_all add: g_def s)
  obtain i where i: "prov_identity_load OK slot = Inr i" "id_hostname i = take 32 (ac_hostname cfg)"
    using s(2) by (cases "prov_identity_load OK slot") auto
  obtain r where r: "boot_request_read all_ok (fs_req g) = Inr r" "br_reason r = reason_value BOOT_REQUEST_NO_CREDENTIALS"
    using no_creds_record_facts(3) [OF p] by (cases "boot_request_read all_ok (fs_req g)") (auto simp: g)
  have part: "part = replicate (length (fs_req f)) 0xFF"
    using assms(4, 7) no_creds_record_facts(1) [OF p]
    by (simp add: part_def reboot_now_def boot_request_clear_def all_ok_def flash_area_flatten_def s)
  have "boot_go_hook bo part False = (BootHookRegular, False)"
    using erased_not_requested(1) [OF p] by (simp add: boot_go_hook_def part)
  moreover have "boot_go_hook bo (fs_req g) False = (BootProvisioner, True)"
    using no_creds_record_facts(2) [OF p] assms(2) by (simp add: boot_go_hook_def bootable_def g)
  moreover have "case ztp_start zcfg zio OK (fs_req g) a of Some s \<Rightarrow> \<not> return_on_expiry s | None \<Rightarrow> False"
    using r assms(4) by (simp add: ztp_start_def adv_start_def Let_def)
  moreover have "fst (load_identity (prov_identity_load OK (fs_ident g)) own ll) = take 32 (ac_hostname cfg)"
    using i by (simp add: load_identity_def g)
  moreover have "app_net_init cfg io (store_of (a_creds (app_state z))) (g\<lparr>fs_req := part\<rparr>)
      = (Returned (wifi_connect (st_iface io) (st_connect io) c),
         [StatusTick 3] @ (if ac_button cfg then [ButtonStart] else []) @ [ConnectTo c], g\<lparr>fs_req := part\<rparr>)"
    using assms(1, 5, 6) resolve_stored [of "ac_net cfg" c] by (simp add: app_net_init_def onboardable_def)
  ultimately show ?thesis using s(1) by simp
qed

definition sample_app :: app_cfg where
  "sample_app = \<lparr>ac_net = \<lparr>prov_mode = False, cred_store = True, cfg_ssid = [], cfg_psk = [], reboot_timeout_s = None,
       ping_gate = True\<rparr>, ac_handoff = True, ac_button = True, ac_hostname = ''zephyr-0001'', ac_service = ''_modbus'',
     ac_port = 502\<rparr>"

definition sample_start :: start_io where
  "sample_start = \<lparr>st_settings = OK, st_save = OK, st_flash = all_ok, st_iface = True, st_connect = (\<lambda>_. OK)\<rparr>"

definition factory_flash :: flash_state where
  "factory_flash = \<lparr>fs_ident = NoIdent, fs_req = replicate 16 0xFF, fs_prov = le32 IMAGE_MAGIC\<rparr>"

theorem onboarding_cycle_witness:
  "fst (app_net_init sample_app sample_start (store_of []) factory_flash) = Rebooting
   \<and> fst (app_net_init sample_app sample_start (store_of [\<lparr>ssid = ''plant'', psk = ''secret''\<rparr>])
       (snd (snd (app_net_init sample_app sample_start (store_of []) factory_flash)))) = Returned OK"
proof -
  let ?c = "\<lparr>ssid = ''plant'', psk = ''secret''\<rparr>"
  let ?g = "snd (snd (app_net_init sample_app sample_start (store_of []) factory_flash))"
  let ?z = "sample_dev\<lparr>app_state := (app_state sample_dev)\<lparr>a_creds := [?c]\<rparr>, req_part := fs_req ?g\<rparr>"
  let ?bo = "\<lparr>bo_req = all_ok, bo_prov_open = True, bo_header_ok = True, bo_layout_ok = True, bo_valid = True\<rparr>"
  have ok: "onboardable sample_app sample_start factory_flash"
    by (simp add: onboardable_def sample_app_def sample_start_def factory_flash_def boot_request_provisioner_present_def
        flash_area_read_def all_ok_def part_ok_def)
  have none: "app_wifi_creds_resolve (ac_net sample_app) (store_of []) = Inl ENOENT"
    by (simp add: app_wifi_creds_resolve_def stored_creds_def store_of_def no_creds_def sample_app_def)
  have "fst (app_net_init sample_app sample_start (store_of []) factory_flash) = Rebooting"
    using onboarding_cycle [OF ok _ none, of ?bo "sample_run_io 0" ?c ?z]
    by (simp add: bootable_def sample_run_io_def creds_ok_def)
  moreover have "app_wifi_creds_resolve (ac_net sample_app) (store_of [?c]) = Inr ?c"
    by (rule resolve_stored) (simp_all add: sample_app_def creds_ok_def)
  ultimately show ?thesis
    by (simp add: app_net_init_def sample_app_def sample_start_def wifi_connect_def)
qed

end
