(* ===== verification/Display.thy ===== *)
theory Display
  imports Net Liveness
begin

text \<open>
  The status screen: drawing text on the 135x240 panel, \<^verbatim>\<open>src/lib/common/display.c\<close>, and the
  diagnostic lines and the periodic status tick of \<^verbatim>\<open>src/lib/common/net.c\<close>. The font table and
  the panel are parameters; what reaches the panel is the value of the drawing functions. A CPU of
  the supported boards is little-endian.
\<close>

section \<open>The panel\<close>

definition DISP_W :: nat where "DISP_W = 135"
definition DISP_H :: nat where "DISP_H = 240"

datatype display_stage =
    DISPLAY_STAGE_BOOT | DISPLAY_STAGE_WIFI_CONNECTING | DISPLAY_STAGE_CONNECTED
  | DISPLAY_STAGE_SERVING | DISPLAY_STAGE_ERROR

definition stage_color :: "display_stage \<Rightarrow> u16" where
  "stage_color st = (case st of
     DISPLAY_STAGE_BOOT \<Rightarrow> 0xF800 | DISPLAY_STAGE_WIFI_CONNECTING \<Rightarrow> 0x001F
   | DISPLAY_STAGE_CONNECTED \<Rightarrow> 0x07E0 | DISPLAY_STAGE_SERVING \<Rightarrow> 0x0410 | DISPLAY_STAGE_ERROR \<Rightarrow> 0xFC00)"

definition C_WHITE :: u16 where "C_WHITE = 0xFFFF"

definition sys_cpu_to_be16 :: "u16 \<Rightarrow> u16" where
  "sys_cpu_to_be16 v = push_bit 8 v OR drop_bit 8 v"

text \<open>A write to the panel: its row, its height, and the pixels, \<open>DISP_W\<close> to a row.\<close>

record panel_write =
  pw_y :: nat
  pw_h :: nat
  pw_px :: "u16 list"

text \<open>\<open>fill\<close>: strips of eight rows, the last one cut at the panel's edge.\<close>

function fill_from :: "u16 \<Rightarrow> nat \<Rightarrow> panel_write list" where
  "fill_from be y =
     (if y < DISP_H then
        (let h = (if y + 8 \<le> DISP_H then 8 else DISP_H - y)
         in \<lparr>pw_y = y, pw_h = h, pw_px = replicate (DISP_W * h) be\<rparr> # fill_from be (y + 8))
      else [])"
  by pat_completeness auto
termination by (relation "measure (\<lambda>(_, y). DISP_H - y)") auto

definition fill :: "u16 \<Rightarrow> panel_write list" where
  "fill color = fill_from (sys_cpu_to_be16 color) 0"

text \<open>\<open>draw_line\<close>: the glyph of a character, its pixels, the characters that fit.\<close>

definition glyph :: "bytes list \<Rightarrow> char \<Rightarrow> bytes" where
  "glyph font c =
     (let k = (of_char c :: nat) in if 0x20 \<le> k \<and> k < 0x7F then font ! (k - 0x20) else font ! 0)"

definition pixel_set :: "byte \<Rightarrow> nat \<Rightarrow> bool" where
  "pixel_set g b \<longleftrightarrow> g AND drop_bit b 0x80 \<noteq> 0"

definition put_glyph :: "u16 \<Rightarrow> bytes \<Rightarrow> nat \<Rightarrow> u16 list \<Rightarrow> u16 list" where
  "put_glyph fbe g x buf =
     fold (\<lambda>(row, b) buf. if pixel_set (g ! row) b then buf[row * DISP_W + x + b := fbe] else buf)
       (List.product [0..<8] [0..<8]) buf"

fun put_text :: "bytes list \<Rightarrow> u16 \<Rightarrow> nat \<Rightarrow> string \<Rightarrow> u16 list \<Rightarrow> u16 list" where
  "put_text font fbe col [] buf = buf"
| "put_text font fbe col (c # s) buf =
     (let x = col * 8
      in if x + 8 > DISP_W then buf else put_text font fbe (col + 1) s (put_glyph fbe (glyph font c) x buf))"

definition draw_line :: "bytes list \<Rightarrow> nat \<Rightarrow> string \<Rightarrow> u16 \<Rightarrow> u16 \<Rightarrow> panel_write" where
  "draw_line font y s fg bg =
     \<lparr>pw_y = y, pw_h = 8,
      pw_px = put_text font (sys_cpu_to_be16 fg) 0 s (replicate (DISP_W * 8) (sys_cpu_to_be16 bg))\<rparr>"

fun draw_lines :: "bytes list \<Rightarrow> u16 \<Rightarrow> nat \<Rightarrow> string option list \<Rightarrow> panel_write list" where
  "draw_lines font bg i [] = []"
| "draw_lines font bg i (l # ls) =
     (case l of None \<Rightarrow> draw_lines font bg (i + 1) ls
      | Some s \<Rightarrow>
          let y = 4 + i * 11
          in if y + 8 > DISP_H then [] else draw_line font y s C_WHITE bg # draw_lines font bg (i + 1) ls)"

definition display_status_lines :: "bytes list \<Rightarrow> bool \<Rightarrow> display_stage \<Rightarrow> string option list \<Rightarrow> panel_write list" where
  "display_status_lines font ready st ls =
     (if \<not> ready then [] else fill (stage_color st) @ draw_lines font (stage_color st) 0 ls)"

definition display_status_stage :: "bool \<Rightarrow> display_stage \<Rightarrow> panel_write list" where
  "display_status_stage ready st = (if ready then fill (stage_color st) else [])"

section \<open>What a line looks like\<close>

lemma fold_update_nth:
  assumes "k < length buf"
  shows "fold (\<lambda>i b. if P i then b[f i := v] else b) is buf ! k =
    (if \<exists>i \<in> set is. P i \<and> f i = k then v else buf ! k)"
  using assms
proof (induction "is" arbitrary: buf)
  case (Cons i "is")
  then show ?case by (cases "P i"; cases "f i = k") auto
qed simp

lemma fold_update_length: "length (fold (\<lambda>i b. if P i then b[f i := v] else b) is buf) = length buf"
  by (induction "is" arbitrary: buf) auto

lemma put_glyph_alt:
  "put_glyph fbe g x buf =
    fold (\<lambda>i b. if pixel_set (g ! fst i) (snd i) then b[fst i * DISP_W + x + snd i := fbe] else b)
      (List.product [0..<8] [0..<8]) buf"
  by (simp add: put_glyph_def case_prod_unfold)

lemma put_glyph_length [simp]: "length (put_glyph fbe g x buf) = length buf"
  by (simp only: put_glyph_alt fold_update_length)

lemma put_glyph_pixel:
  assumes "length buf = DISP_W * 8" "x + 8 \<le> DISP_W" "r < 8" "p < DISP_W"
  shows "put_glyph fbe g x buf ! (r * DISP_W + p) =
    (if x \<le> p \<and> p < x + 8 \<and> pixel_set (g ! r) (p - x) then fbe else buf ! (r * DISP_W + p))"
proof -
  have k: "r * DISP_W + p < length buf" using assms by (simp add: DISP_W_def)
  have pos: "row * DISP_W + x + b = r * DISP_W + p \<longleftrightarrow> row = r \<and> x + b = p" if "b < 8" for row b
  proof
    assume e: "row * DISP_W + x + b = r * DISP_W + p"
    then have "row * DISP_W + (x + b) = r * DISP_W + p" by simp
    moreover have "x + b < DISP_W" using that assms(2) by simp
    ultimately have "row = r" using assms(4)
      by (metis add.commute div_mult_self3 div_less add_cancel_right_left gr_implies_not0)
    with e show "row = r \<and> x + b = p" by simp
  qed auto
  have "(\<exists>i \<in> set (List.product [0..<8] [0..<8]). pixel_set (g ! fst i) (snd i) \<and> fst i * DISP_W + x + snd i = r * DISP_W + p)
    \<longleftrightarrow> x \<le> p \<and> p < x + 8 \<and> pixel_set (g ! r) (p - x)"
  proof
    assume "x \<le> p \<and> p < x + 8 \<and> pixel_set (g ! r) (p - x)"
    then show "\<exists>i \<in> set (List.product [0..<8] [0..<8]). pixel_set (g ! fst i) (snd i)
        \<and> fst i * DISP_W + x + snd i = r * DISP_W + p"
      using assms(3) by (intro bexI [of _ "(r, p - x)"]) auto
  qed (use pos in auto)
  then show ?thesis unfolding put_glyph_alt by (subst fold_update_nth [OF k]) simp
qed

lemma put_text_pixel:
  assumes "length buf = DISP_W * 8" "r < 8" "p < DISP_W"
  shows "put_text font fbe col s buf ! (r * DISP_W + p) =
    (if col \<le> p div 8 \<and> p div 8 < 16 \<and> p div 8 - col < length s
        \<and> pixel_set (glyph font (s ! (p div 8 - col)) ! r) (p mod 8)
     then fbe else buf ! (r * DISP_W + p))"
  using assms(1)
proof (induction s arbitrary: col buf)
  case (Cons c s)
  show ?case
  proof (cases "col * 8 + 8 > DISP_W")
    case True
    then have "\<not> (col \<le> p div 8 \<and> p div 8 < 16)" by (auto simp: DISP_W_def)
    then show ?thesis using True by (auto simp: Let_def)
  next
    case False
    have c: "col < 16" using False by (simp add: DISP_W_def)
    have pd: "col * 8 \<le> p \<and> p < col * 8 + 8 \<longleftrightarrow> p div 8 = col" by auto
    have pm: "p div 8 = col \<Longrightarrow> p - col * 8 = p mod 8" by (auto simp: minus_div_mult_eq_mod)
    have "put_text font fbe (col + 1) s (put_glyph fbe (glyph font c) (col * 8) buf) ! (r * DISP_W + p)
      = (if col + 1 \<le> p div 8 \<and> p div 8 < 16 \<and> p div 8 - (col + 1) < length s
            \<and> pixel_set (glyph font (s ! (p div 8 - (col + 1))) ! r) (p mod 8)
         then fbe else put_glyph fbe (glyph font c) (col * 8) buf ! (r * DISP_W + p))"
      using Cons.prems by (intro Cons.IH) simp
    also have "put_glyph fbe (glyph font c) (col * 8) buf ! (r * DISP_W + p)
      = (if p div 8 = col \<and> pixel_set (glyph font c ! r) (p mod 8) then fbe else buf ! (r * DISP_W + p))"
      using put_glyph_pixel [OF Cons.prems _ assms(2, 3), of "col * 8" fbe "glyph font c"] False pd pm by auto
    finally show ?thesis
      using False c by (auto simp: Let_def nth_Cons')
  qed
qed simp

text \<open>The pixel a line of text is to have: that of its character there, if one was drawn.\<close>

definition text_pixel :: "bytes list \<Rightarrow> u16 \<Rightarrow> u16 \<Rightarrow> string \<Rightarrow> nat \<Rightarrow> nat \<Rightarrow> u16" where
  "text_pixel font fg bg s row px =
     (if px div 8 < min 16 (length s) \<and> pixel_set (glyph font (s ! (px div 8)) ! row) (px mod 8)
      then sys_cpu_to_be16 fg else sys_cpu_to_be16 bg)"

lemma draw_line_pixel:
  assumes "r < 8" "p < DISP_W"
  shows "pw_px (draw_line font y s fg bg) ! (r * DISP_W + p) = text_pixel font fg bg s r p"
proof -
  have "r * DISP_W + p < DISP_W * 8" using assms by (simp add: DISP_W_def)
  then show ?thesis
    using put_text_pixel [of "replicate (DISP_W * 8) (sys_cpu_to_be16 bg)" r p font "sys_cpu_to_be16 fg" 0 s] assms
    by (auto simp: draw_line_def text_pixel_def)
qed

lemma put_text_length [simp]: "length (put_text font fbe col s buf) = length buf"
  by (induction font fbe col s buf rule: put_text.induct) (auto simp: Let_def)

section \<open>The diagnostic lines\<close>

text \<open>\<open>fmt_ip\<close>: the four bytes of an address in network byte order, as a little-endian CPU holds it.\<close>

definition fmt_ip :: "u32 \<Rightarrow> string" where
  "fmt_ip be =
     (let oct = (\<lambda>k. dec (unat (drop_bit (8 * k) be AND 0xFF)))
      in oct 0 @ ''.'' @ oct 1 @ ''.'' @ oct 2 @ ''.'' @ oct 3)"

record wifi_status =
  ws_rssi :: int
  ws_channel :: nat
  ws_state :: int
  ws_ssid :: string
  ws_bssid :: bytes

record ping_status =
  ping_count :: int
  ping_sent_n :: nat
  ping_stage_n :: int
  ping_init_rc :: int
  ping_send_rc :: int

record screen_in =
  sc_iface :: "(u32 \<times> u32) option"
  sc_wifi :: "wifi_status option"
  sc_ping :: "ping_status option"
  sc_boot :: "string list"
  sc_hostname :: string

text \<open>A line buffer of 22 bytes; \<open>%02X\<close>.\<close>

definition lb :: "string \<Rightarrow> string" where
  "lb s = take 21 s"

definition hexu2 :: "byte \<Rightarrow> string" where
  "hexu2 b = [''0123456789ABCDEF'' ! (unat b div 16), ''0123456789ABCDEF'' ! (unat b mod 16)]"

definition MAX_LINES :: nat where "MAX_LINES = 13"

text \<open>
  \<open>render_status\<close>: the lines, from the address, the gateway and netmask of the interface, the Wi-Fi
  status, the last disconnect reason, the ping counters, the boot lines and the host name.
\<close>

definition render_status :: "screen_in \<Rightarrow> u32 \<Rightarrow> net_state \<Rightarrow> string list" where
  "render_status i ticks s =
     (let ls = [lb (''IP '' @ take 15 (fmt_ip (current_ipv4 s)))];
          ls = ls @ (case sc_iface i of None \<Rightarrow> []
                     | Some (gw, nm) \<Rightarrow> [lb (''GW '' @ take 15 (fmt_ip gw)), lb (''MASK '' @ take 15 (fmt_ip nm))]);
          ls = ls @ (case sc_wifi i of None \<Rightarrow> []
                     | Some w \<Rightarrow>
                         [lb (''RSSI '' @ dec_int (ws_rssi w) @ '' CH'' @ dec (ws_channel w)),
                          lb (''WST'' @ dec_int (ws_state w) @ '' '' @ take 10 (ws_ssid w)),
                          lb (''AP '' @ concat (map hexu2 (take 6 (ws_bssid w))))]);
          ls = ls @ (if g_last_reason s \<ge> 0 then [lb (''LAST RSN '' @ dec_int (g_last_reason s))] else []);
          ls = ls @ (case sc_ping i of None \<Rightarrow> []
                     | Some p \<Rightarrow>
                         [lb (''GWPING '' @ dec_int (ping_count p) @ ''/'' @ dec (ping_sent_n p) @ '' t'' @ dec (unat ticks)),
                          lb (''P st'' @ dec_int (ping_stage_n p) @ '' i'' @ dec_int (ping_init_rc p) @ '' s''
                              @ dec_int (ping_send_rc p))]);
          ls = ls @ app_liveness_boot_lines (sc_boot i) (MAX_LINES - 1 - length ls)
      in ls @ [lb (sc_hostname i)])"

text \<open>What the panel shows of it.\<close>

definition status_screen :: "bytes list \<Rightarrow> bool \<Rightarrow> display_stage \<Rightarrow> screen_in \<Rightarrow> u32 \<Rightarrow> net_state \<Rightarrow> panel_write list" where
  "status_screen font ready st i ticks s =
     display_status_lines font ready st (map Some (render_status i ticks s))"

lemma render_count:
  assumes "length (sc_boot i) \<le> 3"
  shows "length (render_status i ticks s) \<le> MAX_LINES"
    "\<exists>pre. render_status i ticks s = pre @ sc_boot i @ [lb (sc_hostname i)]"
  using assms
  by (auto simp: render_status_def app_liveness_boot_lines_def MAX_LINES_def Let_def split: option.split)

lemma draw_lines_all:
  assumes "i + length ls \<le> 21"
  shows "draw_lines font bg i (map Some ls)
    = map (\<lambda>(k, s). draw_line font (4 + k * 11) s C_WHITE bg) (zip [i..<i + length ls] ls)"
  using assms
proof (induction ls arbitrary: i)
  case (Cons l ls)
  then have "4 + i * 11 + 8 \<le> DISP_H" by (simp add: DISP_H_def)
  moreover have "[i..<Suc (i + length ls)] = i # [Suc i..<Suc (i + length ls)]" by (simp add: upt_conv_Cons del: upt_Suc)
  ultimately show ?case using Cons by (simp add: Let_def del: upt_Suc)
qed simp

text \<open>
  C26. Every diagnostic line reaches the screen: there are never more than the array of thirteen holds,
  the boot lines and the host name are always among them, each is drawn inside the panel in its own
  eleven rows, and every one of its pixels is that of the text, of which the first 16 characters
  have room.
\<close>

theorem status_screen_complete:
  fixes font :: "bytes list" and st :: display_stage
  assumes "length (sc_boot i) \<le> 3" "k < length (render_status i ticks s)"
  defines "ls \<equiv> render_status i ticks s"
  defines "ws \<equiv> drop (length (fill (stage_color st))) (status_screen font True st i ticks s)"
  shows "length ws = length ls \<and> length ls \<le> MAX_LINES
    \<and> (\<exists>pre. ls = pre @ sc_boot i @ [lb (sc_hostname i)])
    \<and> pw_y (ws ! k) = 4 + k * 11 \<and> pw_y (ws ! k) + pw_h (ws ! k) \<le> DISP_H
    \<and> length (pw_px (ws ! k)) = DISP_W * pw_h (ws ! k)
    \<and> (\<forall>r < 8. \<forall>p < DISP_W. pw_px (ws ! k) ! (r * DISP_W + p)
          = text_pixel font C_WHITE (stage_color st) (ls ! k) r p)"
proof -
  have n: "length ls \<le> 13" using render_count(1) [OF assms(1)] by (simp add: ls_def MAX_LINES_def)
  have ws: "ws = map (\<lambda>(k, s). draw_line font (4 + k * 11) s C_WHITE (stage_color st)) (zip [0..<length ls] ls)"
    unfolding ws_def status_screen_def display_status_lines_def ls_def [symmetric]
    using draw_lines_all [of 0 ls font "stage_color st"] n by simp
  then have k: "ws ! k = draw_line font (4 + k * 11) (ls ! k) C_WHITE (stage_color st)" "length ws = length ls"
    using assms(2) by (simp_all add: ls_def)
  show ?thesis
    using render_count [OF assms(1), of ticks s] assms(2) n
    by (auto simp: k draw_line_pixel ls_def MAX_LINES_def) (simp_all add: draw_line_def DISP_H_def)
qed

definition sample_screen :: screen_in where
  "sample_screen = \<lparr>sc_iface = Some (0x0164A8C0, 0x00FFFFFF), sc_wifi = None, sc_ping = None,
     sc_boot = [''BOOT b1 r1'', ''CAUSE por''], sc_hostname = ''zephyr-0001''\<rparr>"

theorem status_screen_complete_witness:
  "pw_y (drop (length (fill (stage_color DISPLAY_STAGE_CONNECTED)))
     (status_screen [] True DISPLAY_STAGE_CONNECTED sample_screen 1 net_init) ! 2) = 26"
proof -
  have "length (sc_boot sample_screen) \<le> 3" "2 < length (render_status sample_screen 1 net_init)"
    by (simp_all add: sample_screen_def render_status_def net_init_def)
  from status_screen_complete [OF this, of DISPLAY_STAGE_CONNECTED "[]"] show ?thesis by simp
qed

text \<open>
  The address line is cut like any other: an address of more than 13 characters loses its end, and
  what is left can be the address of another device.
\<close>

lemma put_text_clip: "col \<le> 16 \<Longrightarrow> put_text font fbe col s buf = put_text font fbe col (take (16 - col) s) buf"
proof (induction font fbe col s buf rule: put_text.induct)
  case (2 font fbe col c s buf)
  show ?case
  proof (cases "col = 16")
    case False
    then have "16 - col = Suc (16 - (col + 1))" using 2(2) by simp
    then show ?thesis using 2 False by (simp add: Let_def DISP_W_def)
  qed (simp add: DISP_W_def)
qed simp

theorem address_line_ambiguous:
  "draw_line font y (lb (''IP '' @ fmt_ip 0x6464A8C0)) fg bg = draw_line font y (lb (''IP '' @ fmt_ip 0x0164A8C0)) fg bg
    \<and> fmt_ip 0x6464A8C0 = ''192.168.100.100'' \<and> fmt_ip 0x0164A8C0 = ''192.168.100.1''"
proof -
  have t: "fmt_ip 0x6464A8C0 = ''192.168.100.100''" "fmt_ip 0x0164A8C0 = ''192.168.100.1''" by code_simp+
  have "take 16 (lb (''IP '' @ fmt_ip 0x6464A8C0)) = take 16 (lb (''IP '' @ fmt_ip 0x0164A8C0))"
    unfolding t by (simp add: lb_def)
  then have "put_text font f 0 (lb (''IP '' @ fmt_ip 0x6464A8C0)) buf = put_text font f 0 (lb (''IP '' @ fmt_ip 0x0164A8C0)) buf"
    for f buf
    using put_text_clip [of 0 font f "lb (''IP '' @ fmt_ip 0x6464A8C0)" buf]
      put_text_clip [of 0 font f "lb (''IP '' @ fmt_ip 0x0164A8C0)" buf] by simp
  then show ?thesis using t by (simp add: draw_line_def)
qed

section \<open>The gateway ping and the status tick\<close>

text \<open>The driver and stack answer: an interface, the address parses, the ICMP context, the send.\<close>

record ping_io =
  pi_iface :: bool
  pi_target :: bool
  pi_init :: int
  pi_send :: int

record ping_state =
  ping_ready :: bool
  ping_sent :: u32
  ping_init_result :: int
  ping_send_result :: int
  ping_stage :: nat

definition ping_boot :: ping_state where
  "ping_boot = \<lparr>ping_ready = False, ping_sent = 0, ping_init_result = -999, ping_send_result = -999, ping_stage = 0\<rparr>"

text \<open>\<open>ping_gateway_once\<close>: the sequence number of the request sent, if any.\<close>

definition ping_gateway_once :: "ping_io \<Rightarrow> ping_state \<Rightarrow> u16 option \<times> ping_state" where
  "ping_gateway_once io s =
     (let s = s\<lparr>ping_stage := 1\<rparr>
      in if \<not> pi_iface io then (None, s)
         else
           let s = s\<lparr>ping_stage := 2\<rparr>
           in if \<not> pi_target io then (None, s)
              else
                let s = s\<lparr>ping_stage := 3\<rparr>;
                    s = (if \<not> ping_ready s then s\<lparr>ping_init_result := pi_init io, ping_ready := (pi_init io = 0)\<rparr> else s)
                in if \<not> ping_ready s then (None, s)
                   else
                     let seq = ucast (ping_sent s + 1);
                         s = s\<lparr>ping_stage := 4, ping_send_result := pi_send io\<rparr>
                     in if pi_send io = 0 then (Some seq, s\<lparr>ping_sent := ping_sent s + 1\<rparr>) else (None, s))"

text \<open>
  \<open>status_work_handler\<close>: the steps it reports, the actions of the watchdog, the ping, and the delay
  after which it runs again.
\<close>

record tick_out =
  to_steps :: "string list"
  to_actions :: "net_action list"
  to_ping :: "u16 option"
  to_next_s :: nat

definition status_work_handler ::
  "net_cfg \<Rightarrow> bool \<Rightarrow> u32 \<Rightarrow> u32 \<Rightarrow> ping_io \<Rightarrow> u32 \<times> net_state \<times> ping_state \<Rightarrow> tick_out \<times> u32 \<times> net_state \<times> ping_state" where
  "status_work_handler cfg iface ip now_ok pio st =
     (case st of (ticks, s, ps) \<Rightarrow>
        let ticks = ticks + 1;
            (acts, s) = connectivity_watchdog cfg iface ip now_ok s;
            (seq, ps) = ping_gateway_once pio ps
        in (\<lparr>to_steps = [''tick'', ''watchdog'', ''ping'', ''render'', ''idle''], to_actions = acts, to_ping = seq, to_next_s = 3\<rparr>,
            ticks, s, ps))"

text \<open>Ticks one after another, with what the interface, the ping replies and the ping show at each.\<close>

fun tick_run ::
  "net_cfg \<Rightarrow> bool \<Rightarrow> (u32 \<times> u32 \<times> ping_io) list \<Rightarrow> u32 \<times> net_state \<times> ping_state
    \<Rightarrow> tick_out list \<times> u32 \<times> net_state \<times> ping_state" where
  "tick_run cfg iface [] st = ([], st)"
| "tick_run cfg iface ((ip, ok, io) # ts) st =
     (let (t, st) = status_work_handler cfg iface ip ok io st; (ts, st) = tick_run cfg iface ts st in (t # ts, st))"

lemma tick_run_watch:
  "concat (map to_actions (fst (tick_run cfg iface ts (n, s, ps)))) = fst (watch_run cfg iface (map (\<lambda>(ip, ok, _). (ip, ok)) ts) s)
    \<and> fst (snd (snd (tick_run cfg iface ts (n, s, ps)))) = snd (watch_run cfg iface (map (\<lambda>(ip, ok, _). (ip, ok)) ts) s)
    \<and> fst (snd (tick_run cfg iface ts (n, s, ps))) = n + of_nat (length ts)
    \<and> (\<forall>t \<in> set (fst (tick_run cfg iface ts (n, s, ps))). to_next_s t = 3)"
proof (induction ts arbitrary: n s ps)
  case (Cons t ts)
  obtain ip ok io where t: "t = (ip, ok, io)" by (cases t) auto
  obtain a s' where w: "connectivity_watchdog cfg iface ip ok s = (a, s')" by (metis surj_pair)
  obtain r ps' where p: "ping_gateway_once io ps = (r, ps')" by (metis surj_pair)
  obtain outs fin where run: "tick_run cfg iface ts (n + 1, s', ps') = (outs, fin)" by (metis surj_pair)
  obtain as s2 where wr: "watch_run cfg iface (map (\<lambda>(ip, ok, _). (ip, ok)) ts) s' = (as, s2)" by (metis surj_pair)
  show ?case using Cons.IH [of "n + 1" s' ps'] by (simp add: t status_work_handler_def w p run wr)
qed simp

lemma ping_sent_step:
  "ping_gateway_once io ps = (r, ps') \<Longrightarrow>
    (case r of None \<Rightarrow> ping_sent ps' = ping_sent ps
     | Some q \<Rightarrow> q = ucast (ping_sent ps + 1) \<and> ping_sent ps' = ping_sent ps + 1)"
  by (auto simp: ping_gateway_once_def Let_def split: if_splits)

text \<open>
  The status tick refines the watchdog: running every three seconds, whatever the ping and the
  screen do, it takes exactly the watchdog's actions, and the echo requests that went out are
  numbered without a gap.
\<close>

theorem status_tick_runs_watchdog:
  fixes cfg :: net_cfg and n :: u32 and iface :: bool
  defines "run \<equiv> \<lambda>ts s ps. tick_run cfg iface ts (n, s, ps)"
  shows "concat (map to_actions (fst (run ts s ps))) = fst (watch_run cfg iface (map (\<lambda>(ip, ok, _). (ip, ok)) ts) s)
    \<and> list_all (\<lambda>t. to_next_s t = 3) (fst (run ts s ps))
    \<and> (let sent = List.map_filter to_ping (fst (run ts s ps))
        in sent = map (\<lambda>k. ucast (ping_sent ps + of_nat k + 1)) [0..<length sent]
          \<and> ping_sent (snd (snd (snd (run ts s ps)))) = ping_sent ps + of_nat (length sent))"
proof -
  have num: "ucast (u + 1) # map (\<lambda>k. ucast (u + 1 + of_nat k + 1)) [0..<l] = map (\<lambda>k. ucast (u + of_nat k + 1)) [0..<Suc l]"
    for u :: u32 and l
    by (simp add: map_upt_Suc ac_simps del: upt_Suc)
  have "let sent = List.map_filter to_ping (fst (tick_run cfg iface ts (n, s, ps)))
      in sent = map (\<lambda>k. ucast (ping_sent ps + of_nat k + 1)) [0..<length sent]
        \<and> ping_sent (snd (snd (snd (tick_run cfg iface ts (n, s, ps))))) = ping_sent ps + of_nat (length sent)"
  proof (induction ts arbitrary: n s ps)
    case Nil
    then show ?case by simp
  next
    case (Cons t ts)
    obtain ip ok io where t: "t = (ip, ok, io)" by (cases t) auto
    obtain a s' where w: "connectivity_watchdog cfg iface ip ok s = (a, s')" by fastforce
    obtain r ps' where p: "ping_gateway_once io ps = (r, ps')" by fastforce
    obtain outs fin where run: "tick_run cfg iface ts (n + 1, s', ps') = (outs, fin)" by (metis surj_pair)
    let ?l = "length (List.map_filter to_ping outs)"
    have IH: "List.map_filter to_ping outs = map (\<lambda>k. ucast (ping_sent ps' + of_nat k + 1)) [0..<?l]"
      "ping_sent (snd (snd fin)) = ping_sent ps' + of_nat ?l"
      using Cons.IH [of "n + 1" s' ps'] by (simp_all add: run Let_def del: upt_Suc)
    show ?case
    proof (cases r)
      case None
      then show ?thesis
        using IH ping_sent_step [OF p] by (simp add: t status_work_handler_def w p run Let_def del: upt_Suc)
    next
      case (Some q)
      then have q: "q = ucast (ping_sent ps + 1)" "ping_sent ps' = ping_sent ps + 1" using ping_sent_step [OF p] by simp_all
      have "q # List.map_filter to_ping outs
          = ucast (ping_sent ps + 1) # map (\<lambda>k. ucast (ping_sent ps + 1 + of_nat k + 1)) [0..<?l]"
        unfolding q(1) by (rule arg_cong [OF IH(1) [unfolded q(2)]])
      then have "q # List.map_filter to_ping outs = map (\<lambda>k. ucast (ping_sent ps + of_nat k + 1)) [0..<Suc ?l]"
        unfolding num .
      then show ?thesis
        using IH(2) q(2) Some by (simp add: t status_work_handler_def w p run Let_def del: upt_Suc)
    qed
  qed
  then show ?thesis using tick_run_watch unfolding run_def list_all_iff by blast
qed

text \<open>\<open>update_identity\<close>: the DNS-SD instance name, a buffer of 64 bytes.\<close>

definition update_identity :: "string \<Rightarrow> string" where
  "update_identity hostname = take 63 hostname"

end
