(* ===== verification/Ztp_Crypto.thy ===== *)
theory Ztp_Crypto
  imports Prelude
begin

text \<open>
  The provisioner's use of the PSA crypto API, \<^verbatim>\<open>src/apps/wifi-provisioner/src/ztp_crypto.c\<close>:
  the persistent identity key, the session key of one enrollment, signing, verifying and opening a
  sealed payload. PSA is not part of this repository. What a call returns is a parameter; of the
  API's documented behaviour the model has the set of live keys: generating and importing add a
  key, destroying removes it, and a key under an identifier that is taken is not generated.
\<close>

section \<open>PSA\<close>

datatype psa_status = PSA_SUCCESS | PSA_ERROR_INVALID_SIGNATURE | PSA_ERROR_OTHER

text \<open>The answers to the calls of one operation. \<open>ps_alloc\<close> is the identifier PSA gives a volatile key.\<close>

record psa_answers =
  ps_attributes :: psa_status
  ps_generate :: psa_status
  ps_import :: psa_status
  ps_alloc :: "nat set \<Rightarrow> nat"
  ps_export :: "bytes option"
  ps_sign :: "psa_status \<times> bytes"
  ps_verify :: psa_status
  ps_setup :: psa_status
  ps_agreement :: psa_status
  ps_info :: psa_status
  ps_output :: psa_status
  ps_decrypt :: "psa_status \<times> bytes"

abbreviation (input) PSA_KEY_ID_NULL :: nat where "PSA_KEY_ID_NULL \<equiv> 0"
definition IDENTITY_KEY_ID :: nat where "IDENTITY_KEY_ID = 0x0007E572"
definition POINT_LEN :: nat where "POINT_LEN = 65"
definition SIG_LEN :: nat where "SIG_LEN = 64"
definition TAG_LEN :: nat where "TAG_LEN = 16"

text \<open>The keys alive in PSA, and the static \<open>session_key\<close>.\<close>

record crypto =
  live_keys :: "nat set"
  session_key :: nat

definition crypto_boot :: "bool \<Rightarrow> crypto" where
  "crypto_boot enrolled =
     \<lparr>live_keys = (if enrolled then {IDENTITY_KEY_ID} else {}), session_key = PSA_KEY_ID_NULL\<rparr>"

definition psa_destroy_key :: "nat \<Rightarrow> crypto \<Rightarrow> crypto" where
  "psa_destroy_key k s = s\<lparr>live_keys := live_keys s - {k}\<rparr>"

definition psa_add_key :: "nat \<Rightarrow> crypto \<Rightarrow> crypto" where
  "psa_add_key k s = s\<lparr>live_keys := insert k (live_keys s)\<rparr>"

definition ztp_crypto_init :: "psa_status \<Rightarrow> rc" where
  "ztp_crypto_init st = (if st \<noteq> PSA_SUCCESS then Err EIO else OK)"

text \<open>What a key may be used for, as it is set on the attributes a key is made with.\<close>

datatype key_type = P256_PAIR | P256_PUBLIC
datatype key_usage = USAGE_SIGN_MESSAGE | USAGE_VERIFY_MESSAGE | USAGE_DERIVE
datatype key_alg = SIGN_ALG | SEAL_KDF_ALG

record key_attributes =
  ka_type :: key_type
  ka_bits :: nat
  ka_usage :: key_usage
  ka_alg :: key_alg

definition ztp_session_key_attributes :: key_attributes where
  "ztp_session_key_attributes = \<lparr>ka_type = P256_PAIR, ka_bits = 256, ka_usage = USAGE_DERIVE, ka_alg = SEAL_KDF_ALG\<rparr>"

section \<open>Identity\<close>

definition ensure_identity :: "psa_answers \<Rightarrow> crypto \<Rightarrow> rc \<times> crypto" where
  "ensure_identity io s =
     (if IDENTITY_KEY_ID \<in> live_keys s \<and> ps_attributes io = PSA_SUCCESS then (OK, s)
      else if IDENTITY_KEY_ID \<notin> live_keys s \<and> ps_generate io = PSA_SUCCESS
      then (OK, psa_add_key IDENTITY_KEY_ID s)
      else (Err EIO, s))"

definition ztp_identity_public :: "psa_answers \<Rightarrow> crypto \<Rightarrow> (errno + bytes) \<times> crypto" where
  "ztp_identity_public io s =
     (case ensure_identity io s of
        (Err e, s) \<Rightarrow> (Inl e, s)
      | (OK, s) \<Rightarrow>
          (case ps_export io of
             Some pub \<Rightarrow> if length pub = POINT_LEN then (Inr pub, s) else (Inl EIO, s)
           | None \<Rightarrow> (Inl EIO, s)))"

definition ztp_identity_sign :: "psa_answers \<Rightarrow> crypto \<Rightarrow> (errno + bytes) \<times> crypto" where
  "ztp_identity_sign io s =
     (case ensure_identity io s of
        (Err e, s) \<Rightarrow> (Inl e, s)
      | (OK, s) \<Rightarrow>
          (case ps_sign io of
             (st, sig) \<Rightarrow> if st \<noteq> PSA_SUCCESS \<or> length sig \<noteq> SIG_LEN then (Inl EIO, s) else (Inr sig, s)))"

definition ztp_verify :: "psa_answers \<Rightarrow> crypto \<Rightarrow> rc \<times> crypto" where
  "ztp_verify io s =
     (if ps_import io \<noteq> PSA_SUCCESS then (Err EINVAL, s)
      else
        let k = ps_alloc io (live_keys s);
            s = psa_add_key k s;
            st = ps_verify io;
            s = psa_destroy_key k s
        in (case st of
              PSA_ERROR_INVALID_SIGNATURE \<Rightarrow> (Err EBADMSG, s)
            | PSA_SUCCESS \<Rightarrow> (OK, s)
            | PSA_ERROR_OTHER \<Rightarrow> (Err EIO, s)))"

section \<open>Session key and sealed payloads\<close>

definition ztp_session_end :: "crypto \<Rightarrow> crypto" where
  "ztp_session_end s =
     (if session_key s \<noteq> PSA_KEY_ID_NULL
      then (psa_destroy_key (session_key s) s)\<lparr>session_key := PSA_KEY_ID_NULL\<rparr> else s)"

definition ztp_session_new :: "psa_answers \<Rightarrow> crypto \<Rightarrow> (errno + bytes) \<times> crypto" where
  "ztp_session_new io s =
     (let s = ztp_session_end s
      in if ps_generate io \<noteq> PSA_SUCCESS then (Inl EIO, s\<lparr>session_key := PSA_KEY_ID_NULL\<rparr>)
         else
           let k = ps_alloc io (live_keys s);
               s = (psa_add_key k s)\<lparr>session_key := k\<rparr>
           in (case ps_export io of
                 Some pub \<Rightarrow> if length pub = POINT_LEN then (Inr pub, s) else (Inl EIO, ztp_session_end s)
               | None \<Rightarrow> (Inl EIO, ztp_session_end s)))"

text \<open>The key derivation: every step only if the ones before it worked; the key it leaves.\<close>

definition derive_aead_key :: "psa_answers \<Rightarrow> crypto \<Rightarrow> (errno + nat) \<times> crypto" where
  "derive_aead_key io s =
     (let st = ps_setup io;
          st = (if st = PSA_SUCCESS then ps_agreement io else st);
          st = (if st = PSA_SUCCESS then ps_info io else st);
          st = (if st = PSA_SUCCESS then ps_output io else st)
      in if st \<noteq> PSA_SUCCESS then (Inl EIO, s)
         else let k = ps_alloc io (live_keys s) in (Inr k, psa_add_key k s))"

definition ztp_open_with_key :: "psa_answers \<Rightarrow> bytes \<Rightarrow> crypto \<Rightarrow> (errno + bytes) \<times> crypto" where
  "ztp_open_with_key io ct s =
     (if length ct < TAG_LEN then (Inl EBADMSG, s)
      else
        case derive_aead_key io s of
          (Inl e, s) \<Rightarrow> (Inl e, s)
        | (Inr aead, s) \<Rightarrow>
            (case ps_decrypt io of
               (st, out) \<Rightarrow>
                 let s = psa_destroy_key aead s
                 in (case st of
                       PSA_ERROR_INVALID_SIGNATURE \<Rightarrow> (Inl EBADMSG, s)
                     | PSA_SUCCESS \<Rightarrow> (Inr out, s)
                     | PSA_ERROR_OTHER \<Rightarrow> (Inl EIO, s))))"

definition ztp_open :: "psa_answers \<Rightarrow> bytes \<Rightarrow> crypto \<Rightarrow> (errno + bytes) \<times> crypto" where
  "ztp_open io ct s =
     (if session_key s = PSA_KEY_ID_NULL then (Inl ENOENT, s) else ztp_open_with_key io ct s)"

section \<open>Keys are accounted for\<close>

datatype crypto_op = IdentityPublic | Sign | Verify | SessionNew | SessionEnd | Open bytes

definition crypto_step :: "crypto_op \<times> psa_answers \<Rightarrow> crypto \<Rightarrow> crypto" where
  "crypto_step e s =
     (case e of
        (IdentityPublic, io) \<Rightarrow> snd (ztp_identity_public io s)
      | (Sign, io) \<Rightarrow> snd (ztp_identity_sign io s)
      | (Verify, io) \<Rightarrow> snd (ztp_verify io s)
      | (SessionNew, io) \<Rightarrow> snd (ztp_session_new io s)
      | (SessionEnd, io) \<Rightarrow> ztp_session_end s
      | (Open ct, io) \<Rightarrow> snd (ztp_open io ct s))"

text \<open>PSA gives a new key an identifier that no live key has, and not one of the reserved two.\<close>

definition fresh_alloc :: "psa_answers \<Rightarrow> bool" where
  "fresh_alloc io \<longleftrightarrow>
     (\<forall>K. finite K \<longrightarrow> ps_alloc io K \<notin> K \<and> ps_alloc io K \<noteq> IDENTITY_KEY_ID \<and> ps_alloc io K \<noteq> PSA_KEY_ID_NULL)"

definition keys_ok :: "bool \<Rightarrow> crypto \<Rightarrow> bool" where
  "keys_ok had s \<longleftrightarrow> finite (live_keys s)
     \<and> live_keys s - {IDENTITY_KEY_ID} = (if session_key s = PSA_KEY_ID_NULL then {} else {session_key s})
     \<and> session_key s \<noteq> IDENTITY_KEY_ID \<and> (had \<longrightarrow> IDENTITY_KEY_ID \<in> live_keys s)"

lemma identity_not_null: "IDENTITY_KEY_ID \<noteq> PSA_KEY_ID_NULL"
  by (simp add: IDENTITY_KEY_ID_def)

lemmas key_ops = psa_destroy_key_def psa_add_key_def

lemma add_identity_ok: "keys_ok had s \<Longrightarrow> keys_ok had (psa_add_key IDENTITY_KEY_ID s)"
  by (simp add: keys_ok_def psa_add_key_def)

lemma ensure_identity_ok: "keys_ok had s \<Longrightarrow> keys_ok had (snd (ensure_identity io s))"
  using add_identity_ok [of had s] by (simp add: ensure_identity_def)

lemma identity_ops_ok:
  assumes "keys_ok had s"
  shows "keys_ok had (snd (ztp_identity_public io s))" "keys_ok had (snd (ztp_identity_sign io s))"
  using ensure_identity_ok [OF assms, of io]
  by (auto simp: ztp_identity_public_def ztp_identity_sign_def split: prod.split rc.split option.split)

lemma session_end_ok: "keys_ok had s \<Longrightarrow> keys_ok had (ztp_session_end s) \<and> session_key (ztp_session_end s) = PSA_KEY_ID_NULL"
proof -
  have "live_keys s - {session_key s} - {IDENTITY_KEY_ID} = live_keys s - {IDENTITY_KEY_ID} - {session_key s}" by blast
  then show "keys_ok had s \<Longrightarrow> keys_ok had (ztp_session_end s) \<and> session_key (ztp_session_end s) = PSA_KEY_ID_NULL"
    using identity_not_null
    by (simp add: ztp_session_end_def keys_ok_def psa_destroy_key_def split: if_splits)
qed

lemma temporary_key: "k \<notin> live_keys s \<Longrightarrow> psa_destroy_key k (psa_add_key k s) = s"
  by (simp add: key_ops)

lemma verify_ok: "fresh_alloc io \<Longrightarrow> finite (live_keys s) \<Longrightarrow> snd (ztp_verify io s) = s"
  by (auto simp: ztp_verify_def fresh_alloc_def Let_def temporary_key split: psa_status.split)

lemma open_ok: "fresh_alloc io \<Longrightarrow> finite (live_keys s) \<Longrightarrow> snd (ztp_open io ct s) = s"
  by (auto simp: ztp_open_def ztp_open_with_key_def derive_aead_key_def fresh_alloc_def Let_def temporary_key
      split: psa_status.split prod.split)

lemma session_new_ok:
  assumes "fresh_alloc io" "keys_ok had s"
  shows "keys_ok had (snd (ztp_session_new io s))"
proof -
  let ?t = "ztp_session_end s" and ?k = "ps_alloc io (live_keys (ztp_session_end s))"
  have t: "keys_ok had ?t" "session_key ?t = PSA_KEY_ID_NULL" using session_end_ok [OF assms(2)] by auto
  then have k: "?k \<notin> live_keys ?t" "?k \<noteq> IDENTITY_KEY_ID" "?k \<noteq> PSA_KEY_ID_NULL"
    using assms(1) by (auto simp: fresh_alloc_def keys_ok_def)
  let ?u = "(psa_add_key ?k ?t)\<lparr>session_key := ?k\<rparr>"
  have u: "keys_ok had ?u" using t k by (auto simp: keys_ok_def key_ops)
  then have "keys_ok had (ztp_session_end ?u)" using session_end_ok by blast
  with t u show ?thesis
    by (auto simp: ztp_session_new_def Let_def keys_ok_def split: option.split)
qed

interpretation psa_keys: guarded_system crypto_step "\<lambda>e. fresh_alloc (snd e)" "keys_ok had" for had
proof
  fix e :: "crypto_op \<times> psa_answers" and s :: crypto
  assume e: "fresh_alloc (snd e)" "keys_ok had s"
  obtain p io where p: "e = (p, io)" by (cases e)
  have "finite (live_keys s)" using e(2) by (simp add: keys_ok_def)
  then show "keys_ok had (crypto_step e s)"
    using e identity_ops_ok [OF e(2)] session_end_ok [OF e(2)] session_new_ok [of io had s]
      verify_ok [of io s] open_ok [of io s]
    by (cases p) (auto simp: crypto_step_def p)
qed

text \<open>
  C34. No key outlives its use: after any sequence of operations, whatever PSA answers to any call, the
  only keys alive are the identity key and the session key in use; an identity key, once there, is
  never replaced; and verifying a signature or opening a payload leaves no key behind.
\<close>

theorem keys_accounted:
  fixes enrolled :: bool and es :: "(crypto_op \<times> psa_answers) list"
  assumes "list_all (\<lambda>e. fresh_alloc (snd e)) es"
  defines "t \<equiv> fold crypto_step es (crypto_boot enrolled)"
  shows "live_keys t \<subseteq> {IDENTITY_KEY_ID} \<union> (if session_key t = PSA_KEY_ID_NULL then {} else {session_key t})
    \<and> (session_key t \<noteq> PSA_KEY_ID_NULL \<longrightarrow> session_key t \<in> live_keys t)
    \<and> (enrolled \<longrightarrow> IDENTITY_KEY_ID \<in> live_keys t)
    \<and> (fresh_alloc io \<longrightarrow> snd (ztp_verify io t) = t \<and> snd (ztp_open io ct t) = t)"
proof -
  have "keys_ok enrolled (crypto_boot enrolled)"
    using identity_not_null by (simp add: keys_ok_def crypto_boot_def)
  then have t: "keys_ok enrolled t"
    using psa_keys.run_keeps_ok [OF assms(1)] by (simp add: t_def psa_keys.run_def)
  then have "fresh_alloc io \<longrightarrow> snd (ztp_verify io t) = t \<and> snd (ztp_open io ct t) = t"
    using verify_ok [of io t] open_ok [of io t] by (simp add: keys_ok_def)
  with t show ?thesis by (auto simp: keys_ok_def split: if_splits)
qed

text \<open>An allocator as PSA may have it, to show that its documented behaviour can be had.\<close>

definition next_id :: "nat set \<Rightarrow> nat" where
  "next_id K = Suc (Max (insert IDENTITY_KEY_ID K))"

definition sample_answers :: psa_answers where
  "sample_answers =
     \<lparr>ps_attributes = PSA_SUCCESS, ps_generate = PSA_SUCCESS, ps_import = PSA_SUCCESS, ps_alloc = next_id,
      ps_export = Some (replicate 65 4), ps_sign = (PSA_SUCCESS, replicate 64 7), ps_verify = PSA_SUCCESS,
      ps_setup = PSA_SUCCESS, ps_agreement = PSA_SUCCESS, ps_info = PSA_SUCCESS, ps_output = PSA_SUCCESS,
      ps_decrypt = (PSA_ERROR_INVALID_SIGNATURE, [])\<rparr>"

lemma sample_fresh: "fresh_alloc sample_answers"
proof -
  have above: "next_id K \<noteq> k" if "finite K" "k \<in> insert IDENTITY_KEY_ID K" for K k
  proof -
    have "k \<le> Max (insert IDENTITY_KEY_ID K)" by (rule Max_ge) (use that in simp_all)
    then show ?thesis unfolding next_id_def by linarith
  qed
  have "next_id K \<notin> K" "next_id K \<noteq> IDENTITY_KEY_ID" if "finite K" for K
    using above [OF that, of "next_id K"] above [OF that, of IDENTITY_KEY_ID] by auto
  moreover have "next_id K \<noteq> 0" for K by (simp add: next_id_def)
  ultimately show ?thesis by (simp add: fresh_alloc_def sample_answers_def)
qed

theorem keys_accounted_witness:
  "session_key (fold crypto_step [(SessionNew, sample_answers), (Open (replicate 20 0), sample_answers)] (crypto_boot True))
     \<in> live_keys (fold crypto_step [(SessionNew, sample_answers), (Open (replicate 20 0), sample_answers)] (crypto_boot True))"
proof -
  let ?es = "[(SessionNew, sample_answers), (Open (replicate 20 0), sample_answers)]"
  have "session_key (fold crypto_step ?es (crypto_boot True)) \<noteq> 0"
    by (simp add: crypto_step_def open_ok [OF sample_fresh] crypto_boot_def ztp_session_new_def ztp_session_end_def
        sample_answers_def POINT_LEN_def Let_def psa_add_key_def next_id_def
        ztp_open_def ztp_open_with_key_def derive_aead_key_def psa_destroy_key_def)
  then show ?thesis using keys_accounted [of ?es True] sample_fresh by simp
qed

text \<open>
  A payload is opened only under a session key and only when its tag verified: the four answers a
  sealed module can have, in the order they are decided.
\<close>

theorem open_authenticates:
  "fst (ztp_open io ct s) =
    (if session_key s = PSA_KEY_ID_NULL then Inl ENOENT
     else if length ct < TAG_LEN then Inl EBADMSG
     else if \<not> (ps_setup io = PSA_SUCCESS \<and> ps_agreement io = PSA_SUCCESS \<and> ps_info io = PSA_SUCCESS
               \<and> ps_output io = PSA_SUCCESS) then Inl EIO
     else case fst (ps_decrypt io) of
         PSA_SUCCESS \<Rightarrow> Inr (snd (ps_decrypt io))
       | PSA_ERROR_INVALID_SIGNATURE \<Rightarrow> Inl EBADMSG
       | PSA_ERROR_OTHER \<Rightarrow> Inl EIO)"
  by (simp add: ztp_open_def ztp_open_with_key_def derive_aead_key_def Let_def split: psa_status.split prod.split)

end
