(* ===== verification/Ztp_Selftest.thy ===== *)
theory Ztp_Selftest
  imports Ztp_Crypto Ztp_Envelope Ztp_Apply
begin

text \<open>
  The self-test of the enrollment crypto at boot, \<^verbatim>\<open>src/apps/wifi-provisioner/src/ztp_selftest.c\<close>, and the
  reference vectors of the server's implementation it runs against, \<^verbatim>\<open>ztp_selftest_vectors.h\<close>. PSA is a
  parameter: what it answers to a call depends on the bytes it is given. The vectors also check the model:
  the canonical request of \<open>Ztp_Envelope\<close> and the bundle parser of \<open>Ztp_Apply\<close> agree with them byte for byte.
\<close>

section \<open>The vectors\<close>

definition sv_device_scalar :: bytes where
  "sv_device_scalar = [
    0xd4, 0x8f, 0x6c, 0xfb, 0x65, 0x25, 0xc5, 0xcb, 0xb5, 0x38, 0xa8, 0xcf, 0xd2, 0xa3, 0x5a, 0x15,
    0x14, 0xa8, 0xef, 0x17, 0x33, 0x94, 0xee, 0x80, 0xd1, 0x97, 0x5d, 0x65, 0x8f, 0xdc, 0x23, 0x82]"

definition sv_device_point :: bytes where
  "sv_device_point = [
    0x04, 0x4c, 0x2d, 0xa2, 0x5b, 0x2a, 0x05, 0x34, 0x47, 0x6e, 0x5d, 0xfd, 0x06, 0x13, 0x1f, 0x75,
    0x89, 0x52, 0x4c, 0x76, 0xeb, 0xe9, 0x2c, 0x36, 0x3c, 0x00, 0xf2, 0x11, 0x15, 0xa9, 0x4f, 0x86,
    0x55, 0x5f, 0x21, 0x37, 0x9c, 0xf0, 0xce, 0xb7, 0x11, 0x83, 0x64, 0xcc, 0xb0, 0xc9, 0xaf, 0xf3,
    0xb6, 0x2b, 0x97, 0xa3, 0x8b, 0x2e, 0xe9, 0x45, 0x88, 0x70, 0x73, 0x2b, 0xdb, 0x8f, 0x9e, 0xf1,
    0x49]"

definition sv_server_point :: bytes where
  "sv_server_point = [
    0x04, 0x47, 0xeb, 0x04, 0xdf, 0x3a, 0xfd, 0x94, 0x17, 0x82, 0x5d, 0xb6, 0xc3, 0xa8, 0x4b, 0x51,
    0x2f, 0x2e, 0xa7, 0xbc, 0x63, 0xa3, 0x93, 0xbb, 0x54, 0x35, 0x82, 0x48, 0xfb, 0x62, 0xd2, 0x7f,
    0xe0, 0x36, 0x1e, 0x21, 0xdf, 0x71, 0x7b, 0xef, 0x6d, 0x5d, 0xe4, 0xd6, 0x55, 0x00, 0x99, 0xa7,
    0x67, 0x89, 0x5a, 0x86, 0xf9, 0x8c, 0x8a, 0x39, 0x5c, 0xca, 0x08, 0xfc, 0x22, 0x50, 0x18, 0xb8,
    0x7f]"

definition sv_nonce :: bytes where
  "sv_nonce = [
    0x6d, 0x2b, 0x5d, 0x7c, 0xdb, 0xbf, 0xe1, 0x87, 0x7a, 0x43, 0xe4, 0x66]"

definition sv_ciphertext :: bytes where
  "sv_ciphertext = [
    0x08, 0xb1, 0xbc, 0xdf, 0xd4, 0xa7, 0x96, 0x86, 0x76, 0x87, 0xfe, 0xce, 0x20, 0xdb, 0x46, 0x4a,
    0x66, 0xce, 0xde, 0x32, 0xc5, 0xc7, 0xa3, 0xab, 0xf3, 0x09, 0xd3, 0x89, 0x6e, 0x37, 0xfd, 0xfe,
    0x44, 0x6c, 0x2f, 0xec, 0x74, 0xcc, 0x74, 0x5b, 0x69, 0x68, 0x50, 0x01, 0x6d, 0xb5, 0x0f, 0x9f,
    0xee, 0xed, 0xf3, 0x78, 0xa6, 0x4e, 0xd3, 0x24, 0x49, 0x64, 0x17, 0x05, 0x11, 0x0e, 0xba, 0x99,
    0xc7, 0x80, 0x08, 0x58, 0x6f, 0xb6, 0xb0, 0x5c, 0x7c, 0x52, 0x9d, 0x8a, 0x05, 0xe9, 0x1b, 0x1f,
    0x69, 0xf9, 0xc7, 0x20, 0x14, 0x47, 0x31, 0x0e, 0x20, 0xa7, 0xcc, 0x4f, 0x50, 0x82, 0x21, 0x1c,
    0x64, 0x71, 0xc8, 0x34, 0x25, 0x5a, 0xd1, 0x24, 0x63, 0xb1, 0x79, 0xa3, 0xe1, 0xc7, 0x42, 0xf5,
    0x25, 0xde, 0x40, 0x4b, 0x08, 0xd5, 0x41, 0xe5, 0x7c, 0xb6, 0x39, 0x8c, 0xd8, 0x9b]"

definition sv_plaintext :: bytes where
  "sv_plaintext = [
    0x5b, 0x63, 0x38, 0x79, 0x5d, 0x0a, 0x75, 0x72, 0x6c, 0x3d, 0x65, 0x78, 0x61, 0x6d, 0x70, 0x6c,
    0x65, 0x2e, 0x63, 0x75, 0x6d, 0x75, 0x6c, 0x6f, 0x63, 0x69, 0x74, 0x79, 0x2e, 0x63, 0x6f, 0x6d,
    0x0a, 0x74, 0x65, 0x6e, 0x61, 0x6e, 0x74, 0x3d, 0x74, 0x31, 0x32, 0x33, 0x34, 0x35, 0x0a, 0x65,
    0x78, 0x74, 0x65, 0x72, 0x6e, 0x61, 0x6c, 0x5f, 0x69, 0x64, 0x3d, 0x7a, 0x65, 0x70, 0x68, 0x79,
    0x72, 0x2d, 0x61, 0x61, 0x62, 0x62, 0x63, 0x63, 0x64, 0x64, 0x65, 0x65, 0x66, 0x66, 0x0a, 0x6f,
    0x6e, 0x65, 0x5f, 0x74, 0x69, 0x6d, 0x65, 0x5f, 0x70, 0x61, 0x73, 0x73, 0x77, 0x6f, 0x72, 0x64,
    0x3d, 0x76, 0x65, 0x63, 0x74, 0x6f, 0x72, 0x2d, 0x74, 0x6f, 0x6b, 0x65, 0x6e, 0x0a]"

definition gv_pubkey :: bytes where
  "gv_pubkey = [
    0x04, 0xac, 0xcf, 0x01, 0x06, 0xef, 0x85, 0x8f, 0xa2, 0xd9, 0x19, 0x33, 0x13, 0x46, 0x80, 0x5a,
    0x78, 0xb5, 0x8b, 0xba, 0xd0, 0xb8, 0x44, 0xe5, 0xc7, 0x89, 0x28, 0x79, 0x14, 0x61, 0x87, 0xdd,
    0x26, 0x66, 0xad, 0xa7, 0x81, 0xbb, 0x7f, 0x11, 0x13, 0x72, 0x25, 0x1a, 0x89, 0x10, 0x62, 0x1f,
    0x63, 0x4d, 0xf1, 0x28, 0xac, 0x48, 0xe3, 0x81, 0xfd, 0x6e, 0xf9, 0x06, 0x07, 0x31, 0xf6, 0x94,
    0xa4]"

definition gv_canon :: bytes where
  "gv_canon = [
    0x7b, 0x22, 0x63, 0x61, 0x70, 0x61, 0x62, 0x69, 0x6c, 0x69, 0x74, 0x69, 0x65, 0x73, 0x22, 0x3a,
    0x5b, 0x22, 0x77, 0x69, 0x66, 0x69, 0x2e, 0x76, 0x32, 0x22, 0x2c, 0x22, 0x63, 0x38, 0x79, 0x2e,
    0x76, 0x32, 0x22, 0x5d, 0x2c, 0x22, 0x64, 0x65, 0x76, 0x69, 0x63, 0x65, 0x5f, 0x69, 0x64, 0x22,
    0x3a, 0x22, 0x7a, 0x65, 0x70, 0x68, 0x79, 0x72, 0x2d, 0x61, 0x61, 0x62, 0x62, 0x63, 0x63, 0x64,
    0x64, 0x65, 0x65, 0x66, 0x66, 0x22, 0x2c, 0x22, 0x65, 0x70, 0x68, 0x65, 0x6d, 0x65, 0x72, 0x61,
    0x6c, 0x5f, 0x70, 0x32, 0x35, 0x36, 0x22, 0x3a, 0x22, 0x42, 0x46, 0x4d, 0x4b, 0x74, 0x44, 0x67,
    0x66, 0x6e, 0x58, 0x6d, 0x50, 0x36, 0x58, 0x6f, 0x38, 0x2b, 0x67, 0x74, 0x50, 0x6e, 0x6f, 0x6f,
    0x56, 0x31, 0x46, 0x52, 0x65, 0x6f, 0x56, 0x63, 0x37, 0x38, 0x7a, 0x71, 0x47, 0x32, 0x56, 0x31,
    0x64, 0x64, 0x70, 0x6f, 0x72, 0x2f, 0x46, 0x68, 0x43, 0x7a, 0x64, 0x64, 0x65, 0x41, 0x71, 0x35,
    0x56, 0x45, 0x6f, 0x77, 0x6b, 0x46, 0x53, 0x70, 0x4b, 0x49, 0x31, 0x69, 0x49, 0x65, 0x2f, 0x2b,
    0x35, 0x78, 0x47, 0x2b, 0x66, 0x73, 0x41, 0x2f, 0x38, 0x30, 0x67, 0x61, 0x78, 0x74, 0x5a, 0x30,
    0x3d, 0x22, 0x2c, 0x22, 0x66, 0x61, 0x63, 0x74, 0x73, 0x22, 0x3a, 0x7b, 0x22, 0x61, 0x67, 0x65,
    0x6e, 0x74, 0x5f, 0x76, 0x65, 0x72, 0x73, 0x69, 0x6f, 0x6e, 0x22, 0x3a, 0x22, 0x64, 0x65, 0x76,
    0x22, 0x2c, 0x22, 0x68, 0x6f, 0x73, 0x74, 0x6e, 0x61, 0x6d, 0x65, 0x22, 0x3a, 0x22, 0x74, 0x65,
    0x64, 0x67, 0x65, 0x2d, 0x6d, 0x6f, 0x64, 0x62, 0x75, 0x73, 0x22, 0x2c, 0x22, 0x6d, 0x61, 0x63,
    0x5f, 0x61, 0x64, 0x64, 0x72, 0x65, 0x73, 0x73, 0x65, 0x73, 0x22, 0x3a, 0x5b, 0x22, 0x61, 0x61,
    0x3a, 0x62, 0x62, 0x3a, 0x63, 0x63, 0x3a, 0x64, 0x64, 0x3a, 0x65, 0x65, 0x3a, 0x66, 0x66, 0x22,
    0x5d, 0x2c, 0x22, 0x6d, 0x6f, 0x64, 0x65, 0x6c, 0x22, 0x3a, 0x22, 0x65, 0x73, 0x70, 0x33, 0x32,
    0x63, 0x36, 0x5f, 0x64, 0x65, 0x76, 0x6b, 0x69, 0x74, 0x63, 0x22, 0x2c, 0x22, 0x6f, 0x73, 0x22,
    0x3a, 0x22, 0x7a, 0x65, 0x70, 0x68, 0x79, 0x72, 0x22, 0x7d, 0x2c, 0x22, 0x6d, 0x61, 0x78, 0x5f,
    0x72, 0x65, 0x73, 0x70, 0x6f, 0x6e, 0x73, 0x65, 0x5f, 0x62, 0x79, 0x74, 0x65, 0x73, 0x22, 0x3a,
    0x34, 0x30, 0x39, 0x36, 0x2c, 0x22, 0x6e, 0x6f, 0x6e, 0x63, 0x65, 0x22, 0x3a, 0x22, 0x41, 0x41,
    0x45, 0x43, 0x41, 0x77, 0x51, 0x46, 0x42, 0x67, 0x63, 0x49, 0x43, 0x51, 0x6f, 0x4c, 0x44, 0x41,
    0x30, 0x4f, 0x44, 0x77, 0x3d, 0x3d, 0x22, 0x2c, 0x22, 0x70, 0x72, 0x6f, 0x74, 0x6f, 0x63, 0x6f,
    0x6c, 0x5f, 0x76, 0x65, 0x72, 0x73, 0x69, 0x6f, 0x6e, 0x22, 0x3a, 0x22, 0x31, 0x22, 0x2c, 0x22,
    0x70, 0x75, 0x62, 0x6c, 0x69, 0x63, 0x5f, 0x6b, 0x65, 0x79, 0x22, 0x3a, 0x22, 0x42, 0x4b, 0x7a,
    0x50, 0x41, 0x51, 0x62, 0x76, 0x68, 0x59, 0x2b, 0x69, 0x32, 0x52, 0x6b, 0x7a, 0x45, 0x30, 0x61,
    0x41, 0x57, 0x6e, 0x69, 0x31, 0x69, 0x37, 0x72, 0x51, 0x75, 0x45, 0x54, 0x6c, 0x78, 0x34, 0x6b,
    0x6f, 0x65, 0x52, 0x52, 0x68, 0x68, 0x39, 0x30, 0x6d, 0x5a, 0x71, 0x32, 0x6e, 0x67, 0x62, 0x74,
    0x2f, 0x45, 0x52, 0x4e, 0x79, 0x4a, 0x52, 0x71, 0x4a, 0x45, 0x47, 0x49, 0x66, 0x59, 0x30, 0x33,
    0x78, 0x4b, 0x4b, 0x78, 0x49, 0x34, 0x34, 0x48, 0x39, 0x62, 0x76, 0x6b, 0x47, 0x42, 0x7a, 0x48,
    0x32, 0x6c, 0x4b, 0x51, 0x3d, 0x22, 0x2c, 0x22, 0x72, 0x65, 0x73, 0x70, 0x6f, 0x6e, 0x73, 0x65,
    0x5f, 0x66, 0x6f, 0x72, 0x6d, 0x61, 0x74, 0x22, 0x3a, 0x22, 0x74, 0x65, 0x78, 0x74, 0x22, 0x2c,
    0x22, 0x74, 0x69, 0x6d, 0x65, 0x73, 0x74, 0x61, 0x6d, 0x70, 0x22, 0x3a, 0x22, 0x32, 0x30, 0x32,
    0x36, 0x2d, 0x30, 0x31, 0x2d, 0x30, 0x31, 0x54, 0x31, 0x32, 0x3a, 0x30, 0x30, 0x3a, 0x30, 0x30,
    0x5a, 0x22, 0x7d]"

definition gv_sig :: bytes where
  "gv_sig = [
    0x1c, 0xa8, 0x6f, 0x2f, 0x4d, 0x73, 0x97, 0x40, 0xd3, 0xda, 0x37, 0x41, 0x4f, 0x48, 0x49, 0x2e,
    0x14, 0x31, 0x3d, 0xbd, 0xec, 0xa4, 0x66, 0x83, 0xff, 0xf4, 0xa3, 0x36, 0x89, 0x9d, 0x28, 0xa0,
    0xa7, 0xe5, 0xf2, 0xd1, 0x4e, 0xf3, 0x58, 0x1c, 0xb9, 0x04, 0x33, 0x0d, 0x95, 0x34, 0x80, 0x39,
    0x9c, 0xd4, 0x2a, 0xfd, 0x7c, 0x48, 0x53, 0xf4, 0x5d, 0xd2, 0x96, 0xcc, 0x12, 0x0c, 0xa9, 0x54]"

section \<open>PSA as a function of the bytes\<close>

text \<open>
  Every function returns the answers to the calls made with those bytes: \<open>tp_open\<close> of the scalar of the
  opening key, the peer's point, the nonce and the ciphertext; \<open>tp_verify\<close> of the point, the message and
  the signature. \<open>tp_export\<close> is the public point of an imported scalar.
\<close>

record test_psa =
  tp_init :: psa_status
  tp_import :: "key_attributes \<Rightarrow> bytes \<Rightarrow> psa_status"
  tp_alloc :: "nat set \<Rightarrow> nat"
  tp_export :: "bytes \<Rightarrow> bytes option"
  tp_open :: "bytes \<Rightarrow> bytes \<Rightarrow> bytes \<Rightarrow> bytes \<Rightarrow> psa_answers"
  tp_verify :: "bytes \<Rightarrow> bytes \<Rightarrow> bytes \<Rightarrow> psa_answers"
  tp_public :: psa_answers
  tp_sign :: "bytes \<Rightarrow> psa_answers"
  tp_session :: psa_answers
  tp_base64 :: "bytes \<Rightarrow> string option"

section \<open>The checks\<close>

datatype log_line = Fail string rc int | Pass string int | PublicKey string

record selftest =
  st_crypto :: crypto
  st_failures :: nat
  st_log :: "log_line list"

definition report :: "string \<Rightarrow> rc \<Rightarrow> int \<Rightarrow> int \<Rightarrow> selftest \<Rightarrow> selftest" where
  "report what rc start uptime s =
     (let ms = uptime - start
      in if rc \<noteq> OK then s\<lparr>st_failures := st_failures s + 1, st_log := st_log s @ [Fail what rc ms]\<rparr>
         else s\<lparr>st_log := st_log s @ [Pass what ms]\<rparr>)"

definition check_open_vector :: "test_psa \<Rightarrow> crypto \<Rightarrow> rc \<times> crypto" where
  "check_open_vector p s =
     (if tp_import p ztp_session_key_attributes sv_device_scalar \<noteq> PSA_SUCCESS then (Err EIO, s)
      else
        let key = tp_alloc p (live_keys s);
            s = psa_add_key key s
        in if (case tp_export p sv_device_scalar of
                 None \<Rightarrow> True
               | Some point \<Rightarrow> length point \<noteq> POINT_LEN \<or> point \<noteq> sv_device_point)
           then (Err EINVAL, psa_destroy_key key s)
           else
             let (r, s) = ztp_open_with_key (tp_open p sv_device_scalar sv_server_point sv_nonce sv_ciphertext)
                            sv_ciphertext s;
                 rc = (case r of Inl e \<Rightarrow> Err e | Inr plain \<Rightarrow> if plain \<noteq> sv_plaintext then Err EINVAL else OK);
                 (rc, s) =
                   (if rc = OK
                    then let bad = sv_ciphertext[0 := sv_ciphertext ! 0 XOR 0xff];
                             (r, s) = ztp_open_with_key (tp_open p sv_device_scalar sv_server_point sv_nonce bad) bad s
                         in (if r \<noteq> Inl EBADMSG then Err EFAULT else rc, s)
                    else (rc, s))
             in (rc, psa_destroy_key key s))"

definition check_verify_vector :: "test_psa \<Rightarrow> crypto \<Rightarrow> rc \<times> crypto" where
  "check_verify_vector p s =
     (case ztp_verify (tp_verify p gv_pubkey gv_canon gv_sig) s of
        (Err e, s) \<Rightarrow> (Err e, s)
      | (OK, s) \<Rightarrow>
          let i = length gv_canon div 2;
              canon = gv_canon[i := gv_canon ! i XOR 0x01];
              (rc, s) = ztp_verify (tp_verify p gv_pubkey canon gv_sig) s
          in (if rc = Err EBADMSG then OK else Err EFAULT, s))"

text \<open>With the log line, if the public key could be encoded.\<close>

definition check_identity :: "test_psa \<Rightarrow> crypto \<Rightarrow> rc \<times> log_line list \<times> crypto" where
  "check_identity p s =
     (case ztp_identity_public (tp_public p) s of
        (Inl e, s) \<Rightarrow> (Err e, [], s)
      | (Inr pub, s) \<Rightarrow>
          (case ztp_identity_sign (tp_sign p gv_canon) s of
             (Inl e, s) \<Rightarrow> (Err e, [], s)
           | (Inr sig, s) \<Rightarrow>
               let (rc, s) = ztp_verify (tp_verify p pub gv_canon sig) s
               in (rc, if rc = OK then (case tp_base64 p pub of Some b64 \<Rightarrow> [PublicKey b64] | None \<Rightarrow> []) else [], s)))"

definition check_session :: "test_psa \<Rightarrow> crypto \<Rightarrow> rc \<times> crypto" where
  "check_session p s =
     (let (r, s) = ztp_session_new (tp_session p) s
      in (case r of Inl e \<Rightarrow> Err e | Inr pub \<Rightarrow> OK, ztp_session_end s))"

text \<open>\<open>clk\<close> has the eight readings of the uptime, two around each check.\<close>

definition ztp_selftest_run :: "rc \<Rightarrow> test_psa \<Rightarrow> (nat \<Rightarrow> int) \<Rightarrow> selftest \<Rightarrow> rc \<times> selftest" where
  "ztp_selftest_run settings_rc p clk s =
     (let s = s\<lparr>st_failures := 0\<rparr>
      in if settings_rc \<noteq> OK then (settings_rc, s)
         else if ztp_crypto_init (tp_init p) \<noteq> OK then (ztp_crypto_init (tp_init p), s)
         else
           let (rc, c) = check_open_vector p (st_crypto s);
               s = report ''open sealed c8y.v2 vector'' rc (clk 0) (clk 1) (s\<lparr>st_crypto := c\<rparr>);
               (rc, c) = check_verify_vector p (st_crypto s);
               s = report ''verify server signature vector'' rc (clk 2) (clk 3) (s\<lparr>st_crypto := c\<rparr>);
               (rc, ls, c) = check_identity p (st_crypto s);
               s = report ''identity key sign + verify'' rc (clk 4) (clk 5) (s\<lparr>st_crypto := c, st_log := st_log s @ ls\<rparr>);
               (rc, c) = check_session p (st_crypto s);
               s = report ''new session key'' rc (clk 6) (clk 7) (s\<lparr>st_crypto := c\<rparr>)
           in (if st_failures s \<noteq> 0 then Err EIO else OK, s))"

section \<open>The model agrees with the reference vectors\<close>

definition vector_request :: request_info where
  "vector_request = \<lparr>ri_device_id = Some ''zephyr-aabbccddeeff'', ri_hostname = Some ''tedge-modbus'',
     ri_model = Some ''esp32c6_devkitc'', ri_mac = Some ''aa:bb:cc:dd:ee:ff'', ri_agent_version = Some ''dev'',
     ri_unix_s = 1767268800, ri_max_response = 4096\<rparr>"

lemma vector_time: "ztp_format_rfc3339 1767268800 = ''2026-01-01T12:00:00Z''"
  by code_simp

lemma vector_room: "dec_int 4096 = ''4096''"
  by code_simp

text \<open>
  The bytes the device would sign for the fields of the server's reference vector are the vector, byte
  for byte: the format string of the device and the canonical JSON of the Go implementation agree.
\<close>

theorem request_matches_reference:
  "map_sum id ascii (ztp_request_canonical vector_request ''AAECAwQFBgcICQoLDA0ODw==''
     ''BKzPAQbvhY+i2RkzE0aAWni1i7rQuETlx4koeRRhh90mZq2ngbt/ERNyJRqJEGIfY03xKKxI44H9bvkGBzH2lKQ=''
     ''BFMKtDgfnXmP6Xo8+gtPnooV1FReoVc78zqG2V1ddpor/FhCzddeAq5VEowkFSpKI1iIe/+5xG+fsA/80gaxtZ0='' CANON_MAX)
   = Inr gv_canon"
proof -
  have plain: "list_ex (\<lambda>s. s = None \<or> \<not> json_plain (the s))
      [ri_device_id vector_request, ri_hostname vector_request, ri_model vector_request, ri_mac vector_request,
       ri_agent_version vector_request] = False"
    by code_simp
  show ?thesis
    unfolding ztp_request_canonical_def Let_def plain if_False
    by (simp add: vector_request_def vector_time vector_room mac_field_def quot_def CANON_MAX_def ascii_def gv_canon_def)
qed

text \<open>
  The plaintext of the sealed vector, as \<open>ztp_apply.c\<close> takes it: the four values of the server's bundle.
\<close>

definition vector_bundle :: prov_c8y where
  "vector_bundle = \<lparr>url = ''example.cumulocity.com'', tenant = ''t12345'', external_id = ''zephyr-aabbccddeeff'',
     otp = ''vector-token''\<rparr>"

lemma vector_walk: "ini_walk c8y_ini [] (chars sv_plaintext) c8y_empty = (OK, vector_bundle)"
  by code_simp

theorem reference_bundle_staged: "c8y_stage (chars sv_plaintext) s = (OK, s\<lparr>a_c8y := vector_bundle\<rparr>)"
  by (simp add: c8y_stage_def Let_def c8y_reset_def vector_walk vector_bundle_def)

section \<open>What the self-test decides\<close>

text \<open>What one opening and one verification come to, from PSA's answers alone.\<close>

definition unsealed :: "psa_answers \<Rightarrow> errno + bytes" where
  "unsealed io =
     (if \<not> (ps_setup io = PSA_SUCCESS \<and> ps_agreement io = PSA_SUCCESS \<and> ps_info io = PSA_SUCCESS
            \<and> ps_output io = PSA_SUCCESS) then Inl EIO
      else case fst (ps_decrypt io) of
          PSA_SUCCESS \<Rightarrow> Inr (snd (ps_decrypt io))
        | PSA_ERROR_INVALID_SIGNATURE \<Rightarrow> Inl EBADMSG
        | PSA_ERROR_OTHER \<Rightarrow> Inl EIO)"

definition verified :: "psa_answers \<Rightarrow> rc" where
  "verified io =
     (if ps_import io \<noteq> PSA_SUCCESS then Err EINVAL
      else case ps_verify io of
          PSA_SUCCESS \<Rightarrow> OK
        | PSA_ERROR_INVALID_SIGNATURE \<Rightarrow> Err EBADMSG
        | PSA_ERROR_OTHER \<Rightarrow> Err EIO)"

definition fresh_ids :: "(nat set \<Rightarrow> nat) \<Rightarrow> bool" where
  "fresh_ids f \<longleftrightarrow> (\<forall>K. finite K \<longrightarrow> f K \<notin> K \<and> f K \<noteq> IDENTITY_KEY_ID \<and> f K \<noteq> PSA_KEY_ID_NULL)"

definition test_fresh :: "test_psa \<Rightarrow> bool" where
  "test_fresh p \<longleftrightarrow> fresh_ids (tp_alloc p) \<and> (\<forall>k x n c. fresh_alloc (tp_open p k x n c))
     \<and> (\<forall>k m x. fresh_alloc (tp_verify p k m x)) \<and> fresh_alloc (tp_public p)
     \<and> (\<forall>m. fresh_alloc (tp_sign p m)) \<and> fresh_alloc (tp_session p)"

lemma open_with_key_eq:
  assumes "fresh_alloc io" "finite (live_keys s)"
  shows "ztp_open_with_key io ct s = (if length ct < TAG_LEN then Inl EBADMSG else unsealed io, s)"
  using assms
  by (auto simp: ztp_open_with_key_def derive_aead_key_def unsealed_def fresh_alloc_def Let_def temporary_key
      split: psa_status.split prod.split)

lemma verify_eq:
  assumes "fresh_alloc io" "finite (live_keys s)"
  shows "ztp_verify io s = (verified io, s)"
  using assms
  by (auto simp: ztp_verify_def verified_def fresh_alloc_def Let_def temporary_key split: psa_status.split)

text \<open>Agreement with the server, check by check.\<close>

definition flip :: "nat \<Rightarrow> byte \<Rightarrow> bytes \<Rightarrow> bytes" where
  "flip i m bs = bs[i := bs ! i XOR m]"

definition seals_agree :: "test_psa \<Rightarrow> bool" where
  "seals_agree p \<longleftrightarrow> tp_import p ztp_session_key_attributes sv_device_scalar = PSA_SUCCESS
     \<and> tp_export p sv_device_scalar = Some sv_device_point
     \<and> unsealed (tp_open p sv_device_scalar sv_server_point sv_nonce sv_ciphertext) = Inr sv_plaintext
     \<and> unsealed (tp_open p sv_device_scalar sv_server_point sv_nonce (flip 0 0xff sv_ciphertext)) = Inl EBADMSG"

definition signatures_agree :: "test_psa \<Rightarrow> bool" where
  "signatures_agree p \<longleftrightarrow> verified (tp_verify p gv_pubkey gv_canon gv_sig) = OK
     \<and> verified (tp_verify p gv_pubkey (flip 281 1 gv_canon) gv_sig) = Err EBADMSG"

definition identity_agrees :: "test_psa \<Rightarrow> bool \<Rightarrow> bool" where
  "identity_agrees p enrolled \<longleftrightarrow>
     (if enrolled then ps_attributes (tp_public p) else ps_generate (tp_public p)) = PSA_SUCCESS
     \<and> ps_attributes (tp_sign p gv_canon) = PSA_SUCCESS \<and> fst (ps_sign (tp_sign p gv_canon)) = PSA_SUCCESS
     \<and> length (snd (ps_sign (tp_sign p gv_canon))) = SIG_LEN
     \<and> (case ps_export (tp_public p) of
          None \<Rightarrow> False
        | Some pub \<Rightarrow> length pub = POINT_LEN
            \<and> verified (tp_verify p pub gv_canon (snd (ps_sign (tp_sign p gv_canon)))) = OK)"

definition session_agrees :: "test_psa \<Rightarrow> bool" where
  "session_agrees p \<longleftrightarrow> ps_generate (tp_session p) = PSA_SUCCESS
     \<and> (case ps_export (tp_session p) of None \<Rightarrow> False | Some pub \<Rightarrow> length pub = POINT_LEN)"

lemma vector_lengths:
  "length sv_device_point = POINT_LEN" "\<not> length sv_ciphertext < TAG_LEN" "length gv_canon div 2 = 281"
  "length (flip i m bs) = length bs"
  by (simp_all add: sv_device_point_def sv_ciphertext_def gv_canon_def POINT_LEN_def TAG_LEN_def flip_def)

lemma check_open_eq:
  assumes "test_fresh p" "finite (live_keys s)"
  shows "snd (check_open_vector p s) = s" "fst (check_open_vector p s) = OK \<longleftrightarrow> seals_agree p"
proof -
  let ?key = "tp_alloc p (live_keys s)"
  have key: "psa_destroy_key ?key (psa_add_key ?key s) = s" "finite (live_keys (psa_add_key ?key s))"
    using assms by (simp_all add: test_fresh_def fresh_ids_def temporary_key, simp add: psa_add_key_def)
  have op: "ztp_open_with_key (tp_open p k x n c) ct (psa_add_key ?key s) =
      (if length ct < TAG_LEN then Inl EBADMSG else unsealed (tp_open p k x n c), psa_add_key ?key s)" for k x n c ct
    using assms(1) key(2) by (intro open_with_key_eq) (simp_all add: test_fresh_def)
  show "snd (check_open_vector p s) = s"
    by (simp add: check_open_vector_def Let_def op key(1) split: option.split sum.split)
  show "fst (check_open_vector p s) = OK \<longleftrightarrow> seals_agree p"
    using vector_lengths(1, 2) vector_lengths(4) [of 0 "0xff" sv_ciphertext]
    by (auto simp: check_open_vector_def Let_def op seals_agree_def flip_def [symmetric] split: option.split sum.split)
qed

lemma check_verify_eq:
  assumes "test_fresh p" "finite (live_keys s)"
  shows "snd (check_verify_vector p s) = s" "fst (check_verify_vector p s) = OK \<longleftrightarrow> signatures_agree p"
proof -
  have v: "ztp_verify (tp_verify p k m x) s = (verified (tp_verify p k m x), s)" for k m x
    using assms by (intro verify_eq) (simp_all add: test_fresh_def)
  show "snd (check_verify_vector p s) = s"
    by (simp add: check_verify_vector_def Let_def v split: rc.split)
  show "fst (check_verify_vector p s) = OK \<longleftrightarrow> signatures_agree p"
    by (auto simp: check_verify_vector_def Let_def v signatures_agree_def vector_lengths(3) flip_def [symmetric]
        split: rc.split)
qed

lemma ensured_keys: "keys_ok had s \<Longrightarrow> fst (ensure_identity io s) = OK \<Longrightarrow>
    IDENTITY_KEY_ID \<in> live_keys (snd (ensure_identity io s)) \<and> session_key (snd (ensure_identity io s)) = session_key s"
  by (auto simp: ensure_identity_def psa_add_key_def split: if_splits)

lemma ensure_ok: "fst (ensure_identity io s) = OK \<longleftrightarrow>
    (if IDENTITY_KEY_ID \<in> live_keys s then ps_attributes io else ps_generate io) = PSA_SUCCESS"
  by (simp add: ensure_identity_def)

lemma ensure_session: "session_key (snd (ensure_identity io s)) = session_key s"
  by (simp add: ensure_identity_def psa_add_key_def)

lemma check_identity_eq:
  assumes "test_fresh p" "keys_ok had s"
  shows "keys_ok had (snd (snd (check_identity p s)))"
    "session_key (snd (snd (check_identity p s))) = session_key s"
    "fst (check_identity p s) = OK \<longleftrightarrow> identity_agrees p (IDENTITY_KEY_ID \<in> live_keys s)"
proof -
  obtain r1 t where e1: "ensure_identity (tp_public p) s = (r1, t)" by fastforce
  obtain r2 u where e2: "ensure_identity (tp_sign p gv_canon) t = (r2, u)" by fastforce
  have t: "keys_ok had t" "session_key t = session_key s"
    using ensure_identity_ok [OF assms(2), of "tp_public p"] ensure_session [of "tp_public p" s] by (simp_all add: e1)
  have u: "keys_ok had u" "session_key u = session_key s"
    using ensure_identity_ok [OF t(1), of "tp_sign p gv_canon"] ensure_session [of "tp_sign p gv_canon" t] t(2)
    by (simp_all add: e2)
  have v: "ztp_verify (tp_verify p k m x) u = (verified (tp_verify p k m x), u)" for k m x
    using assms(1) u(1) by (intro verify_eq) (simp_all add: test_fresh_def keys_ok_def)
  have r1: "r1 = OK \<longleftrightarrow> (if IDENTITY_KEY_ID \<in> live_keys s then ps_attributes (tp_public p)
      else ps_generate (tp_public p)) = PSA_SUCCESS"
    using ensure_ok [of "tp_public p" s] by (simp add: e1)
  have "r1 = OK \<Longrightarrow> IDENTITY_KEY_ID \<in> live_keys t"
    using ensured_keys [OF assms(2), of "tp_public p"] by (simp add: e1)
  then have r2: "r1 = OK \<Longrightarrow> r2 = OK \<longleftrightarrow> ps_attributes (tp_sign p gv_canon) = PSA_SUCCESS"
    using ensure_ok [of "tp_sign p gv_canon" t] by (simp add: e2)
  show "keys_ok had (snd (snd (check_identity p s)))"
      "session_key (snd (snd (check_identity p s))) = session_key s"
    using t u assms(2)
    by (auto simp: check_identity_def ztp_identity_public_def ztp_identity_sign_def e1 e2 v
        split: rc.split option.split prod.split)
  show "fst (check_identity p s) = OK \<longleftrightarrow> identity_agrees p (IDENTITY_KEY_ID \<in> live_keys s)"
  proof (cases "r1 = OK")
    case True
    then show ?thesis
      using r1 r2 [OF True]
      by (auto simp: check_identity_def ztp_identity_public_def ztp_identity_sign_def e1 e2 v identity_agrees_def
          split: rc.split option.split prod.split)
  next
    case False
    then obtain e where e: "r1 = Err e" by (cases r1) auto
    then show ?thesis
      using r1 by (simp add: check_identity_def ztp_identity_public_def e1 identity_agrees_def)
  qed
qed

lemma check_session_eq:
  assumes "test_fresh p" "keys_ok had s"
  shows "keys_ok had (snd (check_session p s))" "session_key (snd (check_session p s)) = PSA_KEY_ID_NULL"
    "fst (check_session p s) = OK \<longleftrightarrow> session_agrees p"
proof -
  have "keys_ok had (snd (ztp_session_new (tp_session p) s))"
    using assms by (intro session_new_ok) (simp_all add: test_fresh_def)
  from session_end_ok [OF this]
  show "keys_ok had (snd (check_session p s))" "session_key (snd (check_session p s)) = PSA_KEY_ID_NULL"
    by (simp_all add: check_session_def case_prod_unfold Let_def)
  show "fst (check_session p s) = OK \<longleftrightarrow> session_agrees p"
    by (simp add: check_session_def session_agrees_def ztp_session_new_def Let_def
        split: prod.split sum.split option.split)
qed

text \<open>One report, as the verdict counts it.\<close>

definition verdict_lines :: "log_line list \<Rightarrow> log_line list" where
  "verdict_lines ls = filter (\<lambda>l. case l of PublicKey _ \<Rightarrow> False | _ \<Rightarrow> True) ls"

lemma report_simps [simp]:
  "st_crypto (report w rc a b s) = st_crypto s"
  "st_failures (report w rc a b s) = st_failures s + of_bool (rc \<noteq> OK)"
  "st_log (report w rc a b s) = st_log s @ [if rc = OK then Pass w (b - a) else Fail w rc (b - a)]"
  by (simp_all add: report_def Let_def)

lemma verdict_lines_simps [simp]:
  "verdict_lines (xs @ ys) = verdict_lines xs @ verdict_lines ys" "verdict_lines [] = []"
  "verdict_lines (Pass w i # xs) = Pass w i # verdict_lines xs" "verdict_lines (Fail w rc i # xs) = Fail w rc i # verdict_lines xs"
  "verdict_lines (PublicKey b # xs) = verdict_lines xs"
  by (simp_all add: verdict_lines_def)

lemma identity_no_verdict: "verdict_lines (fst (snd (check_identity p s))) = []"
  by (simp add: check_identity_def case_prod_unfold Let_def split: rc.split sum.split option.split)

text \<open>
  C27. The self-test says what it means. It passes exactly if PSA came up and agrees with the server's
  vectors: the sealed vector opens to its plaintext and one flipped byte is an authentication failure,
  the server's signature verifies and stops verifying when one byte of the message changes, a signature of
  the identity key verifies under the exported point, and a session key can be made. No check is
  skipped because another failed: each is reported once and every failure is counted. Whatever
  fails, the vector's key and the session key are gone afterwards and the identity key is kept.
\<close>

theorem selftest_verdict:
  assumes "test_fresh p" "keys_ok had (st_crypto s)" "session_key (st_crypto s) = PSA_KEY_ID_NULL"
  defines "enrolled \<equiv> IDENTITY_KEY_ID \<in> live_keys (st_crypto s)"
  shows "case ztp_selftest_run settings_rc p clk s of (rc, t) \<Rightarrow>
    (rc = OK \<longleftrightarrow> settings_rc = OK \<and> tp_init p = PSA_SUCCESS \<and> seals_agree p \<and> signatures_agree p
       \<and> identity_agrees p enrolled \<and> session_agrees p)
    \<and> (settings_rc = OK \<and> tp_init p = PSA_SUCCESS \<longrightarrow>
         st_failures t = of_bool (\<not> seals_agree p) + of_bool (\<not> signatures_agree p)
           + of_bool (\<not> identity_agrees p enrolled) + of_bool (\<not> session_agrees p)
         \<and> length (verdict_lines (st_log t)) = length (verdict_lines (st_log s)) + 4)
    \<and> keys_ok had (st_crypto t) \<and> live_keys (st_crypto t) \<subseteq> {IDENTITY_KEY_ID}"
proof -
  let ?c = "st_crypto s"
  have fin: "finite (live_keys ?c)" using assms(2) by (simp add: keys_ok_def)
  obtain r1 where c1: "check_open_vector p ?c = (r1, ?c)" "r1 = OK \<longleftrightarrow> seals_agree p"
    using check_open_eq [OF assms(1) fin] by (metis prod.collapse)
  obtain r2 where c2: "check_verify_vector p ?c = (r2, ?c)" "r2 = OK \<longleftrightarrow> signatures_agree p"
    using check_verify_eq [OF assms(1) fin] by (metis prod.collapse)
  obtain r3 ls c where c3: "check_identity p ?c = (r3, ls, c)" by (metis surj_pair)
  then have k3: "keys_ok had c" "session_key c = PSA_KEY_ID_NULL" "r3 = OK \<longleftrightarrow> identity_agrees p enrolled"
    using check_identity_eq [OF assms(1, 2)] assms(3) by (simp_all add: enrolled_def)
  have ls: "verdict_lines ls = []" using identity_no_verdict [of p ?c] by (simp add: c3)
  obtain r4 d where c4: "check_session p c = (r4, d)" by (metis surj_pair)
  then have k4: "keys_ok had d" "session_key d = PSA_KEY_ID_NULL" "r4 = OK \<longleftrightarrow> session_agrees p"
    using check_session_eq [OF assms(1) k3(1)] by simp_all
  have gone: "keys_ok had x \<Longrightarrow> session_key x = PSA_KEY_ID_NULL \<Longrightarrow> live_keys x \<subseteq> {IDENTITY_KEY_ID}" for x
    by (auto simp: keys_ok_def)
  show ?thesis
    using gone [OF assms(2, 3)] gone [OF k4(1, 2)] assms(2) c1(2) c2(2) k3(3) k4
    by (simp add: ztp_selftest_run_def Let_def ztp_crypto_init_def c1(1) c2(1) c3 c4 ls)
qed

text \<open>A PSA that agrees with the vectors and rejects everything else.\<close>

definition agreeing_psa :: test_psa where
  "agreeing_psa =
     \<lparr>tp_init = PSA_SUCCESS, tp_import = (\<lambda>a k. PSA_SUCCESS), tp_alloc = next_id,
      tp_export = (\<lambda>k. if k = sv_device_scalar then Some sv_device_point else None),
      tp_open = (\<lambda>k x n c. sample_answers\<lparr>ps_decrypt :=
        (if c = sv_ciphertext then (PSA_SUCCESS, sv_plaintext) else (PSA_ERROR_INVALID_SIGNATURE, []))\<rparr>),
      tp_verify = (\<lambda>k m x. sample_answers\<lparr>ps_verify :=
        (if m = gv_canon then PSA_SUCCESS else PSA_ERROR_INVALID_SIGNATURE)\<rparr>),
      tp_public = sample_answers, tp_sign = (\<lambda>m. sample_answers), tp_session = sample_answers,
      tp_base64 = (\<lambda>b. None)\<rparr>"

lemma agreeing_fresh: "test_fresh agreeing_psa"
proof -
  have f: "fresh_ids next_id" using sample_fresh by (simp add: fresh_alloc_def fresh_ids_def sample_answers_def)
  then have "fresh_alloc io" if "ps_alloc io = next_id" for io using that by (simp add: fresh_alloc_def fresh_ids_def)
  with f show ?thesis by (simp add: test_fresh_def agreeing_psa_def sample_answers_def)
qed

lemma agreeing_agrees:
  "seals_agree agreeing_psa" "signatures_agree agreeing_psa" "identity_agrees agreeing_psa e" "session_agrees agreeing_psa"
proof -
  have "flip 0 0xff sv_ciphertext \<noteq> sv_ciphertext" by (simp add: flip_def sv_ciphertext_def)
  then show "seals_agree agreeing_psa"
    by (simp add: seals_agree_def agreeing_psa_def unsealed_def sample_answers_def)
  have "flip 281 1 gv_canon ! 281 \<noteq> gv_canon ! 281" by (simp add: flip_def gv_canon_def)
  then have "flip 281 1 gv_canon \<noteq> gv_canon" by metis
  then show "signatures_agree agreeing_psa"
    by (simp add: signatures_agree_def agreeing_psa_def verified_def sample_answers_def)
qed (simp_all add: identity_agrees_def session_agrees_def agreeing_psa_def verified_def sample_answers_def
    POINT_LEN_def SIG_LEN_def)

theorem selftest_verdict_witness:
  "fst (ztp_selftest_run OK agreeing_psa (\<lambda>n. 3 * int n)
     \<lparr>st_crypto = crypto_boot False, st_failures = 7, st_log = []\<rparr>) = OK"
proof -
  let ?s = "\<lparr>st_crypto = crypto_boot False, st_failures = 7, st_log = []\<rparr>"
  have "keys_ok False (st_crypto ?s)" "session_key (st_crypto ?s) = PSA_KEY_ID_NULL"
    using identity_not_null by (simp_all add: keys_ok_def crypto_boot_def)
  from selftest_verdict [OF agreeing_fresh this, of OK "\<lambda>n. 3 * int n"]
  show ?thesis using agreeing_agrees by (simp add: case_prod_unfold agreeing_psa_def)
qed

end
