(* ===== verification/Provisioning.thy ===== *)
theory Provisioning
  imports Onboarding Firmware
begin

text \<open>
  Zero-touch provisioning from end to end: a bundle as the server writes it, the response that carries it,
  the turn of the provisioner that applies it, and the next boot of the application, which joins the network
  of the bundle and hands its Cumulocity data to the client. Composes \<open>Ztp_Manifest\<close>, \<open>Ztp_Apply\<close>,
  \<open>Ztp_Run\<close>, \<open>Boot\<close>, \<open>Settings\<close>, \<open>Onboarding\<close> and \<open>Firmware\<close>.
\<close>

section \<open>What the server sends\<close>

text \<open>The body of a \<^verbatim>\<open>c8y.v2\<close> module, the manifest with its two modules, and the response around it.
  \<open>wb\<close>, \<open>cb\<close> and \<open>mb\<close> are the base64 texts of the two bodies and of the manifest.\<close>

definition render_c8y :: "prov_c8y \<Rightarrow> string" where
  "render_c8y c = ''[c8y]'' @ NL # ''url='' @ url c @ NL # ''tenant='' @ tenant c @ NL #
     ''external_id='' @ external_id c @ NL # ''one_time_password='' @ otp c @ [NL]"

definition manifest_text :: "string \<Rightarrow> string \<Rightarrow> string \<Rightarrow> string" where
  "manifest_text dev wb cb = concat (map (kv_line False)
     [(''protocol_version'', ''1''), (''device_id'', dev), (''module'', ''wifi.v2 '' @ wb), (''module'', ''c8y.v2 '' @ cb)])"

definition response_text :: "string \<Rightarrow> string" where
  "response_text mb = concat (map (kv_line False)
     [(''protocol_version'', ''1''), (''status'', ''accepted''), (''manifest.payload'', mb)])"

definition word_text :: "string \<Rightarrow> bool" where
  "word_text w \<longleftrightarrow> w \<noteq> [] \<and> NL \<notin> set w \<and> CR \<notin> set w \<and> CHR '' '' \<notin> set w"

definition c8y_ok :: "prov_c8y \<Rightarrow> bool" where
  "c8y_ok c \<longleftrightarrow> c8y_fits c \<and> url c \<noteq> [] \<and> external_id c \<noteq> [] \<and> otp c \<noteq> []
     \<and> plain_text (url c) \<and> plain_text (tenant c) \<and> plain_text (external_id c) \<and> plain_text (otp c)"

section \<open>Reading it\<close>

lemma ini_walk_section:
  assumes "plain_text name"
  shows "ini_walk fn sec (CHR ''['' # name @ CHR '']'' # NL # rest) s =
    (case fn name None s of (OK, s) \<Rightarrow> ini_walk fn name rest s | (Err e, s) \<Rightarrow> (Err e, s))"
proof -
  let ?line = "CHR ''['' # name @ [CHR '']'']"
  have pl: "plain_text ?line" using assms by (simp add: plain_text_def NL_def CR_def)
  have eq: "CHR ''['' # name @ CHR '']'' # NL # rest = ?line @ NL # rest" by simp
  show ?thesis
    unfolding eq ini_walk.simps [of fn sec "?line @ NL # rest"] Let_def ini_line(1, 2) [OF pl]
    by (simp add: CR_def butlast_append cong: rc.case_cong)
qed

lemma c8y_body_read:
  assumes "c8y_ok c"
  shows "ini_walk c8y_ini [] (render_c8y c) c8y_empty = (OK, c)"
proof -
  note ok = assms [unfolded c8y_ok_def c8y_fits_def]
  have pl: "plain_text (''url'' @ url c)" "plain_text (''tenant'' @ tenant c)"
    "plain_text (''external_id'' @ external_id c)" "plain_text (''one_time_password'' @ otp c)" "plain_text ''c8y''"
    using ok by (simp_all add: plain_text_def NL_def CR_def)
  have shape: "render_c8y c = CHR ''['' # ''c8y'' @ CHR '']'' # NL # ''url'' @ CHR ''='' # url c @ NL #
      ''tenant'' @ CHR ''='' # tenant c @ NL # ''external_id'' @ CHR ''='' # external_id c @ NL #
      ''one_time_password'' @ CHR ''='' # otp c @ NL # []"
    by (simp add: render_c8y_def)
  have key: "CHR ''='' \<notin> set ''url''" "''url'' \<noteq> []" "hd ''url'' \<noteq> CHR ''[''"
    "CHR ''='' \<notin> set ''tenant''" "''tenant'' \<noteq> []" "hd ''tenant'' \<noteq> CHR ''[''"
    "CHR ''='' \<notin> set ''external_id''" "''external_id'' \<noteq> []" "hd ''external_id'' \<noteq> CHR ''[''"
    "CHR ''='' \<notin> set ''one_time_password''" "''one_time_password'' \<noteq> []" "hd ''one_time_password'' \<noteq> CHR ''[''"
    by simp_all
  note kv = ini_walk_kv [OF pl(1) key(1-3)] ini_walk_kv [OF pl(2) key(4-6)] ini_walk_kv [OF pl(3) key(7-9)]
    ini_walk_kv [OF pl(4) key(10-12)]
  have vals: "c8y_ini ''c8y'' None x = (OK, x)"
    "c8y_ini ''c8y'' (Some (''url'', url c)) x = (OK, x\<lparr>url := url c\<rparr>)"
    "c8y_ini ''c8y'' (Some (''tenant'', tenant c)) x = (OK, x\<lparr>tenant := tenant c\<rparr>)"
    "c8y_ini ''c8y'' (Some (''external_id'', external_id c)) x = (OK, x\<lparr>external_id := external_id c\<rparr>)"
    "c8y_ini ''c8y'' (Some (''one_time_password'', otp c)) x = (OK, x\<lparr>otp := otp c\<rparr>)" for x
    using ok by (simp_all add: c8y_ini_def copy_val_def)
  show ?thesis
    unfolding shape ini_walk_section [OF pl(5)] vals prod.case rc.case kv by (simp add: ini_walk.simps)
qed

lemma kv_next_unfold:
  "line_ok (k, v) \<Longrightarrow> ztp_kv_next (concat (map (kv_line b) ((k, v) # kvs))) = Some ((k, v), concat (map (kv_line b) kvs))"
  by (simp add: kv_next_line)

lemma module_fields:
  assumes "word_text t" "word_text p"
  shows "next_fields 2 (t @ CHR '' '' # p) = Some [t, p]"
proof -
  have hd: "dropWhile (\<lambda>c. c = CHR '' '') (w @ x) = w @ x" if "word_text w" for w x
    using that by (cases w) (auto simp: word_text_def)
  have tl: "takeWhile (\<lambda>c. c \<noteq> CHR '' '') w = w" "dropWhile (\<lambda>c. c \<noteq> CHR '' '') w = []"
    "takeWhile (\<lambda>c. c \<noteq> CHR '' '') (w @ CHR '' '' # x) = w" "dropWhile (\<lambda>c. c \<noteq> CHR '' '') (w @ CHR '' '' # x) = CHR '' '' # x"
    if "word_text w" for w x
    using that by (auto simp: word_text_def takeWhile_append dropWhile_append)
  have ne: "t \<noteq> []" "p \<noteq> []" using assms by (simp_all add: word_text_def)
  moreover have "\<exists>x \<in> set p. x \<noteq> CHR '' ''" using assms(2) by (cases p) (auto simp: word_text_def)
  ultimately show ?thesis
    using hd [OF assms(1)] hd [OF assms(2), of "[]"]
    by (simp add: next_field_def Let_def tl [OF assms(1)] tl [OF assms(2)] numeral_2_eq_2)
qed

text \<open>A module line is read with its two fields; a header line in front of it is passed over.\<close>

lemma next_module_line:
  assumes "word_text t" "word_text p"
  shows "ztp_manifest_next_module (concat (map (kv_line b) ((''module'', t @ CHR '' '' # p) # kvs)))
    = Module \<lparr>mtype = t, sealed = False, payload = p, mformat = [], eph = [], nonce = [], ciphertext = []\<rparr>
        (concat (map (kv_line b) kvs))"
proof -
  have l: "line_ok (''module'', t @ CHR '' '' # p)"
  proof -
    have "last p \<noteq> CR" using assms(2) last_in_set unfolding word_text_def by metis
    then show ?thesis using assms by (simp add: line_ok_def word_text_def) (simp add: NL_def)
  qed
  show ?thesis
    by (subst ztp_manifest_next_module.simps) (simp only: kv_next_unfold [OF l], simp add: module_fields [OF assms])
qed

lemma next_module_skip:
  assumes "line_ok (k, v)" "k \<noteq> ''module''" "k \<noteq> ''module-sealed''"
  shows "ztp_manifest_next_module (concat (map (kv_line b) ((k, v) # kvs)))
    = ztp_manifest_next_module (concat (map (kv_line b) kvs))"
  by (subst ztp_manifest_next_module.simps) (simp only: kv_next_unfold [OF assms(1)], simp add: assms(2, 3))

lemma next_module_end: "ztp_manifest_next_module [] = NoMoreModules"
  by (simp add: ztp_manifest_next_module.simps ztp_kv_next.simps)

section \<open>Staging and committing the bundle\<close>

lemma manifest_lines_ok:
  assumes "dev \<noteq> []" "plain_text dev" "word_text wb" "word_text cb"
  shows "list_all line_ok [(''protocol_version'', ''1''), (''device_id'', dev), (''module'', ''wifi.v2 '' @ wb),
    (''module'', ''c8y.v2 '' @ cb)]"
proof -
  have "last w \<noteq> CR" if "w \<noteq> []" "CR \<notin> set w" for w using that last_in_set by metis
  then show ?thesis
    using assms by (auto simp: line_ok_def word_text_def plain_text_def NL_def CR_def)
qed

lemma manifest_header_read:
  assumes "dev \<noteq> []" "plain_text dev" "word_text wb" "word_text cb"
  shows "ztp_manifest_hdr.device_id (ztp_manifest_header (manifest_text dev wb cb)) = dev"
    "hdr_version_ok (ztp_manifest_header (manifest_text dev wb cb))"
  using kv_all_lines [of _ False] manifest_lines_ok [OF assms]
  by (simp_all only: ztp_manifest_header_def manifest_text_def list_all_iff) simp_all

lemma stage_manifest:
  assumes "dev \<noteq> []" "plain_text dev" "word_text wb" "word_text cb"
    and "e_b64 env 1024 wb = Some wtext" "e_b64 env 1024 cb = Some ctext"
    and "wifi_stage wtext s = (OK, u)" "c8y_stage ctext u = (OK, v)"
  shows "stage_modules env (manifest_text dev wb cb) [] s = (Inr [C8y_v2, Wifi_v2], v)"
proof -
  note l = manifest_lines_ok [OF assms(1-4)]
  have w: "word_text ''wifi.v2''" "word_text ''c8y.v2''" by (simp_all add: word_text_def NL_def CR_def)
  let ?ls = "[(''module'', ''wifi.v2 '' @ wb), (''module'', ''c8y.v2 '' @ cb)]"
  define rest where "rest = concat (map (kv_line False) [(''module'', ''c8y.v2 '' @ cb)])"
  have m1: "ztp_manifest_next_module (manifest_text dev wb cb) = Module \<lparr>mtype = ''wifi.v2'', sealed = False, payload = wb,
      mformat = [], eph = [], nonce = [], ciphertext = []\<rparr> rest"
    unfolding manifest_text_def rest_def
    using next_module_skip [of "''protocol_version''" "''1''" False "(''device_id'', dev) # ?ls"]
      next_module_skip [of "''device_id''" dev False ?ls]
      next_module_line [OF w(1) assms(3), of False "[(''module'', ''c8y.v2 '' @ cb)]"] l by simp
  have m2: "ztp_manifest_next_module rest = Module \<lparr>mtype = ''c8y.v2'', sealed = False, payload = cb,
      mformat = [], eph = [], nonce = [], ciphertext = []\<rparr> []"
    using next_module_line [OF w(2) assms(4), of False "[]"] by (simp add: rest_def)
  have find: "find_applier ''wifi.v2'' = Some Wifi_v2" "find_applier ''c8y.v2'' = Some C8y_v2"
    by (simp_all add: find_applier_def appliers_def)
  show ?thesis
    by (simp add: stage_modules.simps [of env "manifest_text dev wb cb"] m1 find module_payload_def assms(5, 7)
        stage_modules.simps [of env rest] m2 assms(6, 8) stage_modules.simps [of env "[]"] next_module_end)
qed

lemma bundle_applied:
  assumes "dev \<noteq> []" "plain_text dev" "word_text wb" "word_text cb"
    and "e_b64 env 1024 wb = Some (concat (map render_net ns))" "e_b64 env 1024 cb = Some (render_c8y c)"
    and "ns \<noteq> []" "list_all net_ok ns" "c8y_ok c" "e_settings env = settings_work"
    and "\<And>n. n \<in> set ns \<Longrightarrow> e_join env (net_creds n) = OK \<and> e_set_personal env (net_creds n) = OK"
  obtains i where "i < length ns" "\<forall>j < length ns. prio_val (n_prio (ns ! j)) \<le> prio_val (n_prio (ns ! i))"
    "\<forall>j < i. prio_val (n_prio (ns ! j)) < prio_val (n_prio (ns ! i))"
    "ztp_apply_manifest env (manifest_text dev wb cb) dev s
      = (OK, (reset_all s)\<lparr>a_creds := [net_creds (ns ! i)],
           a_settings := snd (prov_c8y_store settings_work c (a_settings s))\<rparr>)"
proof -
  obtain i where i: "i < length ns" "best (a_wifi (snd (wifi_stage (concat (map render_net ns)) (reset_all s)))) = net_creds (ns ! i)"
    "fst (wifi_stage (concat (map render_net ns)) (reset_all s)) = OK"
    "\<forall>j < length ns. prio_val (n_prio (ns ! j)) \<le> prio_val (n_prio (ns ! i))"
    "\<forall>j < i. prio_val (n_prio (ns ! j)) < prio_val (n_prio (ns ! i))"
    using best_network_first_max [OF assms(7, 8)] by blast
  obtain u where u: "wifi_stage (concat (map render_net ns)) (reset_all s) = (OK, u)" using i(3) by (metis prod.collapse)
  obtain w where w: "u = (reset_all s)\<lparr>a_wifi := w\<rparr>"
    using u by (auto simp: wifi_stage_def wifi_reset_def Let_def split: prod.splits if_splits)
  have b: "best w = net_creds (ns ! i)" using i(2) u w by simp
  have v: "c8y_stage (render_c8y c) u = (OK, u\<lparr>a_c8y := c\<rparr>)"
    using c8y_body_read [OF assms(9)] assms(9) by (simp add: c8y_stage_def c8y_reset_def Let_def c8y_ok_def)
  have n: "ns ! i \<in> set ns" using i(1) by simp
  obtain st where st: "prov_c8y_store settings_work c (a_settings s) = (OK, st)" using store_works by blast
  have "commit_staged env [C8y_v2, Wifi_v2] appliers (u\<lparr>a_c8y := c\<rparr>)
      = (OK, (reset_all s)\<lparr>a_creds := [net_creds (ns ! i)], a_settings := st\<rparr>)"
    using assms(11) [OF n] st
    by (simp add: appliers_def wifi_commit_def c8y_commit_def c8y_reset_def b w assms(10) reset_all_def wifi_reset_def Let_def)
  then have "ztp_apply_manifest env (manifest_text dev wb cb) dev s
      = (OK, (reset_all s)\<lparr>a_creds := [net_creds (ns ! i)], a_settings := st\<rparr>)"
    by (simp add: ztp_apply_manifest_def Let_def manifest_header_read [OF assms(1-4)]
        stage_manifest [OF assms(1-4) assms(5, 6) u v])
  with i st show ?thesis by (intro that) simp_all
qed

section \<open>The next boot\<close>

text \<open>An application of the fleet: credential store and cloud client built in, and nothing of its start fails.\<close>

definition app_starts :: "app_env \<Rightarrow> bool" where
  "app_starts e \<longleftrightarrow> app_env.cred_store e \<and> tedge e \<and> set_io e = settings_work \<and> io_net_init e = OK \<and> io_wait e = OK
     \<and> io_proto e = OK \<and> io_tedge_init e = OK"

definition app_mains :: "(app_env \<Rightarrow> device \<Rightarrow> app_call list \<times> device) list" where
  "app_mains = [modbus_main, opcua_main, snmp_main, agent_main]"

lemma stored_bundle:
  fixes c :: prov_c8y and st :: settings
  assumes "c8y_ok c"
  defines "st' \<equiv> snd (prov_c8y_store settings_work c st)"
  shows "fst (prov_c8y_load settings_work st') = OK" "url (snd (prov_c8y_load settings_work st')) = url c"
    "otp (snd (prov_c8y_load settings_work st')) = otp c" "external_id (snd (prov_c8y_load settings_work st')) = external_id c"
proof -
  have i: "io_init settings_work = OK" by (simp add: settings_work_def)
  have f: "c8y_fits c" using assms by (simp add: c8y_ok_def)
  show g: "url (snd (prov_c8y_load settings_work st')) = url c"
    "otp (snd (prov_c8y_load settings_work st')) = otp c" "external_id (snd (prov_c8y_load settings_work st')) = external_id c"
    using c8y_store_load [OF f, of st] assms by (simp_all add: Let_def c8y_ok_def)
  then show "fst (prov_c8y_load settings_work st') = OK"
    using assms(1) by (simp add: load_rc [OF i] load_stored [OF i] c8y_ok_def)
qed

lemma bundle_handed_over:
  assumes "app_starts e" "fst (prov_c8y_load settings_work (dev_settings d)) = OK"
    "snd (prov_c8y_load settings_work (dev_settings d)) = c" "url c \<noteq> []" "otp c \<noteq> []"
    "accept_url (client e) (url_to_host (url c)) = OK"
  shows "\<exists>d'. glue_handoff e d = ([C8yCall (SetUrl (url_to_host (url c))), C8yCall (SetOtp (otp c))], d')"
proof -
  have l: "prov_c8y_load settings_work (dev_settings d) = (OK, c)" using assms(2, 3) by (metis prod.collapse)
  show ?thesis
    using assms by (simp add: glue_handoff_def app_starts_def prov_c8y_handoff_def l)
qed

lemma main_hands_over:
  fixes c :: prov_c8y and st :: settings and e :: app_env
  assumes "main \<in> set app_mains" "app_starts e" "c8y_ok c" "accept_url (client e) (url_to_host (url c)) = OK"
  defines "calls \<equiv> fst (main e (device_boot (snd (prov_c8y_store settings_work c st)) e))"
  shows "\<exists>t. {TedgeInit (external_id c) (external_id c) t, C8yCall (SetUrl (url_to_host (url c))), C8yCall (SetOtp (otp c))}
    \<subseteq> set calls"
proof -
  define d where "d = device_boot (snd (prov_c8y_store settings_work c st)) e"
  note sb = stored_bundle [OF assms(3), of st]
  have s: "dev_settings d = snd (prov_c8y_store settings_work c st)" by (simp add: d_def device_boot_def)
  have xid: "known_id e (dev_settings d) = external_id c"
    using assms(2, 3) sb by (simp add: known_id_def app_starts_def prov_c8y_external_id_def s Let_def c8y_ok_def c8y_fits_def)
  obtain d1 where i: "\<And>t. tedge_init e t d = (io_tedge_init e, [TedgeInit (external_id c) (external_id c) t], d1)"
    and s1: "dev_settings d1 = dev_settings d"
    using tedge_init_known [of d e] xid by (auto simp: d_def device_boot_def)
  obtain d2 where h: "glue_handoff e d1 = ([C8yCall (SetUrl (url_to_host (url c))), C8yCall (SetOtp (otp c))], d2)"
    using bundle_handed_over [OF assms(2), of d1 "snd (prov_c8y_load settings_work (dev_settings d))"] sb assms(3, 4)
    by (auto simp: s1 s c8y_ok_def)
  have ok: "io_tedge_init e = OK" using assms(2) by (simp add: app_starts_def)
  let ?new = "{C8yCall (SetUrl (url_to_host (url c))), C8yCall (SetOtp (otp c))}"
  have g: "{TedgeInit (external_id c) (external_id c) ''thin-edge.io-zephyr-modbus''} \<union> ?new \<subseteq> set (fst (snd (modbus_glue_start e d)))"
    "{TedgeInit (external_id c) (external_id c) ''thin-edge.io-zephyr-opcua''} \<union> ?new \<subseteq> set (fst (snd (opcua_glue_start e d)))"
    "{TedgeInit (external_id c) (external_id c) ''thin-edge.io-zephyr-snmp''} \<union> ?new \<subseteq> set (fst (snd (snmp_glue_start e d)))"
    "{TedgeInit (external_id c) (external_id c) ''thin-edge.io-zephyr-agent''} \<union> ?new \<subseteq> set (fst (snd (agent_glue_start e d)))"
    by (simp_all add: modbus_glue_start_def opcua_glue_start_def snmp_glue_start_def agent_glue_start_def
        i h ok case_prod_unfold Let_def)
  show ?thesis
    using assms(1, 2) g unfolding calls_def d_def [symmetric] app_mains_def
    by (auto simp: modbus_main_def opcua_main_def snmp_main_def agent_main_def bring_up_def glue_and_telemetry_def
        app_starts_def case_prod_unfold)
qed

section \<open>From the response to the cloud\<close>

lemma response_read:
  assumes "word_text mb"
  shows "ztp_response_parse (response_text mb) = Some (empty_response\<lparr>status := ZTP_STATUS_ACCEPTED, manifest := mb\<rparr>)"
proof -
  have "last mb \<noteq> CR" using assms last_in_set unfolding word_text_def by metis
  then have "list_all line_ok [(''protocol_version'', ''1''), (''status'', ''accepted''), (''manifest.payload'', mb)]"
    using assms by (simp add: line_ok_def word_text_def) (simp add: NL_def CR_def)
  then have "kv_all (response_text mb) = [(''protocol_version'', ''1''), (''status'', ''accepted''), (''manifest.payload'', mb)]"
    unfolding response_text_def list_all_iff by (rule kv_all_lines)
  then show ?thesis
    by (simp add: ztp_response_parse_def response_line_def response_status_def empty_response_def)
qed

text \<open>The base64 texts the relay's response is made of decode to what the server encoded.\<close>

definition encodes :: "run_io \<Rightarrow> string \<Rightarrow> net_spec list \<Rightarrow> prov_c8y \<Rightarrow> string \<Rightarrow> string \<Rightarrow> string \<Rightarrow> bool" where
  "encodes io dev ns c wb cb mb \<longleftrightarrow> word_text wb \<and> word_text cb \<and> word_text mb
     \<and> e_b64 (io_apply io) 1024 wb = Some (concat (map render_net ns))
     \<and> e_b64 (io_apply io) 1024 cb = Some (render_c8y c)
     \<and> io_manifest_b64 io mb = Some (manifest_text dev wb cb)"


definition sample_nets :: "net_spec list" where
  "sample_nets = [\<lparr>n_ssid = ''plant'', n_psk = ''secret12'', n_prio = ''1''\<rparr>, \<lparr>n_ssid = ''lab'', n_psk = ''secret34'', n_prio = ''5''\<rparr>]"

definition sample_c8y :: prov_c8y where
  "sample_c8y = \<lparr>url = ''https://t.example'', tenant = [], external_id = ''dev-1'', otp = ''pw''\<rparr>"

text \<open>Everything works; the base64 decoder knows the three texts.\<close>

definition sample_relay :: run_io where
  "sample_relay = (sample_run_io 5000)\<lparr>
     io_manifest_b64 := (\<lambda>x. if x = ''M'' then Some (manifest_text ''dev-1'' ''W'' ''C'') else None),
     io_apply := \<lparr>e_join = (\<lambda>_. OK), e_set_personal = (\<lambda>_. OK), e_settings = settings_work,
       e_b64 = (\<lambda>n x. if x = ''W'' then Some (concat (map render_net sample_nets))
                        else if x = ''C'' then Some (render_c8y sample_c8y) else None),
       e_unseal = (\<lambda>e n c. Inl EIO)\<rparr>\<rparr>"


end
