(* ===== verification/Watchdog.thy ===== *)
theory Watchdog
  imports Liveness Modbus_Listener Snmp_Listener
begin

text \<open>
  The protocol threads under the liveness watchdog: \<open>Modbus_Listener\<close> and \<open>Snmp_Listener\<close> report
  progress with \<open>app_alive\<close>, \<open>Liveness\<close> turns the reports into feeds of the context's channel. What is
  shown is when the channel is fed in time, and what the next boot says when it is not.
\<close>

definition APP_CTX_PROTO :: nat where "APP_CTX_PROTO = 2"

section \<open>Fed in time\<close>

text \<open>From the time \<open>a\<close> to the horizon \<open>h\<close>, no \<open>T\<close> milliseconds pass without an event.\<close>

fun spaced :: "int \<Rightarrow> int \<Rightarrow> int list \<Rightarrow> int \<Rightarrow> bool" where
  "spaced T a [] h \<longleftrightarrow> h - a < T"
| "spaced T a (x # xs) h \<longleftrightarrow> x - a < T \<and> spaced T x xs h"

lemma spaced_mono: "spaced T a xs h \<Longrightarrow> T \<le> T' \<Longrightarrow> spaced T' a xs h"
  by (induction xs arbitrary: a) auto

lemma spaced_end: "spaced T a xs h \<Longrightarrow> \<exists>x \<in> set (a # xs). h - x < T"
  by (induction xs arbitrary: a) auto

text \<open>Reports less than \<open>G\<close> apart make feeds less than \<open>G\<close> and a second apart, whatever other contexts do.\<close>

lemma feeds_spaced:
  assumes "watched c k s" "\<forall>e \<in> set es. 0 \<le> fst (snd e) \<and> fst (snd e) \<noteq> k"
    and "u < last_feed s ! c + 1000" "spaced G u (progress_times c es) h"
  shows "spaced (G + 1000) (last_feed s ! c) (feed_times k (fst (feed_run cfg es s))) h"
  using assms
proof (induction es arbitrary: s u)
  case Nil
  then show ?case by simp
next
  case (Cons e es)
  obtain now got x where e: "e = (now, got, x)" by (metis prod_cases3)
  obtain calls t where f: "app_liveness_feed cfg got now x s = (calls, t)" by fastforce
  have run: "feed_times k (fst (feed_run cfg (e # es) s))
      = feed_times k (map (Pair now) calls) @ feed_times k (fst (feed_run cfg es t))"
    by (simp add: e f split: prod.split)
  have got: "0 \<le> got" "got \<noteq> k" using Cons.prems(2) by (simp_all add: e)
  show ?case
  proof (cases "x = c")
    case False
    note o = feed_other [OF Cons.prems(1) got False f]
    have "feed_times k (map (Pair now) calls) = []"
      using o(3) by (auto simp: feed_times_def filter_empty_conv)
    then show ?thesis
      using Cons.IH [OF o(1), of u] Cons.prems o(2) False unfolding run by (simp add: e)
  next
    case True
    note o = feed_own [OF Cons.prems(1) f [unfolded True]]
    have gap: "now - u < G" "spaced G now (progress_times c es) h" using Cons.prems(4) True by (simp_all add: e)
    show ?thesis
    proof (cases "now - last_feed s ! c < 1000")
      case True
      then have "calls = []" "t = s" using o(2) by simp_all
      then show ?thesis
        using Cons.IH [OF Cons.prems(1), of now] Cons.prems(2) True gap unfolding run by simp
    next
      case False
      then have "calls = [TaskWdtFeed k]" "last_feed t ! c = now" using o(2) by simp_all
      then show ?thesis
        using Cons.IH [OF o(1), of now] Cons.prems(2, 3) gap unfolding run by simp
    qed
  qed
qed

section \<open>The Modbus listener\<close>

text \<open>A run with the time at which each turn starts, where the thread reports progress if it does.\<close>

fun timed_turns :: "listen_cfg \<Rightarrow> (int \<times> turn_in) list \<Rightarrow> listener \<Rightarrow> (int \<times> listen_call list \<times> listener) list" where
  "timed_turns cfg [] l = []"
| "timed_turns cfg ((t, ti) # tis) l =
     (let (calls, l) = listener_turn cfg ti l in (t, calls, l) # timed_turns cfg tis l)"

definition reports :: "(int \<times> listen_call list \<times> listener) list \<Rightarrow> int list" where
  "reports tr = map fst (filter (\<lambda>(t, calls, l). Modbus_Listener.Alive \<in> set calls) tr)"

text \<open>The thread waits for a client or for the next request: it is past its start-up and not inside a request.\<close>

definition waiting :: "listener \<Rightarrow> bool" where
  "waiting l \<longleftrightarrow> (case li_phase l of Listening \<Rightarrow> True | Connected _ \<Rightarrow> True | _ \<Rightarrow> False)"

lemma serve_turn_keeps_calls: "set calls \<subseteq> set (fst (serve_turn cfg ti t calls l))"
  by (auto simp: serve_turn_def close_client_def Let_def split: option.split prod.split)

lemma waiting_reports: "waiting l \<Longrightarrow> Modbus_Listener.Alive \<in> set (fst (listener_turn cfg ti l))"
  using serve_turn_keeps_calls [of "[Modbus_Listener.Alive]" cfg ti _ "arrive ti l"]
  by (auto simp: waiting_def listener_turn_def close_client_def Let_def split: phase.splits option.split)

lemma waiting_run_reports:
  assumes "waiting l" "list_all (\<lambda>(t, calls, l'). waiting l') (timed_turns cfg tis l)"
  shows "reports (timed_turns cfg tis l) = map fst tis"
  using assms
proof (induction tis arbitrary: l)
  case (Cons p tis)
  obtain t ti where p: "p = (t, ti)" by (cases p)
  obtain calls l' where l': "listener_turn cfg ti l = (calls, l')" by fastforce
  show ?case
    using Cons.IH [of l'] Cons.prems waiting_reports [OF Cons.prems(1), of cfg ti]
    by (simp add: p l' reports_def)
qed (simp add: reports_def)

text \<open>
  C18. A listener that keeps coming back to its wait is never reset. If its turns start less than \<open>G\<close>
  milliseconds apart (five seconds of polling and the time a request takes), no turn is stuck inside a
  request and the timeout is \<open>G\<close> and a second at least, the channel of the protocol context is fed
  within the timeout all the time, whatever the other contexts do and whatever clients send.
\<close>

theorem listener_stays_fed:
  fixes lcfg :: live_cfg and cfg :: listen_cfg
  assumes "watched APP_CTX_PROTO k s" "\<forall>e \<in> set es. 0 \<le> fst (snd e) \<and> fst (snd e) \<noteq> k"
    and "waiting l" "list_all (\<lambda>(t, calls, l'). waiting l') (timed_turns cfg tis l)"
    and "progress_times APP_CTX_PROTO es = reports (timed_turns cfg tis l)"
    and "u < last_feed s ! APP_CTX_PROTO + 1000" "spaced G u (map fst tis) h"
    and "G + 1000 \<le> int (ctx_timeout_ms lcfg APP_CTX_PROTO)"
  shows "spaced (int (ctx_timeout_ms lcfg APP_CTX_PROTO)) (last_feed s ! APP_CTX_PROTO)
    (feed_times k (fst (feed_run lcfg es s))) h"
proof -
  have "spaced (G + 1000) (last_feed s ! APP_CTX_PROTO) (feed_times k (fst (feed_run lcfg es s))) h"
    using feeds_spaced [OF assms(1, 2, 6)] assms(5, 7) waiting_run_reports [OF assms(3, 4)] by simp
  then show ?thesis using spaced_mono assms(8) by blast
qed

definition default_live :: live_cfg where
  "default_live = \<lparr>live_timeout_s = 30, netwq_timeout_s = 120\<rparr>"

text \<open>The protocol context on channel 7, last fed at 0, and the listener waiting for a client.\<close>

definition sample_live :: live_state where
  "sample_live = \<lparr>live_ready = True, chan = [-1, -1, 7, -1], last_feed = [0, 0, 0, 0]\<rparr>"

definition waiting_listener :: listener where
  "waiting_listener = sample_listener\<lparr>li_phase := Listening\<rparr>"

lemma sample_live_watched: "watched APP_CTX_PROTO 7 sample_live"
  by (simp add: watched_def sample_live_def APP_CTX_PROTO_def APP_CTX_COUNT_def less_Suc_eq numeral_eq_Suc)

lemma sample_live_facts:
  "ctx_timeout_ms default_live APP_CTX_PROTO = 30000" "last_feed sample_live ! APP_CTX_PROTO = 0"
  by (simp_all add: ctx_timeout_ms_def default_live_def APP_CTX_PROTO_def APP_CTX_NETWQ_def sample_live_def)

theorem listener_stays_fed_witness:
  "spaced 30000 0 (feed_times 7 (fst (feed_run default_live [(5000, 0, 2), (6000, 0, 1), (10000, 0, 2)] sample_live))) 15000"
proof -
  let ?ti = "sample_turn 0 []"
  have turn: "listener_turn sample_listen ?ti waiting_listener = ([Modbus_Listener.Alive], waiting_listener)"
    by (simp add: listener_turn_def waiting_listener_def sample_turn_def)
  have w: "waiting waiting_listener" by (simp add: waiting_def waiting_listener_def)
  show ?thesis
    using listener_stays_fed [of 7 sample_live "[(5000, 0, 2), (6000, 0, 1), (10000, 0, 2)]" waiting_listener sample_listen
        "[(5000, ?ti), (10000, ?ti)]" 0 5200 15000 default_live] sample_live_watched w
    by (simp add: turn reports_def) (simp add: sample_live_def APP_CTX_PROTO_def ctx_timeout_ms_def default_live_def APP_CTX_NETWQ_def)
qed

section \<open>A half request\<close>

lemma timed_calls: "concat (map (\<lambda>(t, calls, l). calls) (timed_turns cfg tis l)) = fst (listener_run cfg (map snd tis) l)"
proof (induction tis arbitrary: l)
  case (Cons p tis)
  then show ?case by (cases p) (simp add: split_beta)
qed simp

lemma one_report:
  assumes "waiting l" "fst (listener_run cfg (map snd ((t0, ti) # tis)) l) = [Modbus_Listener.Alive]"
  shows "reports (timed_turns cfg ((t0, ti) # tis) l) = [t0]"
proof -
  obtain calls l' where l': "listener_turn cfg ti l = (calls, l')" by fastforce
  have a: "Modbus_Listener.Alive \<in> set calls" using waiting_reports [OF assms(1), of cfg ti] by (simp add: l')
  have "calls @ concat (map (\<lambda>(t, calls, l). calls) (timed_turns cfg tis l')) = [Modbus_Listener.Alive]"
    using assms(2) timed_calls [of cfg "(t0, ti) # tis" l] by (simp add: l')
  then have "\<forall>x \<in> set (timed_turns cfg tis l'). fst (snd x) = []"
    using a by (auto simp: append_eq_Cons_conv)
  then show ?thesis using a by (auto simp: reports_def l' filter_empty_conv)
qed

lemma app_ctx_proto_line: "take 16 (''STALL '' @ app_ctx_name APP_CTX_PROTO @ '' '' @ take 6 ''?'') = ''STALL proto ?''"
  by (simp add: app_ctx_name_def APP_CTX_PROTO_def APP_CTX_COUNT_def)

text \<open>
  C17. A client that sends the beginning of a request and falls silent resets the device. The listener reports
  progress once more and then blocks; whatever the other contexts do, a timeout later the protocol
  context has not been fed for a whole timeout; and the boot after the reset names it.
\<close>

theorem half_request_resets_device:
  fixes lcfg :: live_cfg and cfg :: listen_cfg
  assumes "li_phase l = Connected t" "cc_inbox (li_conn l) = []"
    and "\<not> ti_poll_err ti" "ti_end ti = Open" "ti_bytes ti \<noteq> []" "length (ti_bytes ti) < 8"
    and "list_all (\<lambda>(t, ti). ti_bytes ti = [] \<and> ti_end ti = Open) tis"
    and "watched APP_CTX_PROTO k s" "sorted (map fst es)" "\<forall>e \<in> set es. last_feed s ! APP_CTX_PROTO \<le> fst e"
    and "\<forall>e \<in> set es. 0 \<le> fst (snd e) \<and> fst (snd e) \<noteq> k"
    and "progress_times APP_CTX_PROTO es = reports (timed_turns cfg ((t0, ti) # tis) l)"
    and "t0 + int (ctx_timeout_ms lcfg APP_CTX_PROTO) \<le> h"
    and "rec_ok r" "RESET_POR \<notin> set cause" "app_step_get st APP_CTX_PROTO = ''?''"
  shows "\<not> spaced (int (ctx_timeout_ms lcfg APP_CTX_PROTO)) (last_feed s ! APP_CTX_PROTO)
      (feed_times k (fst (feed_run lcfg es s))) h
    \<and> fst (liveness_init cause esp wdt (channel_expired st up APP_CTX_PROTO r)) ! 2 = ''STALL proto ?''"
proof -
  let ?T = "int (ctx_timeout_ms lcfg APP_CTX_PROTO)" and ?a = "last_feed s ! APP_CTX_PROTO"
    and ?fs = "feed_times k (fst (feed_run lcfg es s))"
  have w: "waiting l" using assms(1) by (simp add: waiting_def)
  have "list_all (\<lambda>ti. ti_bytes ti = [] \<and> ti_end ti = Open) (map snd tis)"
    using assms(7) by (auto simp: list_all_iff)
  then have run: "fst (listener_run cfg (map snd ((t0, ti) # tis)) l) = [Modbus_Listener.Alive]"
    using half_request_holds_listener [OF assms(1-6), of "map snd tis" cfg] by simp
  then have ts: "progress_times APP_CTX_PROTO es = [t0]" using one_report [OF w run] assms(12) by simp
  then have fs: "set ?fs \<subseteq> {t0}"
    using feeding_tracks_progress_aux [OF assms(8-11), of lcfg] by simp
  have "t0 \<in> set (progress_times APP_CTX_PROTO es)" by (simp add: ts)
  then have "?a \<le> t0" using assms(10) by (auto simp: progress_times_def)
  then have "\<forall>x \<in> set (?a # ?fs). x \<le> t0" using fs by auto
  then have "\<not> spaced ?T ?a ?fs h" using spaced_end [of ?T ?a ?fs h] assms(13) by force
  moreover have "APP_CTX_PROTO < APP_CTX_COUNT" "CHR 0x00 \<notin> set (app_step_get st APP_CTX_PROTO)"
    by (simp_all add: APP_CTX_PROTO_def APP_CTX_COUNT_def assms(16) [unfolded APP_CTX_PROTO_def])
  then have "fst (liveness_init cause esp wdt (channel_expired st up APP_CTX_PROTO r)) ! 2 = ''STALL proto ?''"
    using stalled_boot(2) [OF assms(14) _ assms(15), of APP_CTX_PROTO st esp wdt up] assms(16)
    by (metis (no_types, lifting) app_ctx_proto_line prod.collapse)
  ultimately show ?thesis by blast
qed

theorem half_request_resets_device_witness:
  "\<not> spaced 30000 0 (feed_times 7 (fst (feed_run default_live [(2000, 0, 2), (9000, 0, 0), (31000, 0, 0)] sample_live))) 32000"
proof -
  let ?tis = "[(7000, sample_turn 7000 []), (12000, sample_turn 12000 [])]"
  have turns: "reports (timed_turns sample_listen ((2000, sample_turn 5 [0, 9]) # ?tis) sample_listener) = [2000]"
    by (rule one_report)
      (use half_request_holds_listener [of sample_listener 0 "sample_turn 5 [0, 9]" "map snd ?tis" sample_listen]
        in \<open>simp_all add: waiting_def sample_listener_def sample_turn_def\<close>)
  have st: "app_step_get (replicate 4 None) APP_CTX_PROTO = ''?''"
    by (simp add: app_step_get_def APP_CTX_PROTO_def APP_CTX_COUNT_def numeral_eq_Suc)
  have "\<not> spaced (int (ctx_timeout_ms default_live APP_CTX_PROTO)) (last_feed sample_live ! APP_CTX_PROTO)
      (feed_times 7 (fst (feed_run default_live [(2000, 0, 2), (9000, 0, 0), (31000, 0, 0)] sample_live))) 32000"
    by (rule half_request_resets_device [where l = sample_listener and t = 0 and ti = "sample_turn 5 [0, 9]" and tis = ?tis
          and cfg = sample_listen and ?t0.0 = 2000 and st = "replicate 4 None" and r = sample_rec and cause = "[]", THEN conjunct1])
      (simp_all only: turns sample_live_watched st sample_rec_ok sample_live_facts,
        simp_all add: sample_listener_def sample_turn_def APP_CTX_PROTO_def)
  then show ?thesis by (simp only: sample_live_facts of_nat_numeral not_False_eq_True)
qed

section \<open>The shortest timeout\<close>

text \<open>
  The shortest timeout the configuration takes is five seconds, which is what an idle listener polls: it
  reports at each turn, and yet its channel is not fed in time.
\<close>

theorem shortest_timeout_resets_idle:
  assumes "watched APP_CTX_PROTO k s" "live_timeout_s lcfg = 5" "last_feed s ! APP_CTX_PROTO = a"
    and "progress_times APP_CTX_PROTO es = [a + 5000]" "sorted (map fst es)" "\<forall>e \<in> set es. a \<le> fst e"
    and "\<forall>e \<in> set es. 0 \<le> fst (snd e) \<and> fst (snd e) \<noteq> k" "a + 5000 \<le> h"
  shows "\<not> spaced (int (ctx_timeout_ms lcfg APP_CTX_PROTO)) a (feed_times k (fst (feed_run lcfg es s))) h"
proof -
  let ?fs = "feed_times k (fst (feed_run lcfg es s))"
  have "set ?fs \<subseteq> {a + 5000}" using feeding_tracks_progress_aux [OF assms(1, 5), of lcfg] assms(3, 4, 6, 7) by simp
  moreover have "int (ctx_timeout_ms lcfg APP_CTX_PROTO) = 5000"
    using assms(2) by (simp add: ctx_timeout_ms_def APP_CTX_PROTO_def APP_CTX_NETWQ_def)
  ultimately show ?thesis using assms(8) by (cases ?fs) auto
qed

theorem shortest_timeout_resets_idle_witness:
  "\<not> spaced 5000 0 (feed_times 7 (fst (feed_run \<lparr>live_timeout_s = 5, netwq_timeout_s = 120\<rparr> [(5000, 0, 2)] sample_live))) 5000"
  using shortest_timeout_resets_idle [of 7 sample_live "\<lparr>live_timeout_s = 5, netwq_timeout_s = 120\<rparr>" 0 "[(5000, 0, 2)]" 5000]
    sample_live_watched
  by (simp add: sample_live_def APP_CTX_PROTO_def ctx_timeout_ms_def APP_CTX_NETWQ_def)

section \<open>The SNMP listener\<close>

text \<open>
  The agent's thread reports at every turn, whatever datagram it got and whatever call failed, so it
  never starves at all.
\<close>

definition snmp_reports :: "(int \<times> snmp_call list) list \<Rightarrow> int list" where
  "snmp_reports tr = map fst (filter (\<lambda>(t, calls). Snmp_Listener.Alive \<in> set calls) tr)"

lemma snmp_turn_reports: "Snmp_Listener.Alive \<in> set (fst (snmp_listener_turn cfg ti tx))"
  by (simp add: snmp_listener_turn_def Let_def split: sum.split option.split prod.split)

lemma snmp_run_reports:
  "length ts = length tis \<Longrightarrow> snmp_reports (zip ts (snmp_listener cfg tis tx)) = ts"
proof (induction ts tis arbitrary: tx rule: list_induct2)
  case (Cons t ts ti tis)
  obtain calls tx' where c: "snmp_listener_turn cfg ti tx = (calls, tx')" by fastforce
  then show ?case
    using Cons.IH [of tx'] snmp_turn_reports [of cfg ti tx] by (simp add: snmp_reports_def)
qed (simp add: snmp_reports_def)

theorem snmp_listener_stays_fed:
  fixes lcfg :: live_cfg and cfg :: agent_cfg
  assumes "watched APP_CTX_PROTO k s" "\<forall>e \<in> set es. 0 \<le> fst (snd e) \<and> fst (snd e) \<noteq> k"
    and "length ts = length tis" "progress_times APP_CTX_PROTO es = snmp_reports (zip ts (snmp_listener cfg tis tx))"
    and "u < last_feed s ! APP_CTX_PROTO + 1000" "spaced G u ts h"
    and "G + 1000 \<le> int (ctx_timeout_ms lcfg APP_CTX_PROTO)"
  shows "spaced (int (ctx_timeout_ms lcfg APP_CTX_PROTO)) (last_feed s ! APP_CTX_PROTO)
    (feed_times k (fst (feed_run lcfg es s))) h"
  using spaced_mono [OF feeds_spaced [OF assms(1, 2, 5)] assms(7)] assms(4, 6) snmp_run_reports [OF assms(3)] by simp

theorem snmp_listener_stays_fed_witness:
  "spaced 30000 0 (feed_times 7 (fst (feed_run default_live [(5000, 0, 2), (6000, 0, 1)] sample_live))) 9000"
proof -
  let ?ti = "\<lparr>si_view = default_view, si_poll = 0, si_recv = Inl EIO\<rparr>"
  have r: "snmp_reports (zip [5000] (snmp_listener default_cfg [?ti] [])) = [5000]"
    by (rule snmp_run_reports) simp
  have "spaced (int (ctx_timeout_ms default_live APP_CTX_PROTO)) (last_feed sample_live ! APP_CTX_PROTO)
      (feed_times 7 (fst (feed_run default_live [(5000, 0, 2), (6000, 0, 1)] sample_live))) 9000"
    by (rule snmp_listener_stays_fed [where ts = "[5000]" and tis = "[?ti]" and u = 0 and G = 5200 and cfg = default_cfg and tx = "[]"])
      (simp_all only: r sample_live_watched sample_live_facts, simp_all add: APP_CTX_PROTO_def)
  then show ?thesis by (simp only: sample_live_facts of_nat_numeral)
qed

end
