(* ===== verification/Reaper.thy ===== *)
theory Reaper
  imports Watchdog Diag Boot
begin

text \<open>
  What happens when a watchdog channel expires (\<^verbatim>\<open>src/lib/common/liveness.c\<close>: the expiry callback in the
  timer interrupt, the reaper thread and the failures of the self-test; \<^verbatim>\<open>diag.c\<close>: the thread dump). The
  kernel's threads are what it reports of them, and a pointer's text (\<open>%p\<close>) is a parameter.
\<close>

section \<open>The thread dump\<close>

text \<open>
  A thread as the dump sees it: \<open>t_unused\<close> is what \<open>k_thread_stack_space_get\<close> gives, or nothing where the
  build or the thread has no stack information.
\<close>

record thread =
  t_addr :: nat
  t_name :: "string option"
  t_prio :: int
  t_state :: string
  t_pended_on :: nat
  t_unused :: "nat option"
  t_stack_size :: nat

definition thread_label :: "(nat \<Rightarrow> string) \<Rightarrow> thread \<Rightarrow> nat \<Rightarrow> string" where
  "thread_label ptr t n =
     (case t_name t of
        Some nm \<Rightarrow> if nm \<noteq> [] then nm else take (n - 1) (ptr (t_addr t))
      | None \<Rightarrow> take (n - 1) (ptr (t_addr t)))"

definition unused_text :: "thread \<Rightarrow> string" where
  "unused_text t = (case t_unused t of Some u \<Rightarrow> dec u | None \<Rightarrow> dec_int (-1))"

definition dump_one :: "(nat \<Rightarrow> string) \<Rightarrow> bool \<Rightarrow> bool \<Rightarrow> thread \<Rightarrow> string" where
  "dump_one ptr stack_info routine t =
     (if stack_info \<and> routine
      then ''  thread '' @ thread_label ptr t 16 @ '' stack_unused '' @ unused_text t @ '' of '' @ dec (t_stack_size t)
      else ''  thread '' @ thread_label ptr t 16 @ '' prio '' @ dec_int (t_prio t) @ '' state '' @ take 31 (t_state t)
           @ '' pended_on '' @ ptr (t_pended_on t) @ '' stack_unused '' @ unused_text t)"

definition app_diag_dump_threads :: "(nat \<Rightarrow> string) \<Rightarrow> bool \<Rightarrow> nat \<Rightarrow> thread list \<Rightarrow> string list" where
  "app_diag_dump_threads ptr stack_info current ts =
     (''thread dump (current '' @ ptr current @ ''):'') # map (dump_one ptr stack_info False) ts"

section \<open>Expiry and the reaper\<close>

text \<open>The record, the context handed over and the count of the semaphore, which is one at most.\<close>

record reaper =
  reap_rec :: reset_record
  reap_ctx :: nat
  reap_sem :: nat

definition reaper_init :: "reset_record \<Rightarrow> reaper" where
  "reaper_init r = \<lparr>reap_rec = r, reap_ctx = APP_CTX_COUNT, reap_sem = 0\<rparr>"

definition expire :: "steps \<times> u32 \<times> nat \<Rightarrow> reaper \<Rightarrow> reaper" where
  "expire e r =
     (let (st, uptime, ctx) = e
      in \<lparr>reap_rec = channel_expired st uptime ctx (reap_rec r), reap_ctx = ctx, reap_sem = min 1 (reap_sem r + 1)\<rparr>)"

datatype reap_call = LogPanic | LogErr string | Dump "string list" | Reset reset_kind

text \<open>Single quotes, and the dash of the message in UTF-8.\<close>

definition sq1 :: "string \<Rightarrow> string" where "sq1 s = CHR 0x27 # s @ [CHR 0x27]"
definition em_dash :: string where "em_dash = [CHR 0xE2, CHR 0x80, CHR 0x94]"

definition reap_message :: "live_cfg \<Rightarrow> steps \<Rightarrow> nat \<Rightarrow> string" where
  "reap_message cfg st ctx =
     ''liveness: '' @ app_ctx_name ctx @ '' made no progress for '' @ dec (ctx_timeout_ms cfg ctx div 1000)
     @ '' s in step '' @ sq1 (app_step_get st ctx) @ '' '' @ em_dash @ '' resetting''"

text \<open>
  A round of the reaper: \<open>None\<close> while it waits on the semaphore. \<open>bt_esp32\<close>: a build with Bluetooth for the
  ESP32 family, whose reset covers the whole digital system.
\<close>

definition reaper_main ::
  "live_cfg \<Rightarrow> bool \<Rightarrow> steps \<Rightarrow> string list \<Rightarrow> reaper \<Rightarrow> (reap_call list \<times> reaper) option" where
  "reaper_main cfg bt_esp32 st dump r =
     (if reap_sem r = 0 then None
      else Some ([LogPanic, LogErr (reap_message cfg st (reap_ctx r)), Dump dump,
                  Reset (if bt_esp32 then ESP_ROM_SOFTWARE_RESET else SYS_REBOOT_COLD)],
                 r\<lparr>reap_sem := 0\<rparr>))"

lemma expire_rec_ok: "rec_ok (reap_rec r) \<Longrightarrow> rec_ok (reap_rec (expire e r))"
  by (simp add: expire_def channel_expired_def rec_ok_def rec_seal_def rec_check_def split: prod.split)

lemma expiries_rec_ok: "rec_ok (reap_rec r) \<Longrightarrow> rec_ok (reap_rec (fold expire es r))"
  by (induction es arbitrary: r) (simp_all add: expire_rec_ok)

lemma expiries_last:
  "fold expire (es @ [(st, up, c)]) r
     = \<lparr>reap_rec = channel_expired st up c (reap_rec (fold expire es r)), reap_ctx = c, reap_sem = 1\<rparr>"
  by (simp add: expire_def)

text \<open>
  C19. However many channels expire before the reaper runs, it resets the device once and for a context
  that did expire: it logs that context, dumps the threads and then resets, in that order, with the
  semaphore taken; and what the next boot reports is the same context, with the step it was in when
  its channel expired.
\<close>

theorem log_and_record_agree:
  assumes "rec_ok (reap_rec r)" "c < APP_CTX_COUNT" "RESET_POR \<notin> set cause" "CHR 0x00 \<notin> set (app_step_get st c)"
  shows "\<exists>r'. reaper_main cfg bt st' dump (fold expire (es @ [(st, up, c)]) r)
      = Some ([LogPanic, LogErr (reap_message cfg st' c), Dump dump,
          Reset (if bt then ESP_ROM_SOFTWARE_RESET else SYS_REBOOT_COLD)], r')
    \<and> reaper_main cfg bt st' dump r' = None
    \<and> fst (liveness_init cause esp wdt (reap_rec r')) ! 2
      = take 16 (''STALL '' @ app_ctx_name c @ '' '' @ take 6 (app_step_get st c))"
proof -
  let ?r = "fold expire (es @ [(st, up, c)]) r"
  have ok: "rec_ok (reap_rec (fold expire es r))" by (rule expiries_rec_ok [OF assms(1)])
  have "reap_ctx ?r = c" "reap_sem ?r = 1" "reap_rec ?r = channel_expired st up c (reap_rec (fold expire es r))"
    unfolding expiries_last by simp_all
  then show ?thesis
    using stalled_boot(2) [OF ok assms(2-4), of esp wdt up]
    by (intro exI [of _ "?r\<lparr>reap_sem := 0\<rparr>"]) (simp add: reaper_main_def, metis prod.collapse)
qed

theorem log_and_record_agree_witness:
  "\<exists>r'. reaper_main default_live False (replicate 4 (Some ''loop'')) []
      (fold expire ([(replicate 4 None, 70, 0)] @ [(replicate 4 (Some ''recv''), 71, 2)]) (reaper_init sample_rec))
    = Some ([LogPanic, LogErr (''liveness: proto made no progress for 30 s in step '' @ sq1 ''loop'' @ '' '' @ em_dash @ '' resetting''), Dump [],
        Reset SYS_REBOOT_COLD], r')"
proof -
  have st: "app_step_get (replicate 4 (Some w)) 2 = w" for w
    by (simp add: app_step_get_def APP_CTX_COUNT_def numeral_eq_Suc)
  have dec: "dec 30 = ''30''" by code_simp
  have msg: "reap_message default_live (replicate 4 (Some ''loop'')) 2
      = (''liveness: proto made no progress for 30 s in step '' @ sq1 ''loop'' @ '' '' @ em_dash @ '' resetting'')"
    by (simp add: reap_message_def st app_ctx_name_def APP_CTX_COUNT_def ctx_timeout_ms_def default_live_def
        APP_CTX_NETWQ_def dec)
  show ?thesis
    using log_and_record_agree [of "reaper_init sample_rec" 2 "[]" "replicate 4 (Some ''recv'')" default_live False
        "replicate 4 (Some ''loop'')" "[]" "[(replicate 4 None, 70, 0)]" 71 0 OK]
    unfolding msg by (auto simp: reaper_init_def sample_rec_ok APP_CTX_COUNT_def st)
qed

section \<open>The self-test\<close>

datatype selftest_mode = BLOCK_WQ | STOP_PROTO | IRQ_LOCK

text \<open>What the self-test does to the system; a blocked or spinning thread does not come back.\<close>

datatype selftest_call = Warn string | SubmitBlockWq | StopProtoFlag | IrqLock | SpinForever | TakeNeverGiven

definition block_wq_handler :: "selftest_call list" where
  "block_wq_handler = [Warn ''SELFTEST: system workqueue blocks here'', TakeNeverGiven]"

definition selftest_main :: "selftest_mode \<Rightarrow> selftest_call list" where
  "selftest_main m =
     (case m of
        BLOCK_WQ \<Rightarrow> [Warn ''SELFTEST: injecting a blocked system workqueue'', SubmitBlockWq]
      | STOP_PROTO \<Rightarrow> [Warn ''SELFTEST: injecting a stopped protocol loop'', StopProtoFlag]
      | IRQ_LOCK \<Rightarrow> [Warn ''SELFTEST: injecting a busy loop with interrupts masked'', IrqLock, SpinForever])"

text \<open>\<open>app_liveness_feed\<close> in a build with the stopped protocol loop: \<open>None\<close>, the caller never returns.\<close>

definition feed_stopping ::
  "live_cfg \<Rightarrow> bool \<Rightarrow> int \<Rightarrow> int \<Rightarrow> nat \<Rightarrow> live_state \<Rightarrow> (wdt_call list \<times> live_state) option" where
  "feed_stopping cfg stop got now ctx s =
     (if live_ready s \<and> ctx < APP_CTX_COUNT \<and> \<not> chan s ! ctx < 0 \<and> ctx = APP_CTX_PROTO \<and> stop then None
      else Some (app_liveness_feed cfg got now ctx s))"

text \<open>
  The feeds of a build with the self-test: the flag goes up at \<open>t0\<close>, and a protocol thread that has been
  stopped makes no further call.
\<close>

fun stopping_run ::
  "live_cfg \<Rightarrow> int \<Rightarrow> bool \<Rightarrow> (int \<times> int \<times> nat) list \<Rightarrow> live_state \<Rightarrow> (int \<times> wdt_call) list \<times> live_state" where
  "stopping_run cfg t0 gone [] s = ([], s)"
| "stopping_run cfg t0 gone ((now, got, ctx) # es) s =
     (if gone \<and> ctx = APP_CTX_PROTO then stopping_run cfg t0 gone es s
      else (case feed_stopping cfg (t0 \<le> now) got now ctx s of
              None \<Rightarrow> stopping_run cfg t0 True es s
            | Some (calls, s) \<Rightarrow>
                (let (log, s) = stopping_run cfg t0 gone es s in (map (Pair now) calls @ log, s))))"

text \<open>The run is an ordinary one, with the calls of the protocol thread from the flag on left out.\<close>

lemma stopping_run_drops:
  assumes "watched APP_CTX_PROTO k s" "sorted (map fst es)"
    "\<forall>e \<in> set es. 0 \<le> fst (snd e) \<and> fst (snd e) \<noteq> k" "gone \<Longrightarrow> \<forall>e \<in> set es. t0 \<le> fst e"
  shows "stopping_run cfg t0 gone es s
    = feed_run cfg (filter (\<lambda>e. \<not> (snd (snd e) = APP_CTX_PROTO \<and> t0 \<le> fst e)) es) s"
  using assms
proof (induction es arbitrary: s gone)
  case (Cons e es)
  obtain now got x where e: "e = (now, got, x)" by (metis prod_cases3)
  obtain calls t where f: "app_liveness_feed cfg got now x s = (calls, t)" by fastforce
  have got: "0 \<le> got" "got \<noteq> k" "sorted (map fst es)" "\<forall>e \<in> set es. now \<le> fst e"
    using Cons.prems(2, 3) by (simp_all add: e)
  have w: "live_ready s" "APP_CTX_PROTO < APP_CTX_COUNT" "\<not> chan s ! APP_CTX_PROTO < 0"
    using Cons.prems(1) by (auto simp: watched_def)
  have wt: "watched APP_CTX_PROTO k t"
    using feed_other(1) [OF Cons.prems(1) got(1, 2) _ f] feed_own(1) [OF Cons.prems(1)] f by (cases "x = APP_CTX_PROTO") auto
  show ?case
  proof (cases "x = APP_CTX_PROTO \<and> t0 \<le> now")
    case True
    then have "\<forall>e \<in> set es. t0 \<le> fst e" using got(4) by auto
    then show ?thesis
      using True Cons.IH [OF Cons.prems(1) got(3), of True] Cons.IH [OF Cons.prems(1) got(3), of gone] Cons.prems(3) w
      by (cases gone) (simp_all add: e feed_stopping_def)
  next
    case False
    then have "\<not> (gone \<and> x = APP_CTX_PROTO)" using Cons.prems(4) by (auto simp: e)
    then show ?thesis
      using False Cons.IH [OF wt got(3), of gone] Cons.prems(3, 4)
      by (auto simp: e f feed_stopping_def split: prod.split)
  qed
qed simp

text \<open>
  The self-test shows what it is for. From the moment it stops the protocol loop, the channel of the
  protocol context is not fed again, and a timeout later it has gone without a feed for a whole timeout:
  the injected failure is one the watchdog catches, whatever the other contexts do.
\<close>

theorem selftest_stop_is_caught:
  fixes lcfg :: live_cfg
  assumes "watched APP_CTX_PROTO k s" "sorted (map fst es)" "\<forall>e \<in> set es. last_feed s ! APP_CTX_PROTO \<le> fst e"
    and "\<forall>e \<in> set es. 0 \<le> fst (snd e) \<and> fst (snd e) \<noteq> k"
    and "last_feed s ! APP_CTX_PROTO \<le> t0" "t0 + int (ctx_timeout_ms lcfg APP_CTX_PROTO) \<le> h"
  shows "\<not> spaced (int (ctx_timeout_ms lcfg APP_CTX_PROTO)) (last_feed s ! APP_CTX_PROTO)
    (feed_times k (fst (stopping_run lcfg t0 False es s))) h"
proof -
  let ?es = "filter (\<lambda>e. \<not> (snd (snd e) = APP_CTX_PROTO \<and> t0 \<le> fst e)) es"
    and ?a = "last_feed s ! APP_CTX_PROTO"
  let ?fs = "feed_times k (fst (feed_run lcfg ?es s))"
  have run: "stopping_run lcfg t0 False es s = feed_run lcfg ?es s"
    using stopping_run_drops [OF assms(1, 2, 4)] by simp
  have "sorted (map fst ?es)" using assms(2) by (simp add: sorted_filter)
  then have "set ?fs \<subseteq> set (progress_times APP_CTX_PROTO ?es)"
    using feeding_tracks_progress_aux [OF assms(1), of ?es lcfg] assms(3, 4) by auto
  then have "\<forall>f \<in> set (?a # ?fs). f \<le> t0" using assms(5) by (fastforce simp: progress_times_def)
  then show ?thesis using spaced_end [of _ ?a ?fs h] assms(6) unfolding run by force
qed

theorem selftest_stop_is_caught_witness:
  "\<not> spaced 30000 0
      (feed_times 7 (fst (stopping_run default_live 60000 False
        [(20000, 0, 2), (40000, 0, 2), (61000, 0, 2), (62000, 0, 0), (63000, 0, 2)] sample_live))) 90000"
  using selftest_stop_is_caught [of 7 sample_live "[(20000, 0, 2), (40000, 0, 2), (61000, 0, 2), (62000, 0, 0), (63000, 0, 2)]"
      60000 default_live 90000] sample_live_watched
  unfolding sample_live_facts by simp

end
