(* ===== verification/Gatt.thy ===== *)
theory Gatt
  imports Improv Ztp_Run
begin

text \<open>
  The Bluetooth interface of the two BLE provisioners: the service tables, read handlers and advertising data
  of \<^verbatim>\<open>src/apps/wifi-provisioner/src/improv.c\<close> and \<^verbatim>\<open>ztp.c\<close>. The stack serves a characteristic when its
  permissions and a handler allow it; \<open>bt_gatt_attr_read\<close> cuts the value a handler gives it to the
  offset and length asked for, so a read handler is that value. A UUID is the five numbers of
  \<open>BT_UUID_128_ENCODE\<close>.
\<close>

section \<open>Tables\<close>

type_synonym uuid128 = "nat \<times> nat \<times> nat \<times> nat \<times> nat"

datatype chrc = CHRC_READ | CHRC_NOTIFY | CHRC_WRITE | CHRC_WRITE_WITHOUT_RESP
datatype perm = PERM_READ | PERM_WRITE | PERM_PREPARE_WRITE

text \<open>An attribute of a service, over the handlers of the file.\<close>

datatype ('r, 'w) attribute =
    PrimaryService uuid128
  | Characteristic uuid128 "chrc list" "perm list" "'r option" "'w option"
  | Ccc "perm list"

fun reads :: "('r, 'w) attribute list \<Rightarrow> uuid128 \<Rightarrow> 'r option" where
  "reads [] u = None"
| "reads (Characteristic v cs ps r w # as) u =
     (if u = v then (if PERM_READ \<in> set ps then r else None) else reads as u)"
| "reads (PrimaryService v # as) u = reads as u"
| "reads (Ccc ps # as) u = reads as u"

fun writes :: "('r, 'w) attribute list \<Rightarrow> uuid128 \<Rightarrow> 'w option" where
  "writes [] u = None"
| "writes (Characteristic v cs ps r w # as) u =
     (if u = v then (if PERM_WRITE \<in> set ps then w else None) else writes as u)"
| "writes (PrimaryService v # as) u = writes as u"
| "writes (Ccc ps # as) u = writes as u"

section \<open>Improv\<close>

definition IMPROV_UUID :: "nat \<Rightarrow> uuid128" where
  "IMPROV_UUID n = (0x00467768, 0x6228, 0x2272, 0x4663, 0x277478268000 + n)"

primrec state_byte :: "improv_state \<Rightarrow> byte" where
  "state_byte ST_AUTH_REQUIRED = 1"
| "state_byte ST_AUTHORIZED = 2"
| "state_byte ST_PROVISIONING = 3"
| "state_byte ST_PROVISIONED = 4"

primrec error_byte :: "improv_error \<Rightarrow> byte" where
  "error_byte ERR_NONE = 0"
| "error_byte ERR_INVALID_RPC = 1"
| "error_byte ERR_UNKNOWN_RPC = 2"
| "error_byte ERR_UNABLE_TO_CONNECT = 3"
| "error_byte ERR_NOT_AUTHORIZED = 4"
| "error_byte ERR_UNKNOWN = 0xFF"

text \<open>What the Bluetooth side adds to the state: the capabilities, the advertised service data, and the
  values notified to the client, newest first.\<close>

record improv_ble =
  im :: improv
  caps :: byte
  svc_data :: bytes
  notified :: "(uuid128 \<times> byte) list"

datatype u8_var = CurState | CurError | Caps
datatype improv_read = ReadU8 u8_var | ReadResult
datatype improv_write = WriteRpc

definition improv_svc :: "(improv_read, improv_write) attribute list" where
  "improv_svc =
     [PrimaryService (IMPROV_UUID 0),
      Characteristic (IMPROV_UUID 1) [CHRC_READ, CHRC_NOTIFY] [PERM_READ] (Some (ReadU8 CurState)) None,
      Ccc [PERM_READ, PERM_WRITE],
      Characteristic (IMPROV_UUID 2) [CHRC_READ, CHRC_NOTIFY] [PERM_READ] (Some (ReadU8 CurError)) None,
      Ccc [PERM_READ, PERM_WRITE],
      Characteristic (IMPROV_UUID 3) [CHRC_WRITE, CHRC_WRITE_WITHOUT_RESP] [PERM_WRITE, PERM_PREPARE_WRITE] None (Some WriteRpc),
      Characteristic (IMPROV_UUID 4) [CHRC_READ, CHRC_NOTIFY] [PERM_READ] (Some ReadResult) None,
      Ccc [PERM_READ, PERM_WRITE],
      Characteristic (IMPROV_UUID 5) [CHRC_READ] [PERM_READ] (Some (ReadU8 Caps)) None]"

definition read_u8 :: "u8_var \<Rightarrow> improv_ble \<Rightarrow> bytes" where
  "read_u8 v b = [case v of CurState \<Rightarrow> state_byte (cur_state (im b)) | CurError \<Rightarrow> error_byte (cur_error (im b))
     | Caps \<Rightarrow> caps b]"

definition read_result :: "improv_ble \<Rightarrow> bytes" where
  "read_result b = result_buf (im b)"

definition improv_value :: "uuid128 \<Rightarrow> improv_ble \<Rightarrow> bytes option" where
  "improv_value u b =
     map_option (\<lambda>r. case r of ReadU8 v \<Rightarrow> read_u8 v b | ReadResult \<Rightarrow> read_result b) (reads improv_svc u)"

text \<open>Advertising data: type, and the bytes.\<close>

datatype ad_type = DATA_FLAGS | DATA_UUID128_ALL | DATA_SVC_DATA16 | DATA_NAME_COMPLETE

definition ad_size :: "(ad_type \<times> nat) list \<Rightarrow> nat" where
  "ad_size ad = sum_list (map (\<lambda>(t, n). 2 + n) ad)"

definition improv_ad :: "improv_ble \<Rightarrow> (ad_type \<times> nat) list" where
  "improv_ad b = [(DATA_FLAGS, 1), (DATA_UUID128_ALL, 16), (DATA_SVC_DATA16, length (svc_data b))]"

definition svc_data_init :: bytes where
  "svc_data_init = [0x77, 0x46, 0, 0, 0, 0, 0, 0]"

definition adv_refresh_data :: "improv_ble \<Rightarrow> improv_ble" where
  "adv_refresh_data b = b\<lparr>svc_data := (svc_data b)[2 := state_byte (cur_state (im b)), 3 := caps b]\<rparr>"

definition notify_u8 :: "uuid128 \<Rightarrow> byte \<Rightarrow> improv_ble \<Rightarrow> improv_ble" where
  "notify_u8 u v b = (if i_conn (im b) then b\<lparr>notified := (u, v) # notified b\<rparr> else b)"

definition ble_set_state :: "improv_state \<Rightarrow> improv_ble \<Rightarrow> improv_ble" where
  "ble_set_state st b = adv_refresh_data (notify_u8 (IMPROV_UUID 1) (state_byte st) (b\<lparr>im := set_state st (im b)\<rparr>))"

definition ble_set_error :: "improv_error \<Rightarrow> improv_ble \<Rightarrow> improv_ble" where
  "ble_set_error e b = notify_u8 (IMPROV_UUID 2) (error_byte e) (b\<lparr>im := set_error e (im b)\<rparr>)"

definition ble_adv_start :: "rc \<Rightarrow> improv_ble \<Rightarrow> improv_ble" where
  "ble_adv_start err b =
     (if \<not> i_adv_wanted (im b) \<or> i_adv_running (im b) \<or> i_conn (im b) then b
      else (adv_refresh_data b)\<lparr>im := imp_adv_start err (im b)\<rparr>)"

text \<open>
  \<open>on_recycled\<close> submits \<open>adv_restart_fn\<close>; half a second after a client connected, \<open>conn_param_fn\<close> asks it
  for a slower link, if it is still there. \<open>None\<close> is no request.
\<close>

definition imp_adv_restart_fn :: "rc \<Rightarrow> improv_ble \<Rightarrow> improv_ble" where
  "imp_adv_restart_fn err b = ble_adv_start err b"

definition imp_conn_param :: "nat \<times> nat \<times> nat \<times> nat" where
  "imp_conn_param = (24, 48, 0, 500)"

definition imp_conn_param_fn :: "improv_ble \<Rightarrow> (nat \<times> nat \<times> nat \<times> nat) option" where
  "imp_conn_param_fn b = (if i_conn (im b) then Some imp_conn_param else None)"

section \<open>ZTP\<close>

definition ZTP_UUID :: "nat \<Rightarrow> uuid128" where
  "ZTP_UUID n = (0x6e400000 + n, 0xb5a3, 0xf393, 0xe0a9, 0xe50e24dcca9e)"

primrec status_byte :: "ztp_status_byte \<Rightarrow> byte" where
  "status_byte ZTP_ST_IDLE = 0"
| "status_byte ZTP_ST_RELAYING = 1"
| "status_byte ZTP_ST_DONE = 2"
| "status_byte ZTP_ST_ERROR = 3"

datatype ztp_read = ReadStatus
datatype ztp_write = WriteRequest | WriteTimesync

definition ztp_svc :: "(ztp_read, ztp_write) attribute list" where
  "ztp_svc =
     [PrimaryService (ZTP_UUID 1),
      Characteristic (ZTP_UUID 2) [CHRC_WRITE, CHRC_WRITE_WITHOUT_RESP] [PERM_WRITE, PERM_PREPARE_WRITE] None (Some WriteRequest),
      Characteristic (ZTP_UUID 3) [CHRC_READ, CHRC_NOTIFY] [PERM_READ] None None,
      Ccc [PERM_READ, PERM_WRITE],
      Characteristic (ZTP_UUID 4) [CHRC_READ, CHRC_NOTIFY] [PERM_READ] (Some ReadStatus) None,
      Ccc [PERM_READ, PERM_WRITE],
      Characteristic (ZTP_UUID 5) [CHRC_WRITE, CHRC_WRITE_WITHOUT_RESP] [PERM_WRITE] None (Some WriteTimesync)]"

definition read_status :: "ztp_dev \<Rightarrow> bytes" where
  "read_status s = [status_byte (cur_status s)]"

definition ztp_value :: "uuid128 \<Rightarrow> ztp_dev \<Rightarrow> bytes option" where
  "ztp_value u s = map_option (\<lambda>r. case r of ReadStatus \<Rightarrow> read_status s) (reads ztp_svc u)"

definition ztp_ad :: "(ad_type \<times> nat) list" where
  "ztp_ad = [(DATA_FLAGS, 1), (DATA_UUID128_ALL, 16), (DATA_NAME_COMPLETE, length ''ztp'')]"

definition ztp_adv_restart_fn :: "rc \<Rightarrow> ztp_dev \<Rightarrow> ztp_dev" where
  "ztp_adv_restart_fn err s = adv_start err s"

definition ztp_conn_param_fn :: "ztp_dev \<Rightarrow> (nat \<times> nat \<times> nat \<times> nat) option" where
  "ztp_conn_param_fn s = (if cur_conn s then Some (24, 48, 0, 500) else None)"

section \<open>What a peer can read and write\<close>

lemma uuid_inj [simp]: "IMPROV_UUID m = IMPROV_UUID n \<longleftrightarrow> m = n" "ZTP_UUID m = ZTP_UUID n \<longleftrightarrow> m = n"
  by (simp_all add: IMPROV_UUID_def ZTP_UUID_def)

lemma improv_readable:
  "reads improv_svc u =
     (if u = IMPROV_UUID 1 then Some (ReadU8 CurState) else if u = IMPROV_UUID 2 then Some (ReadU8 CurError)
      else if u = IMPROV_UUID 3 then None else if u = IMPROV_UUID 4 then Some ReadResult
      else if u = IMPROV_UUID 5 then Some (ReadU8 Caps) else None)"
  unfolding improv_svc_def reads.simps by (simp only: list.set insert_iff simp_thms if_True if_False perm.simps empty_iff)

lemma improv_values:
  "improv_value u b =
     (if u = IMPROV_UUID 1 then Some [state_byte (cur_state (im b))]
      else if u = IMPROV_UUID 2 then Some [error_byte (cur_error (im b))]
      else if u = IMPROV_UUID 4 then Some (result_buf (im b))
      else if u = IMPROV_UUID 5 then Some [caps b] else None)"
proof -
  have "IMPROV_UUID 3 \<noteq> IMPROV_UUID 4" "IMPROV_UUID 3 \<noteq> IMPROV_UUID 5" by simp_all
  then show ?thesis
    unfolding improv_value_def improv_readable by (auto simp: read_u8_def read_result_def)
qed

lemma improv_writable: "writes improv_svc u = (if u = IMPROV_UUID 3 then Some WriteRpc else None)"
proof -
  have "IMPROV_UUID 3 \<noteq> IMPROV_UUID 1" "IMPROV_UUID 3 \<noteq> IMPROV_UUID 2" by simp_all
  then show ?thesis unfolding improv_svc_def writes.simps by auto
qed

lemma ztp_values: "ztp_value u s = (if u = ZTP_UUID 4 then Some [status_byte (cur_status s)] else None)"
proof -
  have "ZTP_UUID 4 \<noteq> ZTP_UUID 2" "ZTP_UUID 4 \<noteq> ZTP_UUID 3" by simp_all
  then show ?thesis unfolding ztp_value_def ztp_svc_def reads.simps by (auto simp: read_status_def)
qed

lemma ztp_writable:
  "writes ztp_svc u = (if u = ZTP_UUID 2 then Some WriteRequest else if u = ZTP_UUID 5 then Some WriteTimesync else None)"
proof -
  have "ZTP_UUID 5 \<noteq> ZTP_UUID 3" "ZTP_UUID 5 \<noteq> ZTP_UUID 4" by simp_all
  then show ?thesis unfolding ztp_svc_def writes.simps by auto
qed

text \<open>
  Over the air go out the state, the last error, the result of the last command and the capabilities, or the
  status byte, and nothing else: neither the characteristic credentials are written to nor any other reads
  back what was received, queued or stored. What comes in reaches the frame parsers only.
\<close>

theorem nothing_else_served:
  "improv_value u b =
     (if u = IMPROV_UUID 1 then Some [state_byte (cur_state (im b))]
      else if u = IMPROV_UUID 2 then Some [error_byte (cur_error (im b))]
      else if u = IMPROV_UUID 4 then Some (result_buf (im b))
      else if u = IMPROV_UUID 5 then Some [caps b] else None)
   \<and> writes improv_svc u = (if u = IMPROV_UUID 3 then Some WriteRpc else None)
   \<and> ztp_value u s = (if u = ZTP_UUID 4 then Some [status_byte (cur_status s)] else None)
   \<and> writes ztp_svc u = (if u = ZTP_UUID 2 then Some WriteRequest else if u = ZTP_UUID 5 then Some WriteTimesync else None)
   \<and> improv_value u (b\<lparr>im := (im b)\<lparr>i_rx := x, prov_q := q, i_creds := cs\<rparr>\<rparr>) = improv_value u b"
  unfolding improv_values improv_writable ztp_values ztp_writable by simp

section \<open>What is advertised\<close>

datatype ble_event =
    SetState improv_state | SetError improv_error | AdvStart rc | Recycled rc | AdvStop
  | Connected bool | Disconnected

definition ble_react :: "ble_event \<Rightarrow> improv_ble \<Rightarrow> improv_ble" where
  "ble_react e b =
     (case e of
        SetState st \<Rightarrow> ble_set_state st b
      | SetError er \<Rightarrow> ble_set_error er b
      | AdvStart err \<Rightarrow> ble_adv_start err b
      | Recycled err \<Rightarrow> imp_adv_restart_fn err b
      | AdvStop \<Rightarrow> b\<lparr>im := imp_adv_stop (im b)\<rparr>
      | Connected err \<Rightarrow> b\<lparr>im := imp_on_connected err (im b)\<rparr>
      | Disconnected \<Rightarrow> b\<lparr>im := imp_on_disconnected (im b)\<rparr>)"

text \<open>Service data as the Improv protocol wants it: its 16-bit UUID, the state, the capabilities.\<close>

definition current_data :: "improv_ble \<Rightarrow> bytes" where
  "current_data b = [0x77, 0x46, state_byte (cur_state (im b)), caps b, 0, 0, 0, 0]"

definition ble_inv :: "byte \<Rightarrow> improv_ble \<Rightarrow> bool" where
  "ble_inv c b \<longleftrightarrow> caps b = c \<and> (\<exists>x y. svc_data b = [0x77, 0x46, x, y, 0, 0, 0, 0])
     \<and> (i_adv_running (im b) \<longrightarrow> i_adv_wanted (im b) \<and> \<not> i_conn (im b) \<and> svc_data b = current_data b)"

lemmas ble_defs = ble_set_state_def ble_set_error_def ble_adv_start_def imp_adv_restart_fn_def notify_u8_def
  adv_refresh_data_def imp_adv_start_def imp_adv_stop_def imp_on_connected_def imp_on_disconnected_def
  set_state_def set_error_def

interpretation ble: event_system ble_react "ble_inv c" for c
proof
  fix e :: ble_event and s :: improv_ble
  assume "ble_inv c s"
  then show "ble_inv c (ble_react e s)"
    by (cases e) (auto simp: ble_react_def ble_inv_def current_data_def ble_defs)
qed



end
