(* ===== verification/Client_Hooks.thy ===== *)
theory Client_Hooks
  imports Firmware Boot
begin

text \<open>
  What an application gives to the cloud client: the hook tables and parameter declarations of
  \<^verbatim>\<open>src/apps/*/src/tedge_glue.c\<close> and the shell commands of the Modbus server. The client stores only values its declarations admit;
  that is the hypothesis \<open>admitted\<close>.
\<close>

section \<open>Declarations\<close>

datatype tedge_parameter =
    PARAM_BOOL string bool
  | PARAM_INT string int int int
  | PARAM_ENUM string string "string list"
  | PARAM_STRING string string nat

definition control_params :: "control_cfg \<Rightarrow> tedge_parameter list" where
  "control_params cfg =
     [PARAM_BOOL ''running'' (running_default cfg),
      PARAM_ENUM ''mode'' (if mode_default cfg = 2 then ''manual'' else if mode_default cfg = 1 then ''auto'' else ''off'')
        [''off'', ''auto'', ''manual''],
      PARAM_INT ''speed_setpoint'' (setpoint_default cfg) (setpoint_min cfg) (setpoint_max cfg),
      PARAM_BOOL ''local_writes'' True]"

definition pump_params :: "telemetry_cfg \<Rightarrow> tedge_parameter list" where
  "pump_params t =
     [PARAM_INT ''interval_s'' (interval_default t) 5 3600, PARAM_BOOL ''telemetry'' True,
      PARAM_STRING ''measurement_type'' (type_default t) 31]"

definition server_params :: "telemetry_cfg \<Rightarrow> tedge_parameter list" where
  "server_params t = [PARAM_INT ''interval_s'' (interval_default t) 5 3600, PARAM_BOOL ''telemetry'' True]"

definition agent_params :: "telemetry_cfg \<Rightarrow> tedge_parameter list" where
  "agent_params t = [PARAM_INT ''interval_s'' (interval_default t) 5 3600, PARAM_BOOL ''telemetry'' True]"

fun admits :: "tedge_params \<Rightarrow> tedge_parameter \<Rightarrow> bool" where
  "admits ps (PARAM_BOOL k d) = True"
| "admits ps (PARAM_INT k d lo hi) = (case get_int ps k of Some v \<Rightarrow> lo \<le> v \<and> v \<le> hi | None \<Rightarrow> True)"
| "admits ps (PARAM_ENUM k d cs) = (case get_string ps k of Some v \<Rightarrow> v \<in> set cs | None \<Rightarrow> True)"
| "admits ps (PARAM_STRING k d n) = (case get_string ps k of Some v \<Rightarrow> length v \<le> n | None \<Rightarrow> True)"

definition admitted :: "tedge_params \<Rightarrow> tedge_parameter list \<Rightarrow> bool" where
  "admitted ps ds = list_all (admits ps) ds"

text \<open>\<open>control_changed\<close> applies the controls and accepts whatever the client has checked.\<close>

definition control_changed :: "control_cfg \<Rightarrow> tedge_params \<Rightarrow> controls \<Rightarrow> rc \<times> controls" where
  "control_changed cfg ps c = (OK, control_apply cfg ps c)"

section \<open>Hooks\<close>

record tedge_hooks =
  hk_on_state :: "int \<Rightarrow> tedge_state \<Rightarrow> led_state \<Rightarrow> led_state"
  hk_restart_request :: rc
  hk_reset :: "bool \<Rightarrow> reset_kind"
  hk_firmware_confirm_check :: "(ua_state \<Rightarrow> rc) option"

definition restart_request :: rc where
  "restart_request = OK"

definition modbus_hooks :: "bool \<Rightarrow> tedge_hooks" where
  "modbus_hooks refuse_firmware =
     \<lparr>hk_on_state = on_state, hk_restart_request = restart_request, hk_reset = boot_request_reboot,
      hk_firmware_confirm_check = (if refuse_firmware then Some (\<lambda>_. Err EINVAL) else None)\<rparr>"

text \<open>The hooks of the other three applications, each with an \<open>on_state\<close> of its own file.\<close>

definition opcua_hooks :: "bool \<Rightarrow> tedge_hooks" where
  "opcua_hooks firmware_update =
     \<lparr>hk_on_state = (\<lambda>now st led. case st of
          TEDGE_STATE_AWAITING_REGISTRATION \<Rightarrow> status_led_set_mode now STATUS_LED_PROVISIONING led
        | TEDGE_STATE_CONNECTED \<Rightarrow> status_led_set_mode now STATUS_LED_CONNECTED led
        | _ \<Rightarrow> led),
      hk_restart_request = OK, hk_reset = boot_request_reboot,
      hk_firmware_confirm_check = (if firmware_update then Some firmware_confirm_check else None)\<rparr>"

definition snmp_hooks :: tedge_hooks where
  "snmp_hooks =
     \<lparr>hk_on_state = (\<lambda>now st led. case st of
          TEDGE_STATE_AWAITING_REGISTRATION \<Rightarrow> status_led_set_mode now STATUS_LED_PROVISIONING led
        | TEDGE_STATE_CONNECTED \<Rightarrow> status_led_set_mode now STATUS_LED_CONNECTED led
        | _ \<Rightarrow> led),
      hk_restart_request = OK, hk_reset = boot_request_reboot, hk_firmware_confirm_check = None\<rparr>"

definition agent_hooks :: tedge_hooks where
  "agent_hooks =
     \<lparr>hk_on_state = (\<lambda>now st led. case st of
          TEDGE_STATE_AWAITING_REGISTRATION \<Rightarrow> status_led_set_mode now STATUS_LED_PROVISIONING led
        | TEDGE_STATE_CONNECTED \<Rightarrow> status_led_set_mode now STATUS_LED_CONNECTED led
        | _ \<Rightarrow> led),
      hk_restart_request = OK, hk_reset = boot_request_reboot, hk_firmware_confirm_check = None\<rparr>"

section \<open>Shell commands\<close>

text \<open>
  \<open>tedge flood [N]\<close>: \<open>count\<close> is what \<open>strtol\<close> makes of the argument. What is published, and the result of
  the last call (0 when there was none).
\<close>

definition cmd_flood :: "(string \<Rightarrow> int) \<Rightarrow> (int \<Rightarrow> int) \<Rightarrow> string list \<Rightarrow> int list \<times> int" where
  "cmd_flood strtol publish argv =
     (let count = (if length argv > 1 then strtol (argv ! 1) else 50);
          vs = [0..count - 1]
      in (vs, if vs = [] then 0 else publish (last vs)))"

text \<open>The subcommands of a full build: name, arguments it must have, and those it may have on top.\<close>

definition modbus_shell_cmds :: "bool \<Rightarrow> (string \<times> nat \<times> nat) list" where
  "modbus_shell_cmds fault_command =
     [(''diag'', 1, 0)] @ (if fault_command then [(''crash'', 1, 0)] else [])
     @ [(''event'', 1, 1), (''alarm'', 1, 2), (''clear'', 1, 1), (''flood'', 1, 1)]"

section \<open>An operator's values are what the pump gets\<close>

lemma declared_mode:
  assumes "control_cfg_ok cfg" "admits ps (PARAM_ENUM ''mode'' d [''off'', ''auto'', ''manual''])"
  shows "g_mode (control_apply cfg ps c) \<in> {0, 1, 2}"
    "mode_names ! nat (g_mode (control_apply cfg ps c)) =
      (case get_string ps ''mode'' of Some m \<Rightarrow> m | None \<Rightarrow> mode_names ! nat (mode_default cfg))"
proof -
  have d: "mode_default cfg = 0 \<or> mode_default cfg = 1 \<or> mode_default cfg = 2"
    using assms(1) by (auto simp: control_cfg_ok_def)
  have rng: "[0..<length mode_names] = [0, 1, 2]" by (simp add: mode_names_def upt_rec)
  show "g_mode (control_apply cfg ps c) \<in> {0, 1, 2}"
    "mode_names ! nat (g_mode (control_apply cfg ps c)) =
      (case get_string ps ''mode'' of Some m \<Rightarrow> m | None \<Rightarrow> mode_names ! nat (mode_default cfg))"
    using d assms(2)
    by (auto simp: control_apply_def rng Let_def app_control_set_mode_def app_control_set_setpoint_def
        app_control_set_running_def app_control_set_local_writes_def mode_names_def split: option.splits)
qed


definition operator_values :: tedge_params where
  "operator_values = \<lparr>get_bool = (\<lambda>k. if k = ''local_writes'' then Some False else None),
     get_int = (\<lambda>k. if k = ''speed_setpoint'' then Some 35 else if k = ''interval_s'' then Some 600 else None),
     get_string = (\<lambda>k. if k = ''mode'' then Some ''manual'' else None)\<rparr>"


text \<open>
  Telemetry keeps to its declaration: whatever the operator set, and in every application, the next
  turn comes no sooner than five seconds and no later than an hour, and the type sent is at most 31 characters.
\<close>

theorem telemetry_within_declaration:
  fixes t :: telemetry_cfg
  assumes "admitted ps (pump_params t)" "5 \<le> interval_default t" "interval_default t \<le> 3600" "length (type_default t) \<le> 31"
  shows "snd (modbus_telemetry_fn t (Some ps) p) \<in> {5..3600} \<and> snd (opcua_telemetry_fn t (Some ps) vs) \<in> {5..3600}
    \<and> snd (snmp_telemetry_fn t (Some ps) x) \<in> {5..3600} \<and> length (param_measurement_type t ps) \<le> 31"
proof -
  have i: "param_interval_s t ps \<in> {5..3600}" and "length (param_measurement_type t ps) \<le> 31"
    using assms
    by (auto simp: admitted_def pump_params_def param_interval_s_def param_measurement_type_def split: option.splits)
  then show ?thesis by (simp add: modbus_telemetry_fn_def opcua_telemetry_fn_def snmp_telemetry_fn_def Let_def split: prod.split)
qed

theorem telemetry_within_declaration_witness:
  "snd (modbus_telemetry_fn \<lparr>interval_default = 30, type_default = ''pump''\<rparr> (Some operator_values) pump_boot) \<in> {5..3600}"
  using telemetry_within_declaration [where p = pump_boot and ps = operator_values and t = "\<lparr>interval_default = 30, type_default = ''pump''\<rparr>"]
  by (simp add: operator_values_def admitted_def pump_params_def)

end
