(* ===== verification/Debounce.thy ===== *)
theory Debounce
  imports Gesture Improv Ztp_Link
begin

text \<open>
  The sw0 line in time: the edge interrupt that puts off a work item (\<open>btn_isr\<close> of
  \<^verbatim>\<open>src/lib/common/button.c\<close> and of the Wi-Fi provisioner's \<^verbatim>\<open>improv.c\<close> and \<^verbatim>\<open>ztp.c\<close>), the run of
  the work item when it is due, and the start. The three modules share one scheme, so it is written once
  with the work function as an argument.
\<close>

definition BTN_DEBOUNCE_MS :: int where "BTN_DEBOUNCE_MS = 30"
definition BTN_TICK_MS :: int where "BTN_TICK_MS = 50"

section \<open>The line and its work item\<close>

text \<open>When the work item is due, the level of the line, and the module's own state.\<close>

record 'a sw0 =
  due :: "int option"
  line :: bool
  dev :: 'a

definition btn_isr :: "int \<Rightarrow> 's sw0 \<Rightarrow> 's sw0" where
  "btn_isr now d = d\<lparr>due := Some (now + BTN_DEBOUNCE_MS)\<rparr>"

text \<open>A work function gives what it did, whether it schedules itself again, and the new state.\<close>

type_synonym ('a, 's) work = "int \<Rightarrow> bool \<Rightarrow> 's \<Rightarrow> 'a \<times> bool \<times> 's"

definition run_work :: "('a, 's) work \<Rightarrow> int \<Rightarrow> 's sw0 \<Rightarrow> 'a \<times> 's sw0" where
  "run_work work now d =
     (let (a, again, s) = work now (line d) (dev d)
      in (a, d\<lparr>due := if again then Some (now + BTN_TICK_MS) else None, dev := s\<rparr>))"

text \<open>The work queue until \<open>h\<close>: every run that is due by then, with its time.\<close>

function run_due :: "('a, 's) work \<Rightarrow> int \<Rightarrow> 's sw0 \<Rightarrow> (int \<times> 'a) list \<times> 's sw0" where
  "run_due work h d =
     (case due d of
        None \<Rightarrow> ([], d)
      | Some u \<Rightarrow>
          if h < u then ([], d)
          else let (a, d) = run_work work u d; (log, d) = run_due work h d in ((u, a) # log, d))"
  by pat_completeness auto
termination
  by (relation "measure (\<lambda>(work, h, d). case due d of None \<Rightarrow> 0 | Some u \<Rightarrow> nat (h - u + 1))")
    (auto simp: run_work_def BTN_TICK_MS_def split: prod.splits option.splits if_splits)

declare run_due.simps [simp del]

lemma run_due_none: "due d = None \<Longrightarrow> run_due work h d = ([], d)"
  by (simp add: run_due.simps)

lemma run_due_later: "due d = Some u \<Longrightarrow> h < u \<Longrightarrow> run_due work h d = ([], d)"
  by (simp add: run_due.simps)

lemma run_due_now:
  "due d = Some u \<Longrightarrow> u \<le> h \<Longrightarrow> run_work work u d = (a, e) \<Longrightarrow> run_due work h e = (log, f) \<Longrightarrow>
   run_due work h d = ((u, a) # log, f)"
  by (subst run_due.simps) simp

text \<open>Edges: the time of each and the level after it. A run that is due comes before an edge of the same time.\<close>

fun edges :: "('a, 's) work \<Rightarrow> (int \<times> bool) list \<Rightarrow> 's sw0 \<Rightarrow> (int \<times> 'a) list \<times> 's sw0" where
  "edges work [] d = ([], d)"
| "edges work ((t, l) # es) d =
     (let (log, d) = run_due work t d;
          (log', d) = edges work es (btn_isr t (d\<lparr>line := l\<rparr>))
      in (log @ log', d))"

definition line_run :: "('a, 's) work \<Rightarrow> (int \<times> bool) list \<Rightarrow> int \<Rightarrow> 's sw0 \<Rightarrow> (int \<times> 'a) list \<times> 's sw0" where
  "line_run work es h d =
     (let (log, d) = edges work es d; (log', d) = run_due work h d in (log @ log', d))"

lemma edges_append:
  "edges work (as @ bs) d =
     (let (log, d) = edges work as d; (log', d) = edges work bs d in (log @ log', d))"
  by (induction work as d rule: edges.induct) (auto simp: Let_def split: prod.splits)

section \<open>Starting\<close>

text \<open>
  \<open>button_start\<close> of the provisioner's modules up to what it keeps of the line: nothing is armed where the
  pin is not ready or cannot be set up, or where the board has no sw0 (\<open>ready\<close> is false).
\<close>

definition button_start :: "bool \<Rightarrow> rc \<Rightarrow> rc \<Rightarrow> bool \<Rightarrow> (bool \<Rightarrow> 's) \<Rightarrow> 's sw0 option" where
  "button_start ready configure interrupt level init =
     (if \<not> ready then None
      else if configure \<noteq> OK \<or> interrupt \<noteq> OK then None
      else Some \<lparr>due = None, line = level, dev = init level\<rparr>)"

text \<open>The work functions of the provisioner's modules never schedule themselves.\<close>

definition imp_work :: "(unit, bool \<times> improv) work" where
  "imp_work now level s = ((), False, imp_btn_work_fn (fst s) level (snd s))"

definition ztp_work :: "(unit, bool \<times> rx_state) work" where
  "ztp_work now level s = ((), False, ztp_btn_work_fn (fst s) level (snd s))"

section \<open>Bouncing contacts\<close>

text \<open>A burst: edges less than the quiet time apart.\<close>

fun burst :: "(int \<times> bool) list \<Rightarrow> bool" where
  "burst [] \<longleftrightarrow> False"
| "burst [e] \<longleftrightarrow> True"
| "burst (e # f # es) \<longleftrightarrow> fst e \<le> fst f \<and> fst f < fst e + BTN_DEBOUNCE_MS \<and> burst (f # es)"

lemma burst_nonempty: "burst es \<Longrightarrow> es \<noteq> []"
  by auto

lemma burst_edges:
  assumes "burst es" "\<forall>u. due d = Some u \<longrightarrow> fst (hd es) < u"
  shows "edges work es d = ([], d\<lparr>due := Some (fst (last es) + BTN_DEBOUNCE_MS), line := snd (last es)\<rparr>)"
  using assms
proof (induction es arbitrary: d rule: burst.induct)
  case (2 e)
  have "run_due work (fst e) d = ([], d)"
    using 2(2) run_due_none [of d work "fst e"] run_due_later [of d _ "fst e" work] by (cases "due d") auto
  then show ?case by (cases e) (simp add: btn_isr_def)
next
  case (3 e f es)
  have "run_due work (fst e) d = ([], d)"
    using 3(3) run_due_none [of d work "fst e"] run_due_later [of d _ "fst e" work] by (cases "due d") auto
  then show ?case
    using 3(1) [of "btn_isr (fst e) (d\<lparr>line := snd e\<rparr>)"] 3(2) by (cases e) (simp add: btn_isr_def)
qed simp

text \<open>
  C29. However the contacts bounce, one reading counts. Edges less than 30 ms apart, whatever was pending
  before them, lead to exactly one run of the work item, 30 ms after the last edge, and it reads the level
  the line has settled on.
\<close>

theorem bounce_read_once:
  assumes "burst es" "\<forall>u. due d = Some u \<longrightarrow> fst (hd es) < u"
    and "t = fst (last es) + BTN_DEBOUNCE_MS" "t \<le> h" "h < t + BTN_TICK_MS"
    and "work t (snd (last es)) (dev d) = (a, again, s)"
  shows "line_run work es h d
    = ([(t, a)], \<lparr>due = (if again then Some (t + BTN_TICK_MS) else None), line = snd (last es), dev = s\<rparr>)"
proof -
  let ?d = "d\<lparr>due := Some t, line := snd (last es)\<rparr>"
    and ?e = "\<lparr>due = (if again then Some (t + BTN_TICK_MS) else None), line = snd (last es), dev = s\<rparr>"
  have work: "run_work work t ?d = (a, ?e)" using assms(6) by (simp add: run_work_def)
  have "run_due work h ?e = ([], ?e)" using assms(5) by (cases again) (simp_all add: run_due.simps)
  then have "run_due work h ?d = ([(t, a)], ?e)" using run_due_now [of ?d t h work a ?e] work assms(4) by simp
  then show ?thesis using burst_edges [OF assms(1, 2), of work] by (simp add: line_run_def assms(3))
qed

definition sample_btn :: "btn_state sw0" where
  "sample_btn =
     \<lparr>due = None, line = False,
      dev = app_button_start \<lparr>press_count = 5, identify_count = 3, window_ms = 5000, short_max_ms = 1000,
        quiet_ms = 700, erase_ms = 10000\<rparr> False\<rparr>"

theorem bounce_read_once_witness:
  "fst (line_run btn_work_fn [(100, True), (104, False), (109, True), (130, True)] 170 sample_btn) = [(160, GESTURE_NONE)]"
proof -
  let ?es = "[(100, True), (104, False), (109, True), (130, True)] :: (int \<times> bool) list"
  have "fst (btn_work_fn 160 True (dev sample_btn)) = GESTURE_NONE"
    by (simp add: sample_btn_def btn_work_fn_def app_button_start_def gesture_init_def gesture_press_def gesture_tick_def
        erase_on_def gesture_busy_def Let_def)
  then obtain again s where w: "btn_work_fn 160 True (dev sample_btn) = (GESTURE_NONE, again, s)"
    by (metis prod.collapse)
  show ?thesis
    using bounce_read_once [of ?es sample_btn 160 170 btn_work_fn GESTURE_NONE again s] w
    by (simp add: BTN_DEBOUNCE_MS_def BTN_TICK_MS_def sample_btn_def)
qed

section \<open>A bouncing line is as good as a clean one\<close>

text \<open>Bursts with the quiet time between them.\<close>

fun bursts :: "(int \<times> bool) list list \<Rightarrow> bool" where
  "bursts [] \<longleftrightarrow> True"
| "bursts [b] \<longleftrightarrow> burst b"
| "bursts (b # c # bs) \<longleftrightarrow> burst b \<and> fst (last b) + BTN_DEBOUNCE_MS \<le> fst (hd c) \<and> bursts (c # bs)"

definition no_tick :: "('a, 's) work \<Rightarrow> bool" where
  "no_tick work \<longleftrightarrow> (\<forall>now l s. \<not> fst (snd (work now l s)))"

lemma run_due_once:
  assumes "no_tick work" "due d = Some u" "u \<le> h"
  shows "run_due work h d = ([(u, fst (run_work work u d))], snd (run_work work u d))"
    "due (snd (run_work work u d)) = None"
proof -
  obtain a again s where w: "work u (line d) (dev d) = (a, again, s)" by (metis prod_cases3)
  then have "\<not> again" using assms(1) by (metis fst_conv no_tick_def snd_conv)
  then show n: "due (snd (run_work work u d)) = None" using w by (simp add: run_work_def)
  show "run_due work h d = ([(u, fst (run_work work u d))], snd (run_work work u d))"
    using run_due_now [OF assms(2, 3) _ run_due_none [OF n, of work h], of "fst (run_work work u d)"] by simp
qed

lemma run_due_stable:
  assumes "no_tick work" "\<forall>u. due d = Some u \<longrightarrow> u \<le> t" "t \<le> t'"
  shows "run_due work t d = run_due work t' d" "due (snd (run_due work t d)) = None"
proof -
  have "run_due work t d = run_due work t' d \<and> due (snd (run_due work t d)) = None"
  proof (cases "due d")
    case (Some u)
    then have "u \<le> t" "u \<le> t'" using assms(2, 3) by auto
    then show ?thesis using run_due_once [OF assms(1) Some] by simp
  qed (simp add: run_due_none)
  then show "run_due work t d = run_due work t' d" "due (snd (run_due work t d)) = None" by blast+
qed

lemma burst_order: "burst es \<Longrightarrow> fst (hd es) \<le> fst (last es)"
  by (induction es rule: burst.induct) auto

lemma burst_as_last:
  assumes "no_tick work" "burst es" "\<forall>u. due d = Some u \<longrightarrow> u \<le> fst (hd es)"
  shows "edges work es d = edges work [last es] d"
    "due (snd (edges work es d)) = Some (fst (last es) + BTN_DEBOUNCE_MS)"
proof -
  obtain t l fs where es: "es = (t, l) # fs" using assms(2) by (metis burst_nonempty neq_Nil_conv surj_pair)
  obtain log d' where r: "run_due work t d = (log, d')" by fastforce
  have n: "due d' = None" using run_due_stable(2) [OF assms(1), of d t t] assms(3) r by (simp add: es)
  have t: "t \<le> fst (last es)" using burst_order [OF assms(2)] by (simp add: es)
  have r': "run_due work (fst (last es)) d = (log, d')"
    using run_due_stable(1) [OF assms(1), of d t "fst (last es)"] assms(3) t r by (simp add: es)
  have rest: "edges work es d' = ([], d'\<lparr>due := Some (fst (last es) + BTN_DEBOUNCE_MS), line := snd (last es)\<rparr>)"
    using burst_edges [OF assms(2), of d' work] n by simp
  have "edges work es d' = edges work fs (btn_isr t (d'\<lparr>line := l\<rparr>))"
    using run_due_none [OF n, of work t] by (simp add: es split_beta)
  then have whole: "edges work es d = (log, d'\<lparr>due := Some (fst (last es) + BTN_DEBOUNCE_MS), line := snd (last es)\<rparr>)"
    using rest r by (simp add: es split_beta)
  then show "edges work es d = edges work [last es] d"
    using r' by (cases "last es") (simp add: btn_isr_def)
  show "due (snd (edges work es d)) = Some (fst (last es) + BTN_DEBOUNCE_MS)" using whole by simp
qed

lemma bursts_as_last:
  assumes "no_tick work" "bursts bs" "\<forall>b \<in> set (take 1 bs). \<forall>u. due d = Some u \<longrightarrow> u \<le> fst (hd b)"
  shows "edges work (concat bs) d = edges work (map last bs) d"
  using assms(2, 3)
proof (induction bs arbitrary: d rule: bursts.induct)
  case (2 b)
  then show ?case using burst_as_last(1) [OF assms(1)] by simp
next
  case (3 b c bs)
  note b = burst_as_last [OF assms(1), of b d]
  obtain log d' where e: "edges work b d = (log, d')" by fastforce
  have "edges work (concat (c # bs)) d' = edges work (map last (c # bs)) d'"
    using 3(2, 3) b(2) e by (intro 3(1)) auto
  moreover have "edges work [last b] d = (log, d')" using b(1) e 3(2, 3) by simp
  ultimately show ?case
    using edges_append [of work b "concat (c # bs)" d] edges_append [of work "[last b]" "map last (c # bs)" d] e by simp
qed simp

lemma imp_work_no_tick: "no_tick imp_work" by (simp add: no_tick_def imp_work_def)
lemma ztp_work_no_tick: "no_tick ztp_work" by (simp add: no_tick_def ztp_work_def)

definition sample_sw0 :: "(bool \<times> improv) sw0" where
  "sample_sw0 = \<lparr>due = None, line = False, dev = (False, sample_improv sample_improv_cfg)\<rparr>"

definition sample_ztp_sw0 :: "(bool \<times> rx_state) sw0" where
  "sample_ztp_sw0 = \<lparr>due = None, line = False, dev = (False, rx_init)\<rparr>"

text \<open>
  The provisioner's button does not see bouncing at all: bursts with 30 ms of quiet between them
  leave both modules exactly as the clean line does that has one edge per burst, its last.
\<close>

theorem bouncing_equals_clean:
  assumes "bursts bs" "due i = None" "due z = None"
  shows "line_run imp_work (concat bs) h i = line_run imp_work (map last bs) h i
    \<and> line_run ztp_work (concat bs) h z = line_run ztp_work (map last bs) h z"
  using bursts_as_last [OF imp_work_no_tick assms(1), of i] bursts_as_last [OF ztp_work_no_tick assms(1), of z] assms(2, 3)
  by (simp add: line_run_def)

theorem bouncing_equals_clean_witness:
  "line_run imp_work [(100, True), (104, False), (109, True), (300, False), (310, True), (329, False)] 400 sample_sw0
    = line_run imp_work [(109, True), (329, False)] 400 sample_sw0"
  using bouncing_equals_clean [of "[[(100, True), (104, False), (109, True)], [(300, False), (310, True), (329, False)]]"
      sample_sw0 sample_ztp_sw0 400]
  by (simp add: BTN_DEBOUNCE_MS_def sample_sw0_def sample_ztp_sw0_def)

end
