(* ===== verification/Addresses.thy ===== *)
theory Addresses
  imports Softap Softap_Dns
begin

text \<open>
  Addresses the device sets up itself: the access point of the SoftAP portal with its DHCP pool
  (\<^verbatim>\<open>src/apps/wifi-provisioner/src/softap.c\<close>, \<open>ap_start\<close>), the fixed address of a build without DHCP and the
  address the interface has (\<^verbatim>\<open>src/lib/common/net.c\<close>), and the name lookup of the simulator build
  (\<^verbatim>\<open>src/lib/common/nsos_compat.c\<close>). Addresses are four bytes in network order; reading one from text
  (\<open>net_addr_pton\<close>) is Zephyr's and a parameter.
\<close>

datatype addr_call =
    SetGw bytes
  | AddrAdd bytes
  | SetNetmask bytes bytes
  | ApEnable string
  | DhcpServerStart bytes

section \<open>The access point\<close>

definition AP_ADDR :: string where "AP_ADDR = ''192.168.4.1''"
definition AP_MASK :: string where "AP_MASK = ''255.255.255.0''"

text \<open>
  The results of \<open>net_addr_pton\<close> on the two constants and of adding the address are not looked at. \<open>sap\<close>: there is an
  access point interface; \<open>enable\<close> and \<open>dhcp\<close>: what the two requests return.
\<close>

definition ap_start :: "(string \<Rightarrow> bytes) \<Rightarrow> bool \<Rightarrow> rc \<Rightarrow> rc \<Rightarrow> string \<Rightarrow> addr_call list \<times> rc" where
  "ap_start pton sap enable dhcp net_name =
     (if \<not> sap then ([], Err ENODEV)
      else
        let addr = pton AP_ADDR; mask = pton AP_MASK;
            calls = [SetGw addr, AddrAdd addr, SetNetmask addr mask, ApEnable net_name]
        in if enable \<noteq> OK then (calls, enable)
           else
             let pool = addr[3 := addr ! 3 + 10]
             in (calls @ [DhcpServerStart pool], dhcp))"

text \<open>The part of an address that the mask keeps.\<close>

definition subnet :: "bytes \<Rightarrow> bytes \<Rightarrow> bytes" where
  "subnet m a = map2 (AND) m a"

lemma response_for_a:
  "response id0 id1 rd ls 1 = (take (length (response id0 id1 rd ls 1) - 4) (response id0 id1 rd ls 1)) @ [192, 168, 4, 1]"
  by (simp add: response_def dns_answer_def)

text \<open>
  C31. Whatever name a phone looks up, it is led to the portal. Once the access point is up, the address in the
  answer to any A query is the one the access point's interface and its gateway have, and the leases start
  in the same subnet, at another address: the DNS responder's constant and the access point's agree.
\<close>

theorem names_lead_to_portal:
  assumes "pton AP_ADDR = [192, 168, 4, 1]" "pton AP_MASK = [255, 255, 255, 0]"
    and "ap_start pton sap enable dhcp net_name = (calls, OK)"
    and "list_all label_ok ls" "length (name_bytes ls) \<le> 480"
  shows "\<exists>a p q. dns_reply (query id0 id1 rd ls 1 extra) = Some (q @ a) \<and> length a = 4
    \<and> {SetGw a, AddrAdd a, SetNetmask a (pton AP_MASK), ApEnable net_name, DhcpServerStart p} = set calls
    \<and> p \<noteq> a \<and> subnet (pton AP_MASK) p = subnet (pton AP_MASK) a"
proof -
  let ?a = "[192, 168, 4, 1] :: bytes" and ?p = "[192, 168, 4, 11] :: bytes"
  obtain q where "dns_reply (query id0 id1 rd ls 1 extra) = Some (q @ ?a)"
    using dns_answers_query_aux [OF assms(4, 5), of id0 id1 rd 1 extra] response_for_a by metis
  moreover have "{SetGw ?a, AddrAdd ?a, SetNetmask ?a (pton AP_MASK), ApEnable net_name, DhcpServerStart ?p} = set calls"
    using assms(1-3) by (auto simp: ap_start_def Let_def numeral_eq_Suc split: if_splits)
  moreover have "?p \<noteq> ?a" "subnet (pton AP_MASK) ?p = subnet (pton AP_MASK) ?a"
    by (simp_all add: assms(2) subnet_def)
  ultimately show ?thesis by (intro exI [of _ ?a] exI [of _ ?p] exI [of _ q]) simp
qed

definition sample_pton :: "string \<Rightarrow> bytes" where
  "sample_pton s = (if s = AP_ADDR then [192, 168, 4, 1] else [255, 255, 255, 0])"

theorem names_lead_to_portal_witness:
  "\<exists>a p q. dns_reply (query 1 2 True [ascii ''a''] 1 []) = Some (q @ a) \<and> length a = 4
    \<and> {SetGw a, AddrAdd a, SetNetmask a [255, 255, 255, 0], ApEnable ''x-setup'', DhcpServerStart p}
      = set (fst (ap_start sample_pton True OK OK ''x-setup'')) \<and> p \<noteq> a"
proof -
  have pton: "sample_pton AP_ADDR = [192, 168, 4, 1]" "sample_pton AP_MASK = [255, 255, 255, 0]"
    by (simp_all add: sample_pton_def AP_ADDR_def AP_MASK_def)
  have "ap_start sample_pton True OK OK ''x-setup'' = (fst (ap_start sample_pton True OK OK ''x-setup''), OK)"
    by (simp add: ap_start_def Let_def)
  then show ?thesis
    using names_lead_to_portal [OF pton, of True OK OK "''x-setup''" _ "[ascii ''a'']" 1 2 True "[]"] unfolding pton
    by (simp add: label_ok_def name_bytes_def ascii_def) blast
qed

section \<open>The station\<close>

definition apply_static_ip :: "(string \<Rightarrow> bytes option) \<Rightarrow> bool \<Rightarrow> string \<Rightarrow> string \<Rightarrow> string \<Rightarrow> addr_call list" where
  "apply_static_ip pton iface static_addr static_netmask static_gw =
     (if \<not> iface then []
      else case pton static_addr of
        None \<Rightarrow> []
      | Some addr \<Rightarrow>
          [AddrAdd addr]
          @ (case pton static_netmask of Some nm \<Rightarrow> [SetNetmask addr nm] | None \<Rightarrow> [])
          @ (case pton static_gw of Some gw \<Rightarrow> [SetGw gw] | None \<Rightarrow> []))"

text \<open>No interface and no preferred address are both 0.\<close>

definition read_iface_ipv4 :: "u32 option option \<Rightarrow> u32" where
  "read_iface_ipv4 iface =
     (case iface of
        None \<Rightarrow> 0
      | Some a \<Rightarrow> (case a of Some s_addr \<Rightarrow> s_addr | None \<Rightarrow> 0))"

definition app_net_hostname :: "string option \<Rightarrow> string \<Rightarrow> string" where
  "app_net_hostname net_hostname device_name = (case net_hostname of Some h \<Rightarrow> h | None \<Rightarrow> device_name)"

section \<open>The simulator's name lookup\<close>

datatype gai_rc = GAI_OK | DNS_EAI_SYSTEM

text \<open>
  \<open>want_host\<close> and \<open>want_serv\<close>: the two buffers are there; \<open>ntop\<close> is \<open>zsock_inet_ntop\<close> for a buffer of the given
  size, and \<open>port\<close> the port in host order. Text in a buffer is what precedes the terminator.
\<close>

definition zsock_getnameinfo ::
  "(nat \<Rightarrow> string option) \<Rightarrow> u16 \<Rightarrow> nat option \<Rightarrow> nat option \<Rightarrow> gai_rc \<times> string option \<times> string option" where
  "zsock_getnameinfo ntop port want_host want_serv =
     (let host = (case want_host of None \<Rightarrow> None | Some hostlen \<Rightarrow> ntop hostlen)
      in if want_host \<noteq> None \<and> host = None then (DNS_EAI_SYSTEM, None, None)
         else (GAI_OK, host, map_option (\<lambda>servlen. take (servlen - 1) (dec (unat port))) want_serv))"

end
