(* ===== verification/Spec2Isabelle.thy ===== *)
theory Spec2Isabelle
  imports Snmp_Listener Modbus_Listener Boot Improv Diag Identify Softap Softap_Dns Data_Source Pump_Drive Firmware
    Onboarding Display Ztp_Crypto Ztp_Selftest Provisioning Watchdog Reaper Gatt Client_Hooks Debounce Addresses
begin

text \<open>
  Verification development of the microcontroller-devices firmware: five Zephyr applications under
  \<^verbatim>\<open>src/apps\<close> that share the libraries under \<^verbatim>\<open>src/lib\<close>.

  \<^bold>\<open>The program.\<close> Three applications are protocol servers over a simulated device: an SNMP agent over
  a network switch, a Modbus TCP server over a pump, an OPC UA server over environment signals; a fourth is the plain
  cloud agent. Each starts its simulation, connectivity, cloud client and server from \<^verbatim>\<open>main.c\<close>, keeps its
  network alive with a watchdog, and reports to a diagnostics thread and a task watchdog. The fifth, the
  Wi-Fi provisioner, is a second image: an application without credentials, or one whose button is
  pressed in the provisioning pattern, writes a boot request to flash and reboots; MCUboot hooks read the
  request and start the provisioner, which takes credentials over BLE (Improv, or an enrollment protocol
  through a relay) or a captive portal, tests them, stores them, clears the request and reboots.

  \<^bold>\<open>Method.\<close> A C function is a HOL function on records of the static variables it uses; a machine
  integer whose wrap-around can matter is a word, a time in milliseconds of uptime an \<open>int\<close>; a function
  that returns an error code returns a value of \<open>errno\<close> in \<open>rc\<close> or in a sum. Calls into Zephyr, PSA, MCUboot, open62541
  or the cloud client are arguments (what the call returns) and entries of a list in the result
  (that the call was made). Loops over hardware or sockets are a function for one turn, folded over
  the inputs; callbacks of several threads are one function of an event, or, where they interleave with a
  main loop, an \<open>inductive\<close> step relation (\<open>Ztp_Run\<close>).
  Invariants of state machines rest on the locale \<open>guarded_system\<close> of \<open>Prelude\<close> and the
  locales of the components, each interpreted on the definitions of the code.

  \<^bold>\<open>Theories and sources.\<close>

  \<^item> \<open>Prelude\<close>: integer types, error codes, byte strings, big-endian values, lists, \<open>guarded_system\<close>.
  \<^item> \<open>Ber\<close>: \<^verbatim>\<open>lib/snmp/snmp_ber.c\<close>. The encoder writes backwards into a fixed buffer and is
    refined to a pure TLV specification, which the decoder undoes; no access leaves the buffers.
  \<^item> \<open>Sim_Switch\<close>: \<^verbatim>\<open>lib/common/sim_switch.c\<close>. \<open>Mib\<close>: \<^verbatim>\<open>lib/snmp/snmp_mib.c\<close>, the leaf table in ascending order
    and the three lookups over it. \<open>Agent\<close>: \<^verbatim>\<open>lib/snmp/snmp_agent.c\<close>, parsing, planning and encoding of a response;
    GETBULK is refined to repeated GETNEXT, and a walk visits every leaf. \<open>Trap\<close>: \<^verbatim>\<open>lib/snmp/snmp_trap.c\<close>.
    \<open>Snmp_Listener\<close>: the agent's thread and its start; a run of it is the run of a stateless server.
  \<^item> \<open>Controls\<close>: \<^verbatim>\<open>lib/common/controls.c\<close>, the Modbus callbacks of \<^verbatim>\<open>lib/modbus/modbus_server.c\<close>
    and the cloud parameters of \<^verbatim>\<open>apps/modbus-server/src/tedge_glue.c\<close>. \<open>Modbus\<close>: one request through the
    Modbus server. \<open>Modbus_Listener\<close>: its thread, which reads requests from a byte stream that arrives in any
    pieces. \<open>Pump\<close>, \<open>Environment\<close>: \<^verbatim>\<open>lib/common/sim_pump.c\<close> and \<^verbatim>\<open>sim_environment.c\<close> over the reals; \<open>Pump_Drive\<close> follows a master's
    writes to the speed register it reads back. \<open>Opcua_Nodes\<close>:
    \<^verbatim>\<open>lib/opcua/address_space.c\<close>. \<open>Data_Source\<close>: the interface \<^verbatim>\<open>lib/common/data_source.h\<close> as a locale, with what the
    address space makes of any source, interpreted on the three simulations.
  \<^item> \<open>Gesture\<close>: \<^verbatim>\<open>lib/common/button_gesture.c\<close> and \<^verbatim>\<open>button.c\<close>. \<open>Boot\<close>: \<^verbatim>\<open>lib/common/boot_request.c\<close>,
    \<^verbatim>\<open>prov_handoff.c\<close> and \<^verbatim>\<open>lib/mcuboot-hooks/prov_hooks.c\<close>.
  \<^item> \<open>Settings\<close>: \<^verbatim>\<open>lib/common/prov_identity.c\<close> and \<^verbatim>\<open>prov_c8y.c\<close>. \<open>Net\<close>: \<^verbatim>\<open>lib/common/net.c\<close>, credentials, events,
    watchdog, reconnecting. \<open>Display\<close>: \<^verbatim>\<open>lib/common/display.c\<close> and the status screen and tick of
    \<^verbatim>\<open>net.c\<close>. \<open>Liveness\<close>: \<^verbatim>\<open>lib/common/liveness.c\<close> and \<^verbatim>\<open>progress.c\<close>. \<open>Diag\<close>: \<^verbatim>\<open>lib/common/diag.c\<close>. \<open>Status_Led\<close>, \<open>Identify\<close>:
    \<^verbatim>\<open>lib/common/status_led.c\<close>, \<^verbatim>\<open>identify.c\<close>.
  \<^item> \<open>Ztp_Manifest\<close>, \<open>Ztp_Apply\<close>, \<open>Ztp_Crypto\<close>, \<open>Ztp_Envelope\<close>: the files of these names under
    \<^verbatim>\<open>apps/wifi-provisioner/src\<close>. \<open>Ztp_Link\<close> and \<open>Ztp_Run\<close>: \<^verbatim>\<open>ztp.c\<close>, the framing of messages and the main
    thread. \<open>Improv\<close>: \<^verbatim>\<open>improv.c\<close>. \<open>Softap\<close>, \<open>Softap_Dns\<close>: \<^verbatim>\<open>softap.c\<close>.
    \<open>Gatt\<close>: the GATT tables of both, what a peer reads, notifications and advertised data. \<open>Addresses\<close>: the access
    point of \<^verbatim>\<open>softap.c\<close>, the static address of \<^verbatim>\<open>net.c\<close>, \<^verbatim>\<open>nsos_compat.c\<close>. \<open>Ztp_Selftest\<close>: \<^verbatim>\<open>ztp_selftest.c\<close> over its
    vectors.
  \<^item> \<open>Debounce\<close>: the sw0 line in time, for \<^verbatim>\<open>button.c\<close>, \<^verbatim>\<open>improv.c\<close> and \<^verbatim>\<open>ztp.c\<close>. \<open>Reaper\<close>: the expiry of a watchdog
    channel, the reaper thread and the self-test of \<^verbatim>\<open>liveness.c\<close>, and the thread dump of \<^verbatim>\<open>diag.c\<close>. \<open>Watchdog\<close> puts the
    listeners under the liveness watchdog. \<open>Client_Hooks\<close>: hooks, parameter declarations and shell commands of the
    \<^verbatim>\<open>tedge_glue.c\<close> files.
  \<^item> \<open>Firmware\<close>: the \<^verbatim>\<open>main.c\<close> and \<^verbatim>\<open>tedge_glue.c\<close> of the applications, \<^verbatim>\<open>lib/common/identity.c\<close> and
    \<^verbatim>\<open>lib/opcua/opcua_server.c\<close>.
  \<^item> \<open>Enrollment\<close> composes \<open>Ztp_Run\<close>, \<open>Ztp_Envelope\<close> and \<open>Ztp_Link\<close>: from a relay's kick to the
    envelope the relay reassembles. \<open>Onboarding\<close> composes the start-up of an application, the boot
    request, the hooks, the provisioner and the credential store: once around. \<open>Provisioning\<close> follows a bundle from
    the response that carries it to the application that starts with what it brought.

  \<^bold>\<open>What the lemmas show.\<close> Wire formats: round trips (BER, RFC 3339, framing, boot request,
  identity, forms), injectivity of what is signed, and that whatever comes in no access leaves a
  buffer. Protocol servers: the answer to every well-formed request, and that no malformed one
  changes state. Provisioning: credentials are replaced only by those of a network the device has
  joined, all of a bundle is applied or nothing, the provisioner is left only when done. Connectivity and
  liveness: deadlines (reboot after an outage, feeding at most a second after progress, the end of a
  flash), reports exactly on changes; a listener that works is never reset, one that hangs is, and the
  boot after it names the context the log named. The model itself is checked against the reference vectors of the
  source: the bytes signed for the vector's fields are the vector (\<open>request_matches_reference\<close>), and its bundle is
  staged as it should be (\<open>reference_bundle_staged\<close>). Where the code falls short of its purpose the theory has the
  theorem that says so (\<open>half_request_holds_listener\<close> and \<open>half_request_resets_device\<close>, \<open>shortest_timeout_resets_idle\<close>,
  \<open>truncated_header_accepted\<close>, \<open>late_response_echoes_next_request\<close>, \<open>full_queue_deafens\<close>, \<open>settings_at_expiry_lost\<close>,
  \<open>coldstart_attempted_once\<close>, \<open>wait_connected_stale\<close>, \<open>failed_registration_stops_feeding\<close>, \<open>stall_across_wrap_recovers\<close>,
  \<open>address_line_ambiguous\<close>).

  \<^bold>\<open>Bounds and fuel.\<close> Loops end by structural recursion or a measure: no result depends on fuel.
  Buffers have the sizes of the source; sizes that are Kconfig values are arguments. \<open>Pump\<close> reads \<open>double\<close> as the
  reals, so it is exact up to rounding. Counters of key presses and of time are unbounded where the
  width cannot be reached in years; where it can (uptime in \<open>Diag\<close>, tick counters, SNMP counters) they are words.

  \<^bold>\<open>Not modelled.\<close> Set-up of sockets, threads and GPIO beyond its success or failure; most log text (the console
  is no interface of the firmware, except where a test reads it); the override of the MAC address in \<^verbatim>\<open>net.c\<close>, which
  hands six parsed numbers to the driver; the shell command that crashes on purpose; the generated library
  \<^verbatim>\<open>lib/opcua/third_party\<close>; and the frontend template, a file to copy from that logs and returns 0.
\<close>

end
